(* ===== verification/Prelude.thy ===== *)
theory Prelude
  imports Complex_Main "HOL-Library.AList" "HOL-Library.Word"
begin

text \<open>
  Shared vocabulary of the development: Python exceptions as values of a sum type, the
  bind of that error monad, Python dictionaries as insertion-ordered association lists with
  the contract the components rely on, and the collections of rewrite rules
  (\<open>py_simps\<close> for the error monad, \<open>dict_simps\<close> for dictionaries).
\<close>

unbundle bit_operations_syntax

section \<open>Exceptions and the error monad\<close>

text \<open>The exception classes the modelled files raise or catch.\<close>

datatype py_error =
    StructError
  | ValueError
  | IndexError
  | KeyError
  | TypeError
  | ZeroDivisionError
  | RuntimeError
  | IncompleteReadError
  | ConnectionError
  | FileNotFoundError
  | ProcessLookupError
  | PermissionError
  | OSError
  | TimeoutExpired
  | JSONDecodeError
  | SystemExit int
  | OutOfModel

text \<open>\<open>OutOfModel\<close> is no exception of Python: a definition that returns it says nothing about
  what the code does from there on.\<close>

type_synonym 'a py = "py_error + 'a"

named_theorems py_simps \<open>rewrite rules of the error monad\<close>
named_theorems dict_simps \<open>rewrite rules of dictionaries\<close>

fun bindE :: "'a py \<Rightarrow> ('a \<Rightarrow> 'b py) \<Rightarrow> 'b py" where
  "bindE (Inl e) f = Inl e"
| "bindE (Inr a) f = f a"

lemma bindE_eq_Inr [py_simps]: "bindE m f = Inr b \<longleftrightarrow> (\<exists>a. m = Inr a \<and> f a = Inr b)"
  by (cases m) auto

lemma bindE_eq_Inl [py_simps]:
  "bindE m f = Inl e \<longleftrightarrow> m = Inl e \<or> (\<exists>a. m = Inr a \<and> f a = Inl e)"
  by (cases m) auto

lemma bindE_assoc [py_simps]: "bindE (bindE m f) g = bindE m (\<lambda>a. bindE (f a) g)"
  by (cases m) auto

lemma bindE_cong [fundef_cong]:
  "m = m' \<Longrightarrow> (\<And>a. m' = Inr a \<Longrightarrow> f a = f' a) \<Longrightarrow> bindE m f = bindE m' f'"
  by (cases m') auto

text \<open>Sequencing a list of fallible computations: the first error wins.\<close>

fun mapE :: "('a \<Rightarrow> 'b py) \<Rightarrow> 'a list \<Rightarrow> 'b list py" where
  "mapE f [] = Inr []"
| "mapE f (a # as) = bindE (f a) (\<lambda>b. bindE (mapE f as) (\<lambda>bs. Inr (b # bs)))"

lemma mapE_Inr: "(\<And>a. a \<in> set as \<Longrightarrow> f a = Inr (g a)) \<Longrightarrow> mapE f as = Inr (map g as)"
  by (induction as) auto

text \<open>A loop that updates a state and stops at the first error.\<close>

fun foldE :: "('a \<Rightarrow> 's \<Rightarrow> 's py) \<Rightarrow> 'a list \<Rightarrow> 's \<Rightarrow> 's py" where
  "foldE f [] s = Inr s"
| "foldE f (a # as) s = bindE (f a s) (foldE f as)"

lemma foldE_append: "foldE f (xs @ ys) s = bindE (foldE f xs s) (foldE f ys)"
proof (induction xs arbitrary: s)
  case (Cons a xs)
  then show ?case by (cases "f a s") simp_all
qed simp

lemma foldE_pure: "(\<And>a s. a \<in> set xs \<Longrightarrow> f a s = Inr (g a s)) \<Longrightarrow> foldE f xs s = Inr (fold g xs s)"
  by (induction xs arbitrary: s) auto

text \<open>An error of the loop is the error of one of its steps, and a success means every step succeeded.\<close>

lemma foldE_Inr_step: "foldE f xs s = Inr t \<Longrightarrow> a \<in> set xs \<Longrightarrow> \<exists>u v. f a u = Inr v"
  by (induction xs arbitrary: s) (auto simp: bindE_eq_Inr)

section \<open>Dictionaries\<close>

text \<open>
  A Python dictionary keeps its keys in insertion order: assigning an existing key keeps
  its place, a new key goes to the end, \<open>pop(k, None)\<close> removes the key if it is there.
  \<open>AList.update\<close> and \<open>AList.delete\<close> do exactly that.
\<close>

type_synonym ('k, 'v) dict = "('k \<times> 'v) list"

abbreviation dict_get :: "('k, 'v) dict \<Rightarrow> 'k \<Rightarrow> 'v option" where
  "dict_get d k \<equiv> map_of d k"

abbreviation dict_set :: "'k \<Rightarrow> 'v \<Rightarrow> ('k, 'v) dict \<Rightarrow> ('k, 'v) dict" where
  "dict_set \<equiv> AList.update"

abbreviation dict_pop :: "'k \<Rightarrow> ('k, 'v) dict \<Rightarrow> ('k, 'v) dict" where
  "dict_pop \<equiv> AList.delete"

abbreviation keys :: "('k, 'v) dict \<Rightarrow> 'k list" where
  "keys d \<equiv> map fst d"

abbreviation vals :: "('k, 'v) dict \<Rightarrow> 'v list" where
  "vals d \<equiv> map snd d"

definition map_vals :: "('v \<Rightarrow> 'w) \<Rightarrow> ('k, 'v) dict \<Rightarrow> ('k, 'w) dict" where
  "map_vals f d = map (\<lambda>(k, v). (k, f v)) d"

lemma keys_map_vals [simp]: "keys (map_vals f d) = keys d"
  by (induction d) (auto simp: map_vals_def)

lemma vals_map_vals [simp]: "vals (map_vals f d) = map f (vals d)"
  by (induction d) (auto simp: map_vals_def)

lemma length_map_vals [simp]: "length (map_vals f d) = length d"
  by (simp add: map_vals_def)

lemma get_map_vals [simp]: "dict_get (map_vals f d) k = map_option f (dict_get d k)"
  by (induction d) (auto simp: map_vals_def)

lemma set_map_vals: "set (map_vals f d) = (\<lambda>(k, v). (k, f v)) ` set d"
  by (auto simp: map_vals_def)

lemma keys_dict_set [dict_simps]:
  "keys (dict_set k v d) = (if k \<in> set (keys d) then keys d else keys d @ [k])"
  by (induction d) auto

lemma keys_dict_pop [dict_simps]: "keys (dict_pop k d) = filter (\<lambda>j. j \<noteq> k) (keys d)"
  by (induction d) auto

lemma get_dict_set [dict_simps]: "dict_get (dict_set k v d) j = (if j = k then Some v else dict_get d j)"
  by (simp add: update_conv')

lemma get_dict_pop [dict_simps]: "dict_get (dict_pop k d) j = (if j = k then None else dict_get d j)"
  by (simp add: delete_conv')

lemma dict_set_new: "k \<notin> set (keys d) \<Longrightarrow> dict_set k v d = d @ [(k, v)]"
  by (induction d) auto

lemma in_set_dict_set: "(j, u) \<in> set (dict_set k v d) \<Longrightarrow> (j = k \<and> u = v) \<or> (j, u) \<in> set d"
  by (induction d) (auto split: if_splits)

lemma in_set_dict_pop: "(j, u) \<in> set (dict_pop k d) \<longleftrightarrow> j \<noteq> k \<and> (j, u) \<in> set d"
  by (induction d) auto

text \<open>A dictionary filled by assignments, and an entry of a \<open>defaultdict\<close> that is created on access.\<close>

definition dict_of :: "('k \<times> 'v) list \<Rightarrow> ('k, 'v) dict" where
  "dict_of kvs = fold (\<lambda>(k, v). dict_set k v) kvs []"

definition dd_at :: "'k \<Rightarrow> 'v \<Rightarrow> ('v \<Rightarrow> 'v) \<Rightarrow> ('k, 'v) dict \<Rightarrow> ('k, 'v) dict" where
  "dd_at k dflt f d = dict_set k (f (case dict_get d k of Some v \<Rightarrow> v | None \<Rightarrow> dflt)) d"

lemma fold_dict_set_new:
  "distinct (keys kvs) \<Longrightarrow> set (keys kvs) \<inter> set (keys d) = {} \<Longrightarrow> fold (\<lambda>(k, v). dict_set k v) kvs d = d @ kvs"
  by (induction kvs arbitrary: d) (auto simp: dict_set_new)

lemma dict_of_distinct: "distinct (keys kvs) \<Longrightarrow> dict_of kvs = kvs"
  by (simp add: dict_of_def fold_dict_set_new)

lemma get_fold_dict_set:
  "distinct (keys kvs) \<Longrightarrow>
    dict_get (fold (\<lambda>(k, v). dict_set k v) kvs d) k = (if k \<in> set (keys kvs) then dict_get kvs k else dict_get d k)"
  by (induction kvs arbitrary: d) (auto simp: dict_simps map_of_eq_None_iff)

lemma get_dict_of: "distinct (keys kvs) \<Longrightarrow> dict_get (dict_of kvs) k = dict_get kvs k"
  by (simp add: dict_of_distinct)

lemma get_dd_at [dict_simps]:
  "dict_get (dd_at k dflt f d) j =
    (if j = k then Some (f (case dict_get d k of Some v \<Rightarrow> v | None \<Rightarrow> dflt)) else dict_get d j)"
  by (simp add: dd_at_def dict_simps)

lemma keys_dd_at [dict_simps]: "keys (dd_at k dflt f d) = (if k \<in> set (keys d) then keys d else keys d @ [k])"
  by (simp add: dd_at_def dict_simps)

text \<open>
  What a component that owns a dictionary may rely on. The locale is the contract;
  \<open>alist\<close> below shows that the association lists keep it.
\<close>

locale py_dict =
  fixes get :: "'d \<Rightarrow> 'k \<Rightarrow> 'v option"
    and put :: "'k \<Rightarrow> 'v \<Rightarrow> 'd \<Rightarrow> 'd"
    and pop :: "'k \<Rightarrow> 'd \<Rightarrow> 'd"
    and dkeys :: "'d \<Rightarrow> 'k list"
  assumes get_put: "get (put k v d) j = (if j = k then Some v else get d j)"
    and get_pop: "get (pop k d) j = (if j = k then None else get d j)"
    and keys_put: "dkeys (put k v d) = (if k \<in> set (dkeys d) then dkeys d else dkeys d @ [k])"
    and keys_pop: "dkeys (pop k d) = filter (\<lambda>j. j \<noteq> k) (dkeys d)"
    and keys_get: "k \<in> set (dkeys d) \<longleftrightarrow> get d k \<noteq> None"
begin

lemma distinct_put: "distinct (dkeys d) \<Longrightarrow> distinct (dkeys (put k v d))"
  by (simp add: keys_put)

lemma distinct_pop: "distinct (dkeys d) \<Longrightarrow> distinct (dkeys (pop k d))"
  by (simp add: keys_pop)

lemma pop_put_fresh: "k \<notin> set (dkeys d) \<Longrightarrow> dkeys (pop k (put k v d)) = dkeys d"
  by (simp add: keys_put keys_pop) (metis (mono_tags, lifting) filter_True)

lemma size_put_fresh: "k \<notin> set (dkeys d) \<Longrightarrow> length (dkeys (put k v d)) = Suc (length (dkeys d))"
  by (simp add: keys_put)

end

text \<open>
  Two dictionaries that are always updated under the same key stay in lock step, in
  content and in order: the room relies on this for its players and its connections.
\<close>

locale dict_pair =
  a: py_dict get1 put1 pop1 dkeys1 + b: py_dict get2 put2 pop2 dkeys2
  for get1 :: "'d \<Rightarrow> 'k \<Rightarrow> 'v option" and put1 pop1 dkeys1
    and get2 :: "'e \<Rightarrow> 'k \<Rightarrow> 'w option" and put2 pop2 dkeys2
begin

lemma lockstep_put: "dkeys1 d = dkeys2 e \<Longrightarrow> dkeys1 (put1 k v d) = dkeys2 (put2 k w e)"
  by (simp add: a.keys_put b.keys_put)

lemma lockstep_pop: "dkeys1 d = dkeys2 e \<Longrightarrow> dkeys1 (pop1 k d) = dkeys2 (pop2 k e)"
  by (simp add: a.keys_pop b.keys_pop)

lemma lockstep_get: "dkeys1 d = dkeys2 e \<Longrightarrow> get1 d k = None \<longleftrightarrow> get2 e k = None"
  using a.keys_get b.keys_get by metis

end

interpretation alist: py_dict "map_of :: ('k, 'v) dict \<Rightarrow> _" AList.update AList.delete keys
  by unfold_locales (auto simp: dict_simps map_of_eq_None_iff)

interpretation alist_pair: dict_pair
  "map_of :: ('k, 'v) dict \<Rightarrow> _" AList.update AList.delete keys
  "map_of :: ('k, 'w) dict \<Rightarrow> _" AList.update AList.delete keys
  by unfold_locales

section \<open>Objects on a heap\<close>

text \<open>
  A method of an object keeps the object well-formed and does not change its key. Applied
  to one address of a heap it keeps every object well-formed and every key in place.
\<close>

locale stable_op =
  fixes ok :: "'o \<Rightarrow> bool" and key :: "'o \<Rightarrow> 'k" and method_of :: "'o \<Rightarrow> 'o"
  assumes ok_op: "ok a \<Longrightarrow> ok (method_of a)"
    and key_op: "key (method_of a) = key a"
begin

lemma heap_ok: "\<forall>a \<in> set h. ok a \<Longrightarrow> \<forall>a \<in> set (h[i := method_of (h ! i)]). ok a"
proof (cases "i < length h")
  case True
  then have "h ! i \<in> set h" by simp
  moreover assume "\<forall>a \<in> set h. ok a"
  ultimately show ?thesis using set_update_subset_insert [of h i "method_of (h ! i)"] ok_op by blast
qed (simp add: not_less list_update_beyond)

lemma heap_keys: "map key (h[i := method_of (h ! i)]) = map key h"
  by (cases "i < length h") (simp_all add: map_update key_op list_update_same_conv not_less list_update_beyond)

end

section \<open>Integers masked to a width\<close>

lemma and_mask32: "(n :: int) AND 0xFFFFFFFF = n mod 2 ^ 32"
proof -
  have "take_bit 32 n = n AND mask 32" by (rule take_bit_eq_mask)
  then show ?thesis by (simp add: take_bit_eq_mod mask_eq_exp_minus_1)
qed

section \<open>Lists\<close>

lemma take_append_drop_mid:
  "off \<le> length xs \<Longrightarrow> take off (take off xs @ ys) = take off xs"
  by simp

lemma sum_list_le_bound: "(\<And>a. a \<in> set as \<Longrightarrow> f a \<le> (b :: nat)) \<Longrightarrow> sum_list (map f as) \<le> length as * b"
  by (induction as) (auto simp: add_le_mono)

lemma nth_update_at: "j < length xs \<Longrightarrow> xs[i := x] ! j = (if i = j then x else xs ! j)"
  by (cases "i = j") auto

end
