(* ===== verification/PyStr.thy ===== *)
theory PyStr
  imports Prelude
begin

text \<open>
  The string operations of Python the runner and the server's command line use: \<open>split\<close>
  with and without a separator, \<open>join\<close>, \<open>strip\<close>, \<open>rfind\<close>, \<open>isdigit\<close>, \<open>splitlines\<close>,
  \<open>int(s)\<close>, \<open>str(n)\<close> and the functions of \<open>os.path\<close>. Characters are HOL's 8-bit characters, read as
  Latin-1; the limit of 4300 digits of \<open>int\<close> is not modelled.
\<close>

section \<open>Characters\<close>

abbreviation ord :: "char \<Rightarrow> nat" where
  "ord c \<equiv> of_char c"

definition is_space :: "char \<Rightarrow> bool" where
  "is_space c \<longleftrightarrow> ord c \<in> {9, 10, 11, 12, 13, 28, 29, 30, 31, 32, 133, 160}"

definition is_decimal :: "char \<Rightarrow> bool" where
  "is_decimal c \<longleftrightarrow> 48 \<le> ord c \<and> ord c \<le> 57"

text \<open>\<open>str.isdigit\<close> also holds of the superscripts 2, 3 and 1, which \<open>int\<close> refuses.\<close>

definition isdigit :: "string \<Rightarrow> bool" where
  "isdigit s \<longleftrightarrow> s \<noteq> [] \<and> list_all (\<lambda>c. is_decimal c \<or> ord c \<in> {178, 179, 185}) s"

definition is_linebreak :: "char \<Rightarrow> bool" where
  "is_linebreak c \<longleftrightarrow> ord c \<in> {10, 11, 12, 13, 28, 29, 30, 133}"

section \<open>Splitting and joining\<close>

fun split_on :: "char \<Rightarrow> string \<Rightarrow> string list" where
  "split_on c [] = [[]]"
| "split_on c (x # xs) =
     (if x = c then [] # split_on c xs
      else (case split_on c xs of [] \<Rightarrow> [[x]] | y # ys \<Rightarrow> (x # y) # ys))"

fun join :: "string \<Rightarrow> string list \<Rightarrow> string" where
  "join sep [] = []"
| "join sep [x] = x"
| "join sep (x # y # ys) = x @ sep @ join sep (y # ys)"

function str_words :: "string \<Rightarrow> string list" where
  "str_words s =
     (let t = dropWhile is_space s
      in if t = [] then []
         else takeWhile (\<lambda>c. \<not> is_space c) t # str_words (dropWhile (\<lambda>c. \<not> is_space c) t))"
  by auto
termination
proof (relation "measure length")
  fix s t :: string
  assume t: "t = dropWhile is_space s" and "t \<noteq> []"
  then obtain c r where c: "t = c # r" "\<not> is_space c" by (metis hd_dropWhile list.collapse)
  have "length (dropWhile (\<lambda>c. \<not> is_space c) r) \<le> length r" by (rule length_dropWhile_le)
  then have "length (dropWhile (\<lambda>c. \<not> is_space c) t) < length t" using c by simp
  moreover have "length t \<le> length s" using t by (simp add: length_dropWhile_le)
  ultimately show "(dropWhile (\<lambda>c. \<not> is_space c) t, s) \<in> measure length" by simp
qed simp

declare str_words.simps [simp del]

definition strip :: "string \<Rightarrow> string" where
  "strip s = rev (dropWhile is_space (rev (dropWhile is_space s)))"

definition rfind :: "string \<Rightarrow> char \<Rightarrow> int" where
  "rfind s c = (if c \<in> set s then int (length s) - 1 - int (length (takeWhile (\<lambda>x. x \<noteq> c) (rev s))) else - 1)"

definition startswith :: "string \<Rightarrow> string \<Rightarrow> bool" where
  "startswith s p \<longleftrightarrow> take (length p) s = p"

definition str_slice_from :: "string \<Rightarrow> int \<Rightarrow> string" where
  "str_slice_from s k = (if k \<ge> 0 then drop (nat k) s else drop (nat (max 0 (int (length s) + k))) s)"

text \<open>The lines of a text file, each with its newline.\<close>

fun file_lines :: "string \<Rightarrow> string list" where
  "file_lines [] = []"
| "file_lines (c # cs) =
     (if ord c = 10 then [c] # file_lines cs
      else (case file_lines cs of [] \<Rightarrow> [[c]] | l # ls \<Rightarrow> (c # l) # ls))"

text \<open>\<open>splitlines\<close>: carriage return and newline together are one break, and a final break adds no line.\<close>

fun splitlines :: "string \<Rightarrow> string list" where
  "splitlines [] = []"
| "splitlines [c] = (if is_linebreak c then [[]] else [[c]])"
| "splitlines (c # d # s) =
     (if ord c = 13 \<and> ord d = 10 then [] # splitlines s
      else if is_linebreak c then [] # splitlines (d # s)
      else (case splitlines (d # s) of [] \<Rightarrow> [[c]] | l # ls \<Rightarrow> (c # l) # ls))"

definition path_join :: "string \<Rightarrow> string \<Rightarrow> string" where
  "path_join a b =
     (if startswith b ''/'' then b
      else if a = [] \<or> last a = CHR ''/'' then a @ b
      else a @ ''/'' @ b)"

text \<open>\<open>os.path.dirname\<close>: up to the last slash, trailing slashes dropped unless there is nothing else.\<close>

definition dirname :: "string \<Rightarrow> string" where
  "dirname p =
     (let head = take (nat (rfind p (CHR ''/'') + 1)) p;
          body = rev (dropWhile (\<lambda>c. c = CHR ''/'') (rev head))
      in if body = [] then head else body)"

text \<open>\<open>os.path.basename\<close>.\<close>

definition basename :: "string \<Rightarrow> string" where
  "basename p = drop (nat (rfind p (CHR ''/'') + 1)) p"

text \<open>
  \<open>os.path.normpath\<close> drops empty and \<open>.\<close> components and resolves \<open>..\<close> where it can; exactly
  two leading slashes are kept. \<open>os.path.abspath\<close> is relative to the working directory.
\<close>

definition norm_step :: "bool \<Rightarrow> string \<Rightarrow> string list \<Rightarrow> string list" where
  "norm_step rooted piece acc =
     (if piece = [] \<or> piece = ''.'' then acc
      else if piece \<noteq> ''..'' \<or> (\<not> rooted \<and> acc = []) \<or> (acc \<noteq> [] \<and> last acc = ''..'') then acc @ [piece]
      else butlast acc)"

definition normpath :: "string \<Rightarrow> string" where
  "normpath p =
     (if p = [] then ''.''
      else
        (let slashes = (if \<not> startswith p ''/'' then 0
                        else if startswith p ''//'' \<and> \<not> startswith p ''///'' then 2 else 1 :: nat);
             path = replicate slashes (CHR ''/'') @
               join ''/'' (fold (norm_step (slashes \<noteq> 0)) (split_on (CHR ''/'') p) [])
         in if path = [] then ''.'' else path))"

definition abspath :: "string \<Rightarrow> string \<Rightarrow> string" where
  "abspath cwd p = normpath (path_join cwd p)"

section \<open>Numbers\<close>

definition digit_val :: "char \<Rightarrow> int" where
  "digit_val c = int (ord c) - 48"

fun digits_val :: "int \<Rightarrow> string \<Rightarrow> int option" where
  "digits_val acc [] = Some acc"
| "digits_val acc (c # cs) =
     (if is_decimal c then digits_val (acc * 10 + digit_val c) cs
      else if c = CHR ''_'' then
        (case cs of
           [] \<Rightarrow> None
         | d # ds \<Rightarrow> if is_decimal d then digits_val (acc * 10 + digit_val d) ds else None)
      else None)"

definition nat_literal :: "string \<Rightarrow> int option" where
  "nat_literal s = (if s \<noteq> [] \<and> is_decimal (hd s) then digits_val 0 s else None)"

definition py_int :: "string \<Rightarrow> int py" where
  "py_int s =
     (let t = strip s;
          v = (case t of
                 [] \<Rightarrow> None
               | c # r \<Rightarrow>
                   if c = CHR ''-'' then map_option uminus (nat_literal r)
                   else if c = CHR ''+'' then nat_literal r
                   else nat_literal t)
      in case v of None \<Rightarrow> Inl ValueError | Some n \<Rightarrow> Inr n)"

definition digit_char :: "nat \<Rightarrow> char" where
  "digit_char d = char_of (48 + d)"

fun nat_digits :: "nat \<Rightarrow> string" where
  "nat_digits n = (if n < 10 then [digit_char n] else nat_digits (n div 10) @ [digit_char (n mod 10)])"

declare nat_digits.simps [simp del]

definition py_str :: "int \<Rightarrow> string" where
  "py_str n = (if n < 0 then ''-'' @ nat_digits (nat (- n)) else nat_digits (nat n))"

section \<open>Round trips\<close>

lemma digit_chars:
  "digit_char 0 = CHR ''0''" "digit_char (Suc 0) = CHR ''1''" "digit_char 1 = CHR ''1''" "digit_char 2 = CHR ''2''"
  "digit_char 3 = CHR ''3''" "digit_char 4 = CHR ''4''" "digit_char 5 = CHR ''5''" "digit_char 6 = CHR ''6''"
  "digit_char 7 = CHR ''7''" "digit_char 8 = CHR ''8''" "digit_char 9 = CHR ''9''"
  by (simp_all add: digit_char_def char_of_def bit_0)

lemmas str_eval = py_str_def nat_digits.simps digit_chars

lemmas int_eval = py_int_def strip_def is_space_def nat_literal_def is_decimal_def digit_val_def

lemma digit_char_decimal: "d < 10 \<Longrightarrow> is_decimal (digit_char d) \<and> digit_val (digit_char d) = int d"
  by (simp add: is_decimal_def digit_char_def digit_val_def)

lemma decimal_plain:
  "is_decimal c \<Longrightarrow> \<not> is_space c \<and> c \<noteq> CHR '','' \<and> c \<noteq> CHR ''-'' \<and> c \<noteq> CHR ''+'' \<and> c \<noteq> CHR '':'' \<and> c \<noteq> CHR '')''"
  by (auto simp: is_decimal_def is_space_def)

lemma nat_digits_decimal: "list_all is_decimal (nat_digits n) \<and> nat_digits n \<noteq> []"
proof (induction n rule: nat_digits.induct)
  case (1 n)
  then show ?case using digit_char_decimal [of n] digit_char_decimal [of "n mod 10"]
    by (subst (1 2) nat_digits.simps) auto
qed

lemma digits_val_append:
  "list_all is_decimal xs \<Longrightarrow> digits_val acc (xs @ ys) = digits_val (foldl (\<lambda>a c. a * 10 + digit_val c) acc xs) ys"
  by (induction xs arbitrary: acc) auto

lemma foldl_nat_digits: "foldl (\<lambda>a c. a * 10 + digit_val c) 0 (nat_digits n) = int n"
proof (induction n rule: nat_digits.induct)
  case (1 n)
  show ?case
  proof (cases "n < 10")
    case False
    have "int (n div 10) * 10 + int (n mod 10) = int n" by presburger
    then show ?thesis using False 1 digit_char_decimal [of "n mod 10"] by (subst nat_digits.simps) simp
  qed (use digit_char_decimal in \<open>subst nat_digits.simps, simp\<close>)
qed

lemma nat_literal_digits: "nat_literal (nat_digits n) = Some (int n)"
  using nat_digits_decimal [of n] digits_val_append [of "nat_digits n" 0 "[]"] foldl_nat_digits [of n]
  by (cases "nat_digits n") (auto simp: nat_literal_def)

lemma strip_plain: "s \<noteq> [] \<Longrightarrow> \<not> is_space (hd s) \<Longrightarrow> \<not> is_space (last s) \<Longrightarrow> strip s = s"
proof -
  assume s: "s \<noteq> []" "\<not> is_space (hd s)" "\<not> is_space (last s)"
  then have "dropWhile is_space s = s" by (cases s) auto
  moreover have "dropWhile is_space (rev s) = rev s" using s by (cases s rule: rev_cases) auto
  ultimately show ?thesis by (simp add: strip_def)
qed

lemma py_str_shape:
  "0 \<le> n \<Longrightarrow> list_all is_decimal (py_str n) \<and> py_str n \<noteq> []"
  using nat_digits_decimal by (simp add: py_str_def)

lemma strip_decimal: "list_all is_decimal s \<Longrightarrow> s \<noteq> [] \<Longrightarrow> strip s = s"
  by (rule strip_plain) (auto simp: list_all_iff decimal_plain)

lemma int_of_str: "py_int (py_str n) = Inr n"
proof (cases "n < 0")
  case True
  have ds: "list_all is_decimal (nat_digits (nat (- n)))" "nat_digits (nat (- n)) \<noteq> []"
    using nat_digits_decimal by auto
  then have "\<not> is_space (last (nat_digits (nat (- n))))" by (auto simp: list_all_iff decimal_plain)
  then have "strip (py_str n) = py_str n" using True ds
    by (intro strip_plain) (auto simp: py_str_def is_space_def)
  then show ?thesis using True by (simp add: py_int_def py_str_def nat_literal_digits)
next
  case False
  then have "strip (py_str n) = py_str n" using strip_decimal py_str_shape by simp
  moreover obtain c r where c: "py_str n = c # r" "is_decimal c"
    using False py_str_shape [of n] by (cases "py_str n") auto
  moreover have "nat_literal (c # r) = Some n" using False c nat_literal_digits [of "nat n"] by (simp add: py_str_def)
  ultimately show ?thesis using decimal_plain [of c] by (simp add: py_int_def)
qed

lemma split_on_free: "c \<notin> set s \<Longrightarrow> split_on c s = [s]"
  by (induction s) auto

lemma split_on_snoc: "c \<notin> set a \<Longrightarrow> split_on c (a @ c # b) = a # split_on c b"
  by (induction a) auto

lemma split_join: "xs \<noteq> [] \<Longrightarrow> \<forall>x \<in> set xs. c \<notin> set x \<Longrightarrow> split_on c (join [c] xs) = xs"
  by (induction "[c]" xs rule: join.induct) (auto simp: split_on_free split_on_snoc)

lemma split_on_nonempty: "split_on c s \<noteq> []"
  by (induction s) (auto split: list.split)

lemma join_split: "join [c] (split_on c s) = s"
proof (induction s)
  case (Cons x s)
  obtain y ys where y: "split_on c s = y # ys" using split_on_nonempty [of c s] by (cases "split_on c s") auto
  then show ?case using Cons by (cases ys) auto
qed simp

lemma rfind_last: "c \<notin> set b \<Longrightarrow> rfind (a @ c # b) c = int (length a)"
proof -
  assume "c \<notin> set b"
  then have "takeWhile (\<lambda>x. x \<noteq> c) (rev b @ c # rev a) = rev b" by (induction b rule: rev_induct) auto
  then show ?thesis by (simp add: rfind_def)
qed

lemma str_words_blank: "list_all is_space s \<Longrightarrow> str_words s = []"
  by (subst str_words.simps) (simp add: list_all_iff)

lemma str_words_snoc:
  assumes "list_all (\<lambda>c. \<not> is_space c) f" and "f \<noteq> []" and "rest = [] \<or> is_space (hd rest)"
  shows "str_words (f @ rest) = f # str_words rest"
proof -
  have d: "dropWhile is_space (f @ rest) = f @ rest" using assms(1,2) by (cases f) auto
  have "takeWhile (\<lambda>c. \<not> is_space c) (f @ rest) = f \<and> dropWhile (\<lambda>c. \<not> is_space c) (f @ rest) = rest"
    using assms(1,3) by (induction f) (cases rest, auto)
  then show ?thesis using d assms(2) by (subst str_words.simps) simp
qed

lemma str_words_space: "is_space c \<Longrightarrow> str_words (c # s) = str_words s"
  by (subst (1 2) str_words.simps) simp

lemma words_join:
  assumes "\<forall>f \<in> set fs. f \<noteq> [] \<and> list_all (\<lambda>c. \<not> is_space c) f" and "list_all is_space ws"
  shows "str_words (join '' '' fs @ ws) = fs"
  using assms(1)
proof (induction "'' ''" fs rule: join.induct)
  case 1
  then show ?case using assms(2) by (simp add: str_words_blank)
next
  case (2 x)
  then show ?case using assms(2) str_words_snoc [of x ws] by (cases ws) (auto simp: str_words_blank)
next
  case (3 x y ys)
  have "is_space (CHR '' '')" by (simp add: is_space_def)
  then show ?case using 3 str_words_snoc [of x "CHR '' '' # join '' '' (y # ys) @ ws"] by (simp add: str_words_space)
qed

end
