(* ===== verification/Struct.thy ===== *)
theory Struct
  imports Prelude
begin

text \<open>
  The part of Python's \<open>struct\<close> module the game server uses: big-endian formats made of
  the field codes \<open>I\<close> (u32), \<open>H\<close> (u16), \<open>h\<close> (i16) and \<open>i\<close> (i32), with
  \<open>pack\<close>, \<open>unpack\<close>, \<open>pack_into\<close> and \<open>unpack_from\<close>. A value outside a
  field's range, or a buffer that is too short, raises \<open>struct.error\<close>. One field is a
  fixed-width codec (locale \<open>field_codec\<close>); a format composes the codecs of its fields.
\<close>

type_synonym byte = "8 word"
type_synonym bytes = "byte list"

section \<open>Big-endian digits\<close>

fun be_bytes :: "nat \<Rightarrow> int \<Rightarrow> bytes" where
  "be_bytes 0 n = []"
| "be_bytes (Suc w) n = be_bytes w (n div 256) @ [word_of_int n]"

fun be_val :: "bytes \<Rightarrow> int" where
  "be_val [] = 0"
| "be_val (b # bs) = uint b * 256 ^ length bs + be_val bs"

lemma be_bytes_numeral:
  "be_bytes (numeral k) n = be_bytes (pred_numeral k) (n div 256) @ [word_of_int n]"
  by (simp add: numeral_eq_Suc)

lemma length_be_bytes [simp]: "length (be_bytes w n) = w"
  by (induction w arbitrary: n) auto

lemma be_val_snoc [simp]: "be_val (bs @ [b]) = be_val bs * 256 + uint b"
  by (induction bs) (auto simp: algebra_simps)

lemma uint_byte: "0 \<le> uint (b :: byte)" "uint (b :: byte) < 256"
  using uint_lt2p [of b] by auto

lemma uint_byte_of_int [simp]: "uint (word_of_int n :: byte) = n mod 256"
  by (simp add: uint_word_of_int)

lemma be_val_be_bytes: "be_val (be_bytes w n) = n mod 256 ^ w"
proof (induction w arbitrary: n)
  case (Suc w)
  have "(n div 256) mod 256 ^ w * 256 + n mod 256 = n mod (256 * 256 ^ w)"
    by (simp add: zmod_zmult2_eq)
  with Suc show ?case by simp
qed simp

lemma be_val_bounds: "0 \<le> be_val bs" "be_val bs < 256 ^ length bs"
proof (induction bs)
  case (Cons b bs)
  have "uint b * 256 ^ length bs + be_val bs < (uint b + 1) * 256 ^ length bs"
    using Cons by (simp add: algebra_simps)
  also have "\<dots> \<le> 256 * 256 ^ length bs"
    using uint_byte [of b] by (intro mult_right_mono) auto
  finally show "be_val (b # bs) < 256 ^ length (b # bs)" by simp
  show "0 \<le> be_val (b # bs)" using Cons by simp
qed simp_all

lemma be_bytes_be_val: "be_bytes (length bs) (be_val bs) = bs"
proof (induction bs rule: rev_induct)
  case (snoc b bs)
  have "(be_val bs * 256 + uint b) div 256 = be_val bs"
    using uint_byte [of b] by (simp add: div_add1_eq)
  moreover have "(word_of_int (be_val bs * 256 + uint b) :: byte) = b"
  proof (rule word_uint_eqI)
    show "uint (word_of_int (be_val bs * 256 + uint b) :: byte) = uint b"
      unfolding uint_byte_of_int using uint_byte [of b] by simp
  qed
  ultimately show ?case using snoc by simp
qed simp

lemma be_bytes_mod: "be_bytes w (n mod 256 ^ w) = be_bytes w n"
  by (metis be_bytes_be_val be_val_be_bytes length_be_bytes)

section \<open>Field codes\<close>

datatype field = FI | FH | Fh | Fi

fun fsize :: "field \<Rightarrow> nat" where
  "fsize FI = 4" | "fsize FH = 2" | "fsize Fh = 2" | "fsize Fi = 4"

fun flo :: "field \<Rightarrow> int" where
  "flo FI = 0" | "flo FH = 0" | "flo Fh = - (2 ^ 15)" | "flo Fi = - (2 ^ 31)"

fun fhi :: "field \<Rightarrow> int" where
  "fhi FI = 2 ^ 32 - 1" | "fhi FH = 2 ^ 16 - 1" | "fhi Fh = 2 ^ 15 - 1" | "fhi Fi = 2 ^ 31 - 1"

definition in_range :: "field \<Rightarrow> int \<Rightarrow> bool" where
  "in_range f n \<longleftrightarrow> flo f \<le> n \<and> n \<le> fhi f"

definition pack_field :: "field \<Rightarrow> int \<Rightarrow> bytes py" where
  "pack_field f n = (if in_range f n then Inr (be_bytes (fsize f) n) else Inl StructError)"

definition unpack_field :: "field \<Rightarrow> bytes \<Rightarrow> int" where
  "unpack_field f bs = (let u = be_val bs in if u > fhi f then u - 256 ^ fsize f else u)"

text \<open>The contract of one field of a format: a range, a width, and two inverse maps.\<close>

locale field_codec =
  fixes pack1 :: "int \<Rightarrow> bytes py"
    and unpack1 :: "bytes \<Rightarrow> int"
    and width :: nat
    and ok :: "int \<Rightarrow> bool"
  assumes pack1_ok: "ok n \<Longrightarrow> \<exists>bs. pack1 n = Inr bs \<and> length bs = width \<and> unpack1 bs = n"
    and pack1_bad: "\<not> ok n \<Longrightarrow> pack1 n = Inl StructError"
    and unpack1_ok: "length bs = width \<Longrightarrow> ok (unpack1 bs)"
    and pack1_unpack1: "length bs = width \<Longrightarrow> pack1 (unpack1 bs) = Inr bs"
begin

lemma pack1_iff: "pack1 n = Inr bs \<longleftrightarrow> length bs = width \<and> unpack1 bs = n"
  using pack1_ok pack1_bad pack1_unpack1 by (metis Inl_Inr_False Inr_inject)

lemma pack1_total: "(\<exists>bs. pack1 n = Inr bs) \<longleftrightarrow> ok n"
  using pack1_ok pack1_bad by fastforce

lemma pack1_inj: "pack1 n = Inr bs \<Longrightarrow> pack1 m = Inr bs \<Longrightarrow> n = m"
  by (simp add: pack1_iff)

lemma pack1_length: "pack1 n = Inr bs \<Longrightarrow> length bs = width"
  by (simp add: pack1_iff)

end

lemma unpack_field_range: "length bs \<le> fsize f \<Longrightarrow> in_range f (unpack_field f bs)"
proof -
  assume "length bs \<le> fsize f"
  then have "(256 :: int) ^ length bs \<le> 256 ^ fsize f" by (intro power_increasing) auto
  then have "0 \<le> be_val bs" and "be_val bs < 256 ^ fsize f"
    using be_val_bounds [of bs] by (auto intro: less_le_trans)
  then show ?thesis by (cases f) (auto simp: in_range_def unpack_field_def Let_def)
qed

lemma signed_mod:
  fixes n h :: int
  assumes "- h \<le> n" and "n < h"
  shows "(if n mod (2 * h) > h - 1 then n mod (2 * h) - 2 * h else n mod (2 * h)) = n"
proof (cases "n < 0")
  case True
  have "n mod (2 * h) = (n + 2 * h) mod (2 * h)" by simp
  also have "\<dots> = n + 2 * h" using True assms by (intro mod_pos_pos_trivial) auto
  finally show ?thesis using assms True by simp
next
  case False
  then have "n mod (2 * h) = n" using assms by (intro mod_pos_pos_trivial) auto
  then show ?thesis using assms by simp
qed

lemma unpack_field_be_bytes: "in_range f n \<Longrightarrow> unpack_field f (be_bytes (fsize f) n) = n"
  using signed_mod [of "2 ^ 15" n] signed_mod [of "2 ^ 31" n]
  by (cases f) (auto simp: in_range_def unpack_field_def Let_def be_val_be_bytes)

lemma pack_unpack_field: "length bs = fsize f \<Longrightarrow> pack_field f (unpack_field f bs) = Inr bs"
proof -
  assume len: "length bs = fsize f"
  have "be_bytes (fsize f) (unpack_field f bs) = be_bytes (fsize f) (unpack_field f bs mod 256 ^ fsize f)"
    by (simp add: be_bytes_mod)
  also have "unpack_field f bs mod 256 ^ fsize f = be_val bs mod 256 ^ fsize f"
    by (simp add: unpack_field_def Let_def)
  also have "be_bytes (fsize f) (be_val bs mod 256 ^ fsize f) = bs"
    by (metis len be_bytes_be_val be_bytes_mod)
  finally show ?thesis using unpack_field_range [of bs f] len by (simp add: pack_field_def)
qed

interpretation fld: field_codec "pack_field f" "unpack_field f" "fsize f" "in_range f" for f
  by unfold_locales
    (auto simp: unpack_field_range pack_unpack_field, auto simp: pack_field_def unpack_field_be_bytes)

section \<open>Formats\<close>

fun calcsize :: "field list \<Rightarrow> nat" where
  "calcsize [] = 0"
| "calcsize (f # fs) = fsize f + calcsize fs"

fun pack :: "field list \<Rightarrow> int list \<Rightarrow> bytes py" where
  "pack [] [] = Inr []"
| "pack (f # fs) (n # ns) = bindE (pack_field f n) (\<lambda>b. bindE (pack fs ns) (\<lambda>bs. Inr (b @ bs)))"
| "pack _ _ = Inl StructError"

fun unpack_all :: "field list \<Rightarrow> bytes \<Rightarrow> int list" where
  "unpack_all [] bs = []"
| "unpack_all (f # fs) bs = unpack_field f (take (fsize f) bs) # unpack_all fs (drop (fsize f) bs)"

definition unpack :: "field list \<Rightarrow> bytes \<Rightarrow> int list py" where
  "unpack fs bs = (if length bs = calcsize fs then Inr (unpack_all fs bs) else Inl StructError)"

definition unpack_from :: "field list \<Rightarrow> bytes \<Rightarrow> nat \<Rightarrow> int list py" where
  "unpack_from fs buf off =
     (if off + calcsize fs \<le> length buf then Inr (unpack_all fs (drop off buf)) else Inl StructError)"

definition pack_into :: "field list \<Rightarrow> bytes \<Rightarrow> nat \<Rightarrow> int list \<Rightarrow> bytes py" where
  "pack_into fs buf off ns =
     (if off + calcsize fs \<le> length buf
      then bindE (pack fs ns) (\<lambda>bs. Inr (take off buf @ bs @ drop (off + length bs) buf))
      else Inl StructError)"

definition fits :: "field list \<Rightarrow> int list \<Rightarrow> bool" where
  "fits fs ns \<longleftrightarrow> list_all2 in_range fs ns"

fun enc :: "field list \<Rightarrow> int list \<Rightarrow> bytes" where
  "enc (f # fs) (n # ns) = be_bytes (fsize f) n @ enc fs ns"
| "enc _ _ = []"

lemma pack_eq: "pack fs ns = (if fits fs ns then Inr (enc fs ns) else Inl StructError)"
  by (induction fs ns rule: pack.induct) (auto simp: fits_def pack_field_def)

lemma length_enc [simp]: "fits fs ns \<Longrightarrow> length (enc fs ns) = calcsize fs"
  by (induction fs ns rule: enc.induct) (auto simp: fits_def)

lemma unpack_all_enc: "fits fs ns \<Longrightarrow> unpack_all fs (enc fs ns @ rest) = ns"
  by (induction fs ns rule: enc.induct) (auto simp: fits_def unpack_field_be_bytes)

lemma fits_unpack_all: "fits fs (unpack_all fs bs)"
  by (induction fs bs rule: unpack_all.induct) (auto simp: fits_def unpack_field_range)

lemma enc_unpack_all: "calcsize fs \<le> length bs \<Longrightarrow> enc fs (unpack_all fs bs) = take (calcsize fs) bs"
proof (induction fs bs rule: unpack_all.induct)
  case (2 f fs bs)
  have "pack_field f (unpack_field f (take (fsize f) bs)) = Inr (take (fsize f) bs)"
    using 2(2) by (intro pack_unpack_field) simp
  with 2 show ?case by (simp add: pack_field_def take_add split: if_splits)
qed simp

lemma length_unpack_all [simp]: "length (unpack_all fs bs) = length fs"
  by (induction fs bs rule: unpack_all.induct) auto

text \<open>The two directions of the wire format of a whole \<open>struct\<close> format.\<close>

theorem unpack_pack:
  assumes "pack fs ns = Inr bs"
  shows "unpack fs bs = Inr ns"
proof -
  from assms have fit: "fits fs ns" and bs: "bs = enc fs ns"
    by (auto simp: pack_eq split: if_splits)
  show ?thesis using fit unpack_all_enc [of fs ns "[]"] by (simp add: bs unpack_def)
qed

theorem pack_unpack:
  assumes "unpack fs bs = Inr ns"
  shows "pack fs ns = Inr bs"
proof -
  from assms have len: "length bs = calcsize fs" and ns: "ns = unpack_all fs bs"
    by (auto simp: unpack_def split: if_splits)
  show ?thesis using len fits_unpack_all [of fs bs] enc_unpack_all [of fs bs] by (simp add: pack_eq ns)
qed

lemma pack_into_ok:
  "fits fs ns \<Longrightarrow> off + calcsize fs \<le> length buf \<Longrightarrow>
   pack_into fs buf off ns = Inr (take off buf @ enc fs ns @ drop (off + calcsize fs) buf)"
  by (simp add: pack_into_def pack_eq)

lemma pack_into_bad: "\<not> fits fs ns \<Longrightarrow> pack_into fs buf off ns = Inl StructError"
  by (simp add: pack_into_def pack_eq)

lemma unpack_from_enc:
  "fits fs ns \<Longrightarrow> unpack_from fs (pre @ enc fs ns @ rest) (length pre) = Inr ns"
  by (simp add: unpack_from_def unpack_all_enc)

lemma unpack_from_range: "unpack_from fs buf off = Inr ns \<Longrightarrow> fits fs ns"
  by (auto simp: unpack_from_def split: if_splits intro!: fits_unpack_all)

end
