(* ===== verification/Transport.thy ===== *)
theory Transport
  imports Struct
begin

text \<open>
  The connection as the server sees it: the frames of the wire protocol
  (\<open>u32\<close> big-endian length, then the payload) and the \<open>StreamWriter\<close> of asyncio. A write
  on a healthy transport appends to what the peer will receive, on a lost or closed one
  it is dropped silently, and on a broken one it raises.
\<close>

section \<open>Frames\<close>

definition frame :: "bytes \<Rightarrow> bytes" where
  "frame p = be_bytes 4 (int (length p)) @ p"

definition MAX_FRAME :: nat where
  "MAX_FRAME = 1048576"

definition payload_ok :: "bytes \<Rightarrow> bool" where
  "payload_ok p \<longleftrightarrow> p \<noteq> [] \<and> length p \<le> MAX_FRAME"

text \<open>A byte stream that consists of whole, acceptable frames.\<close>

definition framed :: "bytes \<Rightarrow> bool" where
  "framed s \<longleftrightarrow> (\<exists>ps. s = concat (map frame ps) \<and> (\<forall>p \<in> set ps. payload_ok p))"

lemma framed_Nil [simp]: "framed []"
  unfolding framed_def by (rule exI [of _ "[]"]) simp

lemma framed_snoc: "framed s \<Longrightarrow> payload_ok p \<Longrightarrow> framed (s @ frame p)"
proof -
  assume "framed s" and p: "payload_ok p"
  then obtain ps where "s = concat (map frame ps)" "\<forall>p \<in> set ps. payload_ok p"
    by (auto simp: framed_def)
  with p have "s @ frame p = concat (map frame (ps @ [p]))" "\<forall>q \<in> set (ps @ [p]). payload_ok q"
    by auto
  then show ?thesis unfolding framed_def by blast
qed

lemma length_frame [simp]: "length (frame p) = 4 + length p"
  by (simp add: frame_def)

lemma payload_ok_length: "payload_ok p \<Longrightarrow> 0 < length p \<and> length p \<le> 1048576"
  by (cases p) (auto simp: payload_ok_def MAX_FRAME_def)

lemma pack_length_prefix: "payload_ok p \<Longrightarrow> bindE (pack [FI] [int (length p)]) (\<lambda>h. Inr (h @ p)) = Inr (frame p)"
  using payload_ok_length [of p] by (auto simp: pack_eq fits_def in_range_def frame_def)

lemma unpack_length_prefix:
  "length p \<le> 1048576 \<Longrightarrow> unpack [FI] (be_bytes 4 (int (length p))) = Inr [int (length p)]"
proof -
  assume "length p \<le> 1048576"
  then have "pack [FI] [int (length p)] = Inr (be_bytes 4 (int (length p)))"
    by (simp add: pack_eq fits_def in_range_def)
  then show ?thesis by (rule unpack_pack)
qed

section \<open>Writers\<close>

record writer =
  w_out :: bytes
  w_lost :: bool
  w_fail :: bool

definition new_writer :: writer where
  "new_writer = \<lparr>w_out = [], w_lost = False, w_fail = False\<rparr>"

definition w_write :: "bytes \<Rightarrow> writer \<Rightarrow> writer py" where
  "w_write bs w =
     (if w_fail w then Inl RuntimeError
      else if w_lost w then Inr w
      else Inr (w\<lparr>w_out := w_out w @ bs\<rparr>))"

definition w_close :: "writer \<Rightarrow> writer" where
  "w_close w = w\<lparr>w_lost := True\<rparr>"

abbreviation healthy :: "writer \<Rightarrow> bool" where
  "healthy w \<equiv> \<not> w_lost w \<and> \<not> w_fail w"

text \<open>What a user of a transport relies on, and what follows for every user of it.\<close>

locale transport =
  fixes wr :: "bytes \<Rightarrow> 'w \<Rightarrow> 'w py"
    and sent :: "'w \<Rightarrow> bytes"
    and up :: "'w \<Rightarrow> bool"
  assumes wr_all_or_nothing: "wr bs w = Inr w' \<Longrightarrow> sent w' = sent w \<or> sent w' = sent w @ bs"
    and wr_up: "up w \<Longrightarrow> \<exists>w'. wr bs w = Inr w' \<and> sent w' = sent w @ bs \<and> up w'"
begin

lemma wr_framed: "framed (sent w) \<Longrightarrow> payload_ok p \<Longrightarrow> wr (frame p) w = Inr w' \<Longrightarrow> framed (sent w')"
  using wr_all_or_nothing framed_snoc by metis

lemma wr_keeps_prefix: "wr bs w = Inr w' \<Longrightarrow> take (length (sent w)) (sent w') = sent w"
  using wr_all_or_nothing by fastforce

end

interpretation asyncio: transport w_write w_out healthy
  by unfold_locales (auto simp: w_write_def split: if_splits)

end
