(* ===== verification/Room.thy ===== *)
theory Room
  imports Transport
begin

text \<open>
  The classes \<open>Player\<close> and \<open>Room\<close> of the Python server: the record of a player, the room
  with its two dictionaries (players and connections, both keyed by player id), and the
  operations \<open>join\<close>, \<open>move\<close>, \<open>leave\<close> and \<open>step\<close>. Python integers are unbounded, so the
  coordinates are \<open>int\<close>; the places where the code narrows them (the mask on the counters,
  the \<open>struct\<close> fields of the snapshot) are explicit. \<open>Room.run\<close> is in theory \<open>Pacing\<close>.
\<close>

section \<open>Data\<close>

definition MSG_JOIN :: byte where "MSG_JOIN = 0x01"
definition MSG_MOVE :: byte where "MSG_MOVE = 0x02"
definition MSG_JOINED :: byte where "MSG_JOINED = 0x81"
definition MSG_SNAPSHOT :: byte where "MSG_SNAPSHOT = 0x82"

lemmas msg_defs = MSG_JOIN_def MSG_MOVE_def MSG_JOINED_def MSG_SNAPSHOT_def

definition new_pid :: "int \<Rightarrow> int" where
  "new_pid n = (n + 1) AND 0xFFFFFFFF"

record player =
  p_id :: int
  p_x :: int
  p_y :: int
  p_vx :: int
  p_vy :: int
  last_seq :: int

definition Player :: "int \<Rightarrow> player" where
  "Player pid = \<lparr>p_id = pid, p_x = 0, p_y = 0, p_vx = 0, p_vy = 0, last_seq = 0\<rparr>"

text \<open>
  The asyncio task that runs \<open>Room.run\<close>: created but not yet scheduled, executing (it
  holds the event loop), suspended in \<open>asyncio.sleep(delay)\<close>, or ended by an exception.
\<close>

datatype task = Created | Running | Sleeping rat | Failed py_error

record room =
  r_id :: int
  r_tick :: rat
  tick_no :: int
  players :: "(int, player) dict"
  conns :: "(int, nat) dict"
  r_nxt :: rat
  r_task :: task

definition new_room :: "int \<Rightarrow> rat \<Rightarrow> room" where
  "new_room rid tk = \<lparr>r_id = rid, r_tick = tk, tick_no = 0, players = [], conns = [],
     r_nxt = 0, r_task = Created\<rparr>"

section \<open>Operations\<close>

text \<open>\<open>join\<close> draws the next id from the global counter, which it returns updated.\<close>

definition room_join :: "nat \<Rightarrow> int \<Rightarrow> room \<Rightarrow> int \<times> int \<times> room" where
  "room_join c ctr r =
     (let pid = new_pid ctr
      in (pid, pid, r\<lparr>players := dict_set pid (Player pid) (players r),
                      conns := dict_set pid c (conns r)\<rparr>))"

definition room_move :: "int \<Rightarrow> int \<Rightarrow> int \<Rightarrow> int \<Rightarrow> room \<Rightarrow> room" where
  "room_move pid sq dx dy r =
     (case dict_get (players r) pid of
        None \<Rightarrow> r
      | Some p \<Rightarrow> r\<lparr>players := dict_set pid (p\<lparr>p_vx := dx, p_vy := dy, last_seq := sq\<rparr>) (players r)\<rparr>)"

definition room_leave :: "int \<Rightarrow> room \<Rightarrow> room" where
  "room_leave pid r = r\<lparr>players := dict_pop pid (players r), conns := dict_pop pid (conns r)\<rparr>"

definition advance :: "player \<Rightarrow> player" where
  "advance p = p\<lparr>p_x := p_x p + p_vx p, p_y := p_y p + p_vy p\<rparr>"

fun pack_entries :: "bytes \<Rightarrow> nat \<Rightarrow> player list \<Rightarrow> bytes py" where
  "pack_entries buf off [] = Inr buf"
| "pack_entries buf off (p # ps) =
     bindE (pack_into [FI, Fi, Fi, FI] buf off [p_id p, p_x p, p_y p, last_seq p])
       (\<lambda>buf'. pack_entries buf' (off + 16) ps)"

definition snapshot_frame :: "room \<Rightarrow> bytes py" where
  "snapshot_frame r =
     (let n = length (players r);
          buf = (replicate (7 + n * 16) 0)[0 := MSG_SNAPSHOT]
      in bindE (pack_into [FI, FH] buf 1 [tick_no r, int n])
        (\<lambda>buf. bindE (pack_entries buf 7 (vals (players r)))
        (\<lambda>buf. bindE (pack [FI] [int (length buf)]) (\<lambda>h. Inr (h @ buf)))))"

fun broadcast :: "bytes \<Rightarrow> nat list \<Rightarrow> (nat \<Rightarrow> writer) \<Rightarrow> nat \<Rightarrow> writer" where
  "broadcast f [] ws = ws"
| "broadcast f (c # cs) ws =
     (case w_write f (ws c) of
        Inl e \<Rightarrow> broadcast f cs ws
      | Inr w \<Rightarrow> broadcast f cs (ws(c := w)))"

definition tick_room :: "room \<Rightarrow> room" where
  "tick_room r = r\<lparr>tick_no := (tick_no r + 1) AND 0xFFFFFFFF, players := map_vals advance (players r)\<rparr>"

text \<open>
  \<open>step\<close> returns the exception it ends with, if any: the counter and the positions are
  already updated when packing the snapshot fails, and then no frame is written.
\<close>

definition step :: "room \<Rightarrow> (nat \<Rightarrow> writer) \<Rightarrow> py_error option \<times> room \<times> (nat \<Rightarrow> writer)" where
  "step r ws =
     (let r1 = tick_room r
      in case snapshot_frame r1 of
           Inl e \<Rightarrow> (Some e, r1, ws)
         | Inr f \<Rightarrow> (None, r1, broadcast f (vals (conns r1)) ws))"

section \<open>Well-formed rooms\<close>

definition player_ok :: "player \<Rightarrow> bool" where
  "player_ok p \<longleftrightarrow> in_range FI (p_id p) \<and> in_range Fh (p_vx p) \<and> in_range Fh (p_vy p)
     \<and> in_range FI (last_seq p)"

definition room_ok :: "room \<Rightarrow> bool" where
  "room_ok r \<longleftrightarrow> in_range FI (r_id r) \<and> in_range FI (tick_no r)
     \<and> keys (players r) = keys (conns r) \<and> distinct (keys (players r))
     \<and> (\<forall>(k, p) \<in> set (players r). p_id p = k \<and> player_ok p)"

text \<open>What one snapshot entry and one snapshot payload look like on the wire.\<close>

definition entry :: "player \<Rightarrow> bytes" where
  "entry p = enc [FI, Fi, Fi, FI] [p_id p, p_x p, p_y p, last_seq p]"

definition snapshot_payload :: "int \<Rightarrow> player list \<Rightarrow> bytes" where
  "snapshot_payload t ps = MSG_SNAPSHOT # enc [FI, FH] [t, int (length ps)] @ concat (map entry ps)"

definition entry_ok :: "player \<Rightarrow> bool" where
  "entry_ok p \<longleftrightarrow> fits [FI, Fi, Fi, FI] [p_id p, p_x p, p_y p, last_seq p]"

definition snapshot_ok :: "room \<Rightarrow> bool" where
  "snapshot_ok r \<longleftrightarrow> length (players r) \<le> 65535
     \<and> (\<forall>p \<in> set (vals (players r)). in_range Fi (p_x p) \<and> in_range Fi (p_y p))"

text \<open>
  The rooms the server can build: a fresh room, then joins, moves with decoded fields,
  leaves, ticks and scheduling changes. The index counts the ticks.
\<close>

inductive room_reach :: "nat \<Rightarrow> room \<Rightarrow> bool" where
  reach_new: "in_range FI rid \<Longrightarrow> room_reach 0 (new_room rid tk)"
| reach_join: "room_reach n r \<Longrightarrow> room_reach n (snd (snd (room_join c ctr r)))"
| reach_move: "room_reach n r \<Longrightarrow> in_range FI sq \<Longrightarrow> in_range Fh dx \<Longrightarrow> in_range Fh dy \<Longrightarrow>
     room_reach n (room_move pid sq dx dy r)"
| reach_leave: "room_reach n r \<Longrightarrow> room_reach n (room_leave pid r)"
| reach_tick: "room_reach n r \<Longrightarrow> room_reach (Suc n) (tick_room r)"
| reach_sched: "room_reach n r \<Longrightarrow> room_reach n (r\<lparr>r_nxt := q, r_task := t\<rparr>)"

definition coords_within :: "nat \<Rightarrow> player \<Rightarrow> bool" where
  "coords_within n p \<longleftrightarrow> - 32768 * int n \<le> p_x p \<and> p_x p \<le> 32767 * int n
     \<and> - 32768 * int n \<le> p_y p \<and> p_y p \<le> 32767 * int n"

lemma new_pid_eq: "new_pid n = (n + 1) mod 2 ^ 32"
  by (simp add: new_pid_def and_mask32)

lemma new_pid_range: "in_range FI (new_pid n)"
  by (simp add: new_pid_eq in_range_def)

lemma length_entry [simp]: "entry_ok p \<Longrightarrow> length (entry p) = 16"
  by (simp add: entry_def entry_ok_def)

lemma length_entries: "\<forall>p \<in> set ps. entry_ok p \<Longrightarrow> length (concat (map entry ps)) = 16 * length ps"
  by (induction ps) auto

lemma length_snapshot_payload:
  "\<forall>p \<in> set ps. entry_ok p \<Longrightarrow> length (snapshot_payload t ps) = 7 + 16 * length ps"
  by (simp add: snapshot_payload_def length_entries)

lemma entry_ok_iff: "player_ok p \<Longrightarrow> entry_ok p \<longleftrightarrow> in_range Fi (p_x p) \<and> in_range Fi (p_y p)"
  by (auto simp: entry_ok_def player_ok_def fits_def)


text \<open>A small room for the concrete checks: one client has joined and has sent one MOVE.\<close>

definition demo_room :: room where
  "demo_room = room_move 1 9 5 (- 3) (snd (snd (room_join 0 0 (new_room 7 (1 / 30)))))"

section \<open>Every operation keeps a room well-formed\<close>

lemma player_ok_new: "in_range FI pid \<Longrightarrow> player_ok (Player pid)"
  by (simp add: player_ok_def Player_def in_range_def)

lemma room_ok_new: "in_range FI rid \<Longrightarrow> room_ok (new_room rid tk)"
  by (simp add: room_ok_def new_room_def in_range_def)

lemma room_ok_join: "room_ok r \<Longrightarrow> room_ok (snd (snd (room_join c ctr r)))"
  using new_pid_range [of ctr] player_ok_new [OF new_pid_range]
  by (auto simp: room_ok_def room_join_def Let_def Player_def
      intro: alist.distinct_put alist_pair.lockstep_put dest!: in_set_dict_set)

lemma room_ok_move:
  assumes "room_ok r" "in_range FI sq" "in_range Fh dx" "in_range Fh dy"
  shows "room_ok (room_move pid sq dx dy r)"
proof (cases "dict_get (players r) pid")
  case None
  then show ?thesis using assms by (simp add: room_move_def)
next
  case (Some p)
  then have mem: "(pid, p) \<in> set (players r)" by (rule map_of_SomeD)
  then have "pid \<in> set (keys (players r))" by force
  with assms Some mem show ?thesis
    by (auto simp: room_ok_def room_move_def player_ok_def keys_dict_set dest!: in_set_dict_set)
qed

lemma room_ok_leave: "room_ok r \<Longrightarrow> room_ok (room_leave pid r)"
  by (auto simp: room_ok_def room_leave_def in_set_dict_pop intro: alist.distinct_pop alist_pair.lockstep_pop)

lemma room_ok_tick: "room_ok r \<Longrightarrow> room_ok (tick_room r)"
  by (auto simp: room_ok_def tick_room_def and_mask32 in_range_def set_map_vals advance_def player_ok_def)

lemma step_room: "fst (snd (step r ws)) = tick_room r"
  by (simp add: step_def Let_def split: sum.split)

lemma room_ok_step: "room_ok r \<Longrightarrow> room_ok (fst (snd (step r ws)))"
  by (simp add: step_room room_ok_tick)

lemma room_ok_task [simp]:
  "room_ok (r\<lparr>r_task := t\<rparr>) = room_ok r" "room_ok (r\<lparr>r_nxt := q\<rparr>) = room_ok r"
  by (simp_all add: room_ok_def)

lemma room_ids [simp]:
  "r_id (room_leave pid r) = r_id r"
  "r_id (room_move pid sq dx dy r) = r_id r"
  "r_id (tick_room r) = r_id r"
  "r_id (snd (snd (room_join c ctr r))) = r_id r"
  "r_id (new_room rid tk) = rid"
  by (auto simp: room_leave_def room_move_def tick_room_def room_join_def Let_def new_room_def
      split: option.split)

lemma room_ok_vals: "room_ok r \<Longrightarrow> p \<in> set (vals (players r)) \<Longrightarrow> player_ok p"
  by (auto simp: room_ok_def)

section \<open>The snapshot frame\<close>

lemma pack_entries_ok:
  assumes "\<forall>p \<in> set ps. entry_ok p" and "off + 16 * length ps \<le> length buf"
  shows "pack_entries buf off ps =
    Inr (take off buf @ concat (map entry ps) @ drop (off + 16 * length ps) buf)"
  using assms
proof (induction ps arbitrary: buf off)
  case (Cons p ps)
  let ?buf = "take off buf @ entry p @ drop (off + 16) buf"
  have "pack_into [FI, Fi, Fi, FI] buf off [p_id p, p_x p, p_y p, last_seq p] = Inr ?buf"
    using Cons.prems by (simp add: pack_into_ok entry_def entry_ok_def)
  moreover have "pack_entries ?buf (off + 16) ps =
      Inr (take (off + 16) ?buf @ concat (map entry ps) @ drop (off + 16 + 16 * length ps) ?buf)"
    using Cons.prems by (intro Cons.IH) auto
  moreover have "take (off + 16) ?buf = take off buf @ entry p"
    using Cons.prems by simp
  moreover have "drop (off + 16 + 16 * length ps) ?buf = drop (off + 16 * length (p # ps)) buf"
    using Cons.prems by (simp add: ac_simps)
  ultimately show ?case by simp
qed simp

lemma pack_entries_bad: "\<exists>p \<in> set ps. \<not> entry_ok p \<Longrightarrow> pack_entries buf off ps = Inl StructError"
proof (induction ps arbitrary: buf off)
  case (Cons p ps)
  show ?case
  proof (cases "entry_ok p")
    case True
    with Cons show ?thesis
      by (cases "pack_into [FI, Fi, Fi, FI] buf off [p_id p, p_x p, p_y p, last_seq p]")
        (auto simp: pack_into_def pack_eq split: if_splits)
  next
    case False
    then show ?thesis by (simp add: pack_into_bad entry_ok_def)
  qed
qed simp

lemma pack_entries_err: "pack_entries buf off ps = Inl e \<Longrightarrow> e = StructError"
  by (induction buf off ps rule: pack_entries.induct)
    (auto simp: py_simps pack_into_def pack_eq split: if_splits)

lemma pack_snapshot_head:
  assumes "n \<le> 65535" and "in_range FI t"
  shows "pack_into [FI, FH] ((replicate (7 + n * 16) 0)[0 := MSG_SNAPSHOT]) 1 [t, int n] =
    Inr (MSG_SNAPSHOT # enc [FI, FH] [t, int n] @ replicate (n * 16) 0)"
proof -
  have "7 + n * 16 = Suc (6 + n * 16)" by simp
  then have "(replicate (7 + n * 16) 0)[0 := MSG_SNAPSHOT] = MSG_SNAPSHOT # replicate (6 + n * 16) 0"
    by (simp only: replicate_Suc list_update_code)
  then show ?thesis using assms by (subst pack_into_ok) (auto simp: fits_def in_range_def)
qed

lemma snapshot_entries_ok:
  "room_ok r \<Longrightarrow> snapshot_ok r \<Longrightarrow> p \<in> set (vals (players r)) \<Longrightarrow> entry_ok p"
  using room_ok_vals entry_ok_iff by (auto simp: snapshot_ok_def)

lemma snapshot_payload_ok:
  assumes "room_ok r" and "snapshot_ok r"
  shows "payload_ok (snapshot_payload t (vals (players r)))"
  using assms length_snapshot_payload [of "vals (players r)" t] snapshot_entries_ok [OF assms]
  by (auto simp: payload_ok_def MAX_FRAME_def snapshot_ok_def snapshot_payload_def)

lemma snapshot_frame_ok:
  assumes "room_ok r" and "snapshot_ok r"
  shows "snapshot_frame r = Inr (frame (snapshot_payload (tick_no r) (vals (players r))))"
proof -
  let ?ps = "vals (players r)" and ?n = "length (players r)"
  let ?head = "MSG_SNAPSHOT # enc [FI, FH] [tick_no r, int ?n]"
  have n: "?n \<le> 65535" and t: "in_range FI (tick_no r)"
    using assms by (auto simp: snapshot_ok_def room_ok_def)
  have ent: "\<forall>p \<in> set ?ps. entry_ok p" using snapshot_entries_ok [OF assms] by blast
  have lh: "length ?head = 7" using n t by (simp add: fits_def in_range_def)
  have "pack_entries (?head @ replicate (?n * 16) 0) 7 ?ps = Inr (?head @ concat (map entry ?ps))"
    using ent lh by (subst pack_entries_ok) simp_all
  moreover have "?head @ concat (map entry ?ps) = snapshot_payload (tick_no r) ?ps"
    by (simp add: snapshot_payload_def)
  ultimately show ?thesis
    using pack_snapshot_head [OF n t] pack_length_prefix [OF snapshot_payload_ok [OF assms]]
    by (simp add: snapshot_frame_def Let_def)
qed

lemma snapshot_frame_bad:
  assumes "room_ok r" and "\<not> snapshot_ok r"
  shows "snapshot_frame r = Inl StructError"
proof (cases "length (players r) \<le> 65535")
  case True
  with assms obtain p where "p \<in> set (vals (players r))" "\<not> entry_ok p"
    using room_ok_vals entry_ok_iff by (fastforce simp: snapshot_ok_def)
  then have "pack_entries buf 7 (vals (players r)) = Inl StructError" for buf
    by (intro pack_entries_bad) blast
  moreover have "in_range FI (tick_no r)" using assms by (simp add: room_ok_def)
  ultimately show ?thesis
    using pack_snapshot_head [OF True] by (simp add: snapshot_frame_def Let_def)
next
  case False
  then have "\<not> fits [FI, FH] [tick_no r, int (length (players r))]"
    by (simp add: fits_def in_range_def)
  then show ?thesis by (simp add: snapshot_frame_def Let_def pack_into_bad)
qed


section \<open>One tick\<close>

lemma room_tick_frame [simp]:
  "conns (tick_room r) = conns r" "vals (players (tick_room r)) = map advance (vals (players r))"
  by (simp_all add: tick_room_def)

lemma broadcast_out:
  "w_out (broadcast f cs ws c) =
     (if healthy (ws c) then w_out (ws c) @ concat (replicate (count_list cs c) f) else w_out (ws c))
   \<and> w_lost (broadcast f cs ws c) = w_lost (ws c) \<and> w_fail (broadcast f cs ws c) = w_fail (ws c)"
proof (induction cs arbitrary: ws)
  case (Cons d cs)
  show ?case
    by (cases "w_fail (ws d)"; cases "w_lost (ws d)"; cases "d = c") (simp_all add: w_write_def Cons.IH)
qed simp

lemma step_cases:
  assumes "room_ok r"
  shows "step r ws =
    (if snapshot_ok (tick_room r)
     then (None, tick_room r,
           broadcast (frame (snapshot_payload (tick_no (tick_room r)) (map advance (vals (players r)))))
             (vals (conns r)) ws)
     else (Some StructError, tick_room r, ws))"
  using snapshot_frame_ok [OF room_ok_tick [OF assms]] snapshot_frame_bad [OF room_ok_tick [OF assms]]
  by (simp add: step_def Let_def)

lemma room_reach_ok: "room_reach n r \<Longrightarrow> room_ok r"
  by (induction rule: room_reach.induct)
    (simp_all add: room_ok_new room_ok_join room_ok_move room_ok_leave room_ok_tick)

lemma coords_within_advance:
  "player_ok p \<Longrightarrow> coords_within n p \<Longrightarrow> coords_within (Suc n) (advance p)"
  by (auto simp: coords_within_def advance_def player_ok_def in_range_def)

lemma room_reach_coords:
  "room_reach n r \<Longrightarrow> (k, p) \<in> set (players r) \<Longrightarrow> coords_within n p"
proof (induction arbitrary: k p rule: room_reach.induct)
  case (reach_join n r c ctr)
  then show ?case
    by (auto simp: room_join_def Let_def Player_def coords_within_def dest!: in_set_dict_set)
next
  case (reach_move n r sq dx dy pid)
  show ?case
  proof (cases "dict_get (players r) pid")
    case None
    with reach_move show ?thesis by (simp add: room_move_def)
  next
    case (Some p0)
    then have "coords_within n p0" using reach_move.IH map_of_SomeD by fast
    with Some reach_move show ?thesis
      by (auto simp: room_move_def coords_within_def dest!: in_set_dict_set)
  qed
next
  case (reach_leave n r pid)
  then show ?case by (auto simp: room_leave_def in_set_dict_pop)
next
  case (reach_tick n r)
  then obtain q where "(k, q) \<in> set (players r)" and "p = advance q"
    by (auto simp: tick_room_def set_map_vals)
  moreover from this have "player_ok q"
    using room_reach_ok [OF reach_tick.hyps] by (auto simp: room_ok_def)
  ultimately show ?case using reach_tick.IH coords_within_advance by blast
qed (auto simp: new_room_def)

lemma coords_within_range: "n \<le> 65536 \<Longrightarrow> coords_within n p \<Longrightarrow> in_range Fi (p_x p) \<and> in_range Fi (p_y p)"
  by (auto simp: coords_within_def in_range_def)

lemma length_tick_players [simp]: "length (players (tick_room r)) = length (players r)"
  by (simp add: tick_room_def)

lemma ticks_players: "players ((tick_room ^^ k) r) = map_vals (advance ^^ k) (players r)"
  by (induction k) (auto simp: tick_room_def map_vals_def)

lemma advances_x: "p_x ((advance ^^ k) p) = p_x p + int k * p_vx p \<and> p_vx ((advance ^^ k) p) = p_vx p"
  by (induction k) (auto simp: advance_def algebra_simps)

lemma room_reach_ticks: "room_reach n r \<Longrightarrow> room_reach (k + n) ((tick_room ^^ k) r)"
  by (induction k) (auto intro: reach_tick)

lemma demo_room_reach: "room_reach 0 demo_room"
  unfolding demo_room_def by (intro reach_move reach_join reach_new) (simp_all add: in_range_def)

lemma demo_room_eq:
  "demo_room = (new_room 7 (1 / 30))\<lparr>
     players := [(1, \<lparr>p_id = 1, p_x = 0, p_y = 0, p_vx = 5, p_vy = - 3, last_seq = 9\<rparr>)], conns := [(1, 0)]\<rparr>"
  by (simp add: demo_room_def room_move_def room_join_def new_room_def new_pid_eq Let_def Player_def)

lemma demo_room_ok: "room_ok demo_room" "snapshot_ok (tick_room demo_room)"
  using room_reach_ok [OF demo_room_reach]
  by (simp_all add: demo_room_eq snapshot_ok_def advance_def in_range_def)

section \<open>Properties of a room\<close>



text \<open>Isolation of slow or broken clients. In one tick each connection whose transport is
  healthy gets one snapshot frame per player entry it holds in the room, whatever the
  state of the other transports; a lost or failing transport gets nothing and stops
  nobody.\<close>

theorem step_isolates_clients:
  assumes "room_ok r" and "snapshot_ok (tick_room r)"
  shows "w_out (snd (snd (step r ws)) c) =
    (if healthy (ws c)
     then w_out (ws c) @ concat (replicate (count_list (vals (conns r)) c)
            (frame (snapshot_payload (tick_no (tick_room r)) (map advance (vals (players r))))))
     else w_out (ws c))"
  using assms broadcast_out by (simp add: step_cases)

theorem step_isolates_clients_witness:
  "w_out (snd (snd (step demo_room (\<lambda>_. new_writer))) 0) =
    frame (snapshot_payload (tick_no (tick_room demo_room)) (map advance (vals (players demo_room))))"
  using step_isolates_clients [OF demo_room_ok, of "\<lambda>_. new_writer" 0]
  by (simp add: demo_room_eq new_writer_def)

text \<open>C27: Tick budget. Coordinates are unbounded integers but the snapshot packs them into
  32 bits: for the first 65536 ticks of a room's life no tick can raise, whatever the
  clients send, as long as at most 65535 players are in the room.\<close>

theorem step_safe_for_65536_ticks:
  assumes "room_reach n r" and "n < 65536" and "length (players r) \<le> 65535"
  shows "fst (step r ws) = None"
proof -
  have "room_reach (Suc n) (tick_room r)" using assms(1) by (rule reach_tick)
  then have "coords_within (Suc n) p" if "p \<in> set (vals (players (tick_room r)))" for p
    using that room_reach_coords by (metis (no_types, lifting) imageE list.set_map prod.collapse)
  then have "snapshot_ok (tick_room r)"
    using assms(2,3) coords_within_range [of "Suc n"] by (simp add: snapshot_ok_def)
  then show ?thesis using room_reach_ok [OF assms(1)] by (simp add: step_cases)
qed


theorem step_safe_for_65536_ticks_witness:
  "room_reach 0 (new_room 7 (1 / 30)) \<and> fst (step (new_room 7 (1 / 30)) (\<lambda>_. new_writer)) = None"
proof -
  have r: "room_reach 0 (new_room 7 (1 / 30))" by (rule reach_new) (simp add: in_range_def)
  have "length (players (new_room 7 (1 / 30))) \<le> 65535" by (simp add: new_room_def)
  with r step_safe_for_65536_ticks [OF r, of "\<lambda>_. new_writer"] show ?thesis by simp
qed

text \<open>The budget is tight: one client that sends a single MOVE with \<open>dx = -32768\<close> makes
  tick 65537 of its room raise \<open>struct.error\<close>, although the room holds one player only.\<close>

theorem step_fails_at_tick_65537:
  "\<exists>r. room_reach 65536 r \<and> length (players r) = 1 \<and> (\<forall>ws. fst (step r ws) = Some StructError)"
proof -
  define r0 where "r0 = room_move 1 1 (- 32768) 0 (snd (snd (room_join 0 0 (new_room 7 (1 / 30)))))"
  have r0: "room_reach 0 r0" unfolding r0_def
    by (intro reach_move reach_join reach_new) (auto simp: in_range_def)
  have p0: "players r0 = [(1, (Player 1)\<lparr>p_vx := - 32768, last_seq := 1\<rparr>)]"
    by (simp add: r0_def room_move_def room_join_def new_room_def new_pid_eq Let_def Player_def)
  define r where "r = (tick_room ^^ 65536) r0"
  have reach: "room_reach 65536 r" using room_reach_ticks [OF r0, of 65536] by (simp add: r_def)
  have p: "players r = [(1, (advance ^^ 65536) ((Player 1)\<lparr>p_vx := - 32768, last_seq := 1\<rparr>))]"
    unfolding r_def ticks_players p0 by (simp add: map_vals_def)
  have "\<not> snapshot_ok (tick_room r)"
    using advances_x [of 65536 "(Player 1)\<lparr>p_vx := - 32768, last_seq := 1\<rparr>"]
    by (simp add: snapshot_ok_def p advance_def in_range_def Player_def)
  then show ?thesis using reach p step_cases [OF room_reach_ok [OF reach]] by auto
qed

end
