(* ===== verification/Pacing.thy ===== *)
theory Pacing
  imports Room
begin

text \<open>
  \<open>Room.run\<close>, the coroutine that paces the ticks of a room. The event loop hands control to
  it; it runs until it suspends in \<open>asyncio.sleep\<close> or ends with an exception. The values
  that \<open>loop.time()\<close> returns are the argument of the model, one list element per call, as
  rationals (the floating-point clock without its rounding). Running out of readings
  means that the coroutine has not given control back yet: its task is then \<open>Running\<close>.
\<close>

section \<open>The coroutine\<close>

fun run_loop :: "rat list \<Rightarrow> room \<Rightarrow> (nat \<Rightarrow> writer) \<Rightarrow> room \<times> (nat \<Rightarrow> writer)" where
  "run_loop [] r ws = (r\<lparr>r_task := Running\<rparr>, ws)"
| "run_loop (now # nows) r ws =
     (let r1 = r\<lparr>r_nxt := r_nxt r + r_tick r\<rparr>;
          delay = r_nxt r1 - now
      in if delay > 0 then (r1\<lparr>r_task := Sleeping delay\<rparr>, ws)
         else (case step r1 ws of
                 (None, r2, ws2) \<Rightarrow> run_loop nows r2 ws2
               | (Some e, r2, ws2) \<Rightarrow> (r2\<lparr>r_task := Failed e\<rparr>, ws2)))"

definition resume :: "rat list \<Rightarrow> room \<Rightarrow> (nat \<Rightarrow> writer) \<Rightarrow> room \<times> (nat \<Rightarrow> writer)" where
  "resume ts r ws =
     (case r_task r of
        Created \<Rightarrow> (case ts of [] \<Rightarrow> (r, ws) | t0 # ts' \<Rightarrow> run_loop ts' (r\<lparr>r_nxt := t0\<rparr>) ws)
      | Running \<Rightarrow> run_loop ts r ws
      | Sleeping d \<Rightarrow>
          (case step r ws of
             (None, r2, ws2) \<Rightarrow> run_loop ts r2 ws2
           | (Some e, r2, ws2) \<Rightarrow> (r2\<lparr>r_task := Failed e\<rparr>, ws2))
      | Failed e \<Rightarrow> (r, ws))"

text \<open>
  The schedule after \<open>n\<close> completed ticks of a room whose coroutine first read the clock at
  \<open>t0\<close>: tick \<open>k\<close> is due at \<open>t0 + k * tick\<close>.
\<close>

definition paced :: "rat \<Rightarrow> nat \<Rightarrow> room \<Rightarrow> bool" where
  "paced t0 n r \<longleftrightarrow>
     (case r_task r of
        Created \<Rightarrow> n = 0
      | Running \<Rightarrow> r_nxt r = t0 + of_nat n * r_tick r
      | Sleeping d \<Rightarrow> r_nxt r = t0 + of_nat (Suc n) * r_tick r \<and> d > 0
      | Failed e \<Rightarrow> True)"

section \<open>Lemmas\<close>

lemma run_loop_step:
  "run_loop (t # ts) r ws =
     (if t < r_nxt r + r_tick r
      then (r\<lparr>r_nxt := r_nxt r + r_tick r, r_task := Sleeping (r_nxt r + r_tick r - t)\<rparr>, ws)
      else (case step (r\<lparr>r_nxt := r_nxt r + r_tick r\<rparr>) ws of
              (None, r2, ws2) \<Rightarrow> run_loop ts r2 ws2
            | (Some e, r2, ws2) \<Rightarrow> (r2\<lparr>r_task := Failed e\<rparr>, ws2)))"
  by (simp add: Let_def)

declare run_loop.simps(2) [simp del]

lemma step_obtain:
  obtains e ws2 where "step r ws = (e, tick_room r, ws2)"
  using step_room [of r ws] by (cases "step r ws") auto

lemma tick_room_sched [simp]:
  "r_tick (tick_room r) = r_tick r" "r_nxt (tick_room r) = r_nxt r" "r_task (tick_room r) = r_task r"
  by (simp_all add: tick_room_def)

lemma tick_no_tick: "tick_no (tick_room r) = (tick_no r + 1) mod 2 ^ 32"
  by (simp add: tick_room_def and_mask32)

lemma run_loop_id: "r_id (fst (run_loop ts r ws)) = r_id r"
proof (induction ts arbitrary: r ws)
  case (Cons t ts)
  obtain e ws2 where "step (r\<lparr>r_nxt := r_nxt r + r_tick r\<rparr>) ws =
      (e, tick_room (r\<lparr>r_nxt := r_nxt r + r_tick r\<rparr>), ws2)" by (rule step_obtain)
  with Cons show ?case by (simp add: run_loop_step split: option.split)
qed simp

lemma reach_task: "room_reach n r \<Longrightarrow> room_reach n (r\<lparr>r_task := u\<rparr>)"
  using reach_sched [of n r u "r_nxt r"] by simp

lemma run_loop_reach: "room_reach n r \<Longrightarrow> \<exists>m. room_reach m (fst (run_loop ts r ws))"
proof (induction ts arbitrary: r ws n)
  case Nil
  then have "room_reach n (r\<lparr>r_nxt := r_nxt r, r_task := Running\<rparr>)" by (rule reach_sched)
  then show ?case by auto
next
  case (Cons t ts)
  let ?r1 = "r\<lparr>r_nxt := r_nxt r + r_tick r\<rparr>"
  have r1: "room_reach n ?r1"
    using reach_sched [OF Cons.prems, where q = "r_nxt r + r_tick r" and t = "r_task r"] by simp
  then have tick: "room_reach (Suc n) (tick_room ?r1)" by (rule reach_tick)
  obtain e ws2 where st: "step ?r1 ws = (e, tick_room ?r1, ws2)" by (rule step_obtain)
  have "\<exists>m. room_reach m (fst (run_loop ts (tick_room ?r1) ws2))" using tick by (rule Cons.IH)
  moreover have "\<exists>m. room_reach m (?r1\<lparr>r_task := u\<rparr>)" for u
    using reach_task [OF r1] by blast
  moreover have "\<exists>m. room_reach m (tick_room ?r1\<lparr>r_task := u\<rparr>)" for u
    using reach_task [OF tick] by blast
  ultimately show ?case using st by (auto simp: run_loop_step split: option.split)
qed

lemma resume_reach: "room_reach n r \<Longrightarrow> \<exists>m. room_reach m (fst (resume ts r ws))"
proof -
  assume r: "room_reach n r"
  obtain e ws2 where st: "step r ws = (e, tick_room r, ws2)" by (rule step_obtain)
  have tick: "room_reach (Suc n) (tick_room r)" using r by (rule reach_tick)
  have "\<exists>m. room_reach m (tick_room r\<lparr>r_task := u\<rparr>)" for u
    using reach_task [OF tick] by blast
  moreover have "room_reach n (r\<lparr>r_nxt := t0\<rparr>)" for t0
    using reach_sched [OF r, where q = t0 and t = "r_task r"] by simp
  ultimately show ?thesis
    using r run_loop_reach [OF r] run_loop_reach [OF tick] run_loop_reach
    by (cases "r_task r"; cases ts; cases e) (simp_all add: resume_def st del: run_loop.simps, blast+)
qed

lemma resume_id: "r_id (fst (resume ts r ws)) = r_id r"
proof -
  obtain e ws2 where "step r ws = (e, tick_room r, ws2)" by (rule step_obtain)
  then show ?thesis
    by (simp add: resume_def run_loop_id split: task.split list.split option.split)
qed

lemma run_loop_paced:
  assumes "r_nxt r = t0 + of_nat n * r_tick r"
  shows "\<exists>k. paced t0 (n + k) (fst (run_loop ts r ws)) \<and> r_tick (fst (run_loop ts r ws)) = r_tick r
    \<and> (in_range FI (tick_no r) \<longrightarrow> tick_no (fst (run_loop ts r ws)) = (tick_no r + int k) mod 2 ^ 32)"
  using assms
proof (induction ts arbitrary: r ws n)
  case Nil
  then show ?case by (intro exI [of _ 0]) (auto simp: paced_def in_range_def)
next
  case (Cons t ts)
  let ?r1 = "r\<lparr>r_nxt := r_nxt r + r_tick r\<rparr>"
  show ?case
  proof (cases "r_nxt ?r1 - t > 0")
    case True
    then show ?thesis using Cons.prems
      by (intro exI [of _ 0]) (auto simp: paced_def in_range_def run_loop_step algebra_simps)
  next
    case False
    obtain e ws2 where st: "step ?r1 ws = (e, tick_room ?r1, ws2)" by (rule step_obtain)
    have "r_nxt (tick_room ?r1) = t0 + of_nat (Suc n) * r_tick (tick_room ?r1)"
      using Cons.prems by (simp add: algebra_simps)
    from Cons.IH [OF this, of ws2] obtain k where k:
      "paced t0 (Suc n + k) (fst (run_loop ts (tick_room ?r1) ws2))"
      "r_tick (fst (run_loop ts (tick_room ?r1) ws2)) = r_tick r"
      "in_range FI (tick_no (tick_room ?r1)) \<longrightarrow> tick_no (fst (run_loop ts (tick_room ?r1) ws2)) =
        (tick_no (tick_room ?r1) + int k) mod 2 ^ 32" by auto
    have rng: "in_range FI (tick_no (tick_room ?r1))"
      by (simp add: tick_no_tick in_range_def)
    have "(tick_no (tick_room ?r1) + int k) mod 2 ^ 32 = (tick_no r + int (Suc k)) mod 2 ^ 32"
      unfolding tick_no_tick by (simp add: mod_simps) (simp add: algebra_simps)
    then have tk: "tick_no (fst (run_loop ts (tick_room ?r1) ws2)) = (tick_no r + int (Suc k)) mod 2 ^ 32"
      using k(3) rng by simp
    show ?thesis
    proof (cases e)
      case None
      then have "run_loop (t # ts) r ws = run_loop ts (tick_room ?r1) ws2"
        using False st by (simp add: run_loop_step)
      moreover have "paced t0 (n + Suc k) (fst (run_loop ts (tick_room ?r1) ws2))" using k(1) by simp
      ultimately show ?thesis using k(2) tk by metis
    next
      case (Some x)
      then show ?thesis using False st
        by (intro exI [of _ 1]) (simp add: run_loop_step paced_def tick_no_tick)
    qed
  qed
qed


lemma run_loop_yields:
  assumes "i < length ts" and "ts ! i < r_nxt r + of_nat (Suc i) * r_tick r"
  shows "r_task (fst (run_loop ts r ws)) \<noteq> Running"
  using assms
proof (induction ts arbitrary: i r ws)
  case (Cons t ts)
  let ?r1 = "r\<lparr>r_nxt := r_nxt r + r_tick r\<rparr>"
  obtain e ws2 where st: "step ?r1 ws = (e, tick_room ?r1, ws2)" by (rule step_obtain)
  show ?case
  proof (cases "t < r_nxt r + r_tick r")
    case False
    then obtain j where j: "i = Suc j" using Cons.prems by (cases i) auto
    have "r_task (fst (run_loop ts (tick_room ?r1) ws2)) \<noteq> Running"
      using Cons.prems j by (intro Cons.IH [of j]) (auto simp: algebra_simps)
    then show ?thesis using False st by (simp add: run_loop_step split: option.split)
  qed (simp add: run_loop_step)
qed simp

lemma run_loop_holds_loop:
  assumes "\<forall>i < length ts. r_nxt r + of_nat (Suc i) * r_tick r \<le> ts ! i"
  shows "r_task (fst (run_loop ts r ws)) \<notin> range Sleeping"
  using assms
proof (induction ts arbitrary: r ws)
  case (Cons t ts)
  let ?r1 = "r\<lparr>r_nxt := r_nxt r + r_tick r\<rparr>"
  obtain e ws2 where st: "step ?r1 ws = (e, tick_room ?r1, ws2)" by (rule step_obtain)
  have "\<not> t < r_nxt r + r_tick r" using Cons.prems by (auto dest: spec [of _ 0])
  moreover have "r_task (fst (run_loop ts (tick_room ?r1) ws2)) \<notin> range Sleeping"
    using Cons.prems by (intro Cons.IH) (auto simp: algebra_simps dest: spec [of _ "Suc _"])
  ultimately show ?case using st by (auto simp: run_loop_step split: option.split)
qed auto

section \<open>Properties of the pacing\<close>

text \<open>C25: No drift. However late the coroutine is resumed and however long ticks take, tick
  \<open>k\<close> of a room stays due at \<open>t0 + k * tick\<close>: every time the coroutine gives control back,
  \<open>nxt\<close> is exactly the start time plus a whole number of periods, one more than the ticks
  done, and the 32-bit tick counter has advanced by the number of ticks done.\<close>

theorem run_never_drifts:
  assumes "paced t0 n r" and "r_task r = Running \<or> r_task r = Sleeping d" and "in_range FI (tick_no r)"
  shows "\<exists>k. paced t0 (n + k) (fst (resume ts r ws))
    \<and> (r_task (fst (resume ts r ws)) \<notin> range Failed \<longrightarrow>
        tick_no (fst (resume ts r ws)) = (tick_no r + int k) mod 2 ^ 32)"
proof -
  obtain e ws2 where st: "step r ws = (e, tick_room r, ws2)" by (rule step_obtain)
  show ?thesis
  proof (cases "r_task r = Running")
    case True
    then show ?thesis
      using run_loop_paced [of r t0 n ts ws] assms by (auto simp: paced_def resume_def)
  next
    case False
    then have d: "r_task r = Sleeping d" using assms(2) by simp
    then have "r_nxt (tick_room r) = t0 + of_nat (Suc n) * r_tick (tick_room r)"
      using assms(1) by (simp add: paced_def)
    from run_loop_paced [OF this, of ts ws2] obtain k where
      k: "paced t0 (n + Suc k) (fst (run_loop ts (tick_room r) ws2))"
      "tick_no (fst (run_loop ts (tick_room r) ws2)) = (tick_no r + int (Suc k)) mod 2 ^ 32"
      by (auto simp: tick_no_tick in_range_def mod_simps algebra_simps)
    show ?thesis
    proof (cases e)
      case None
      then have "fst (resume ts r ws) = fst (run_loop ts (tick_room r) ws2)"
        using d st by (simp add: resume_def)
      then show ?thesis using k by metis
    next
      case (Some x)
      then show ?thesis using d st by (simp add: resume_def paced_def)
    qed
  qed
qed

theorem run_never_drifts_witness:
  "paced 100 0 ((new_room 7 (1 / 30))\<lparr>r_task := Sleeping (1 / 30), r_nxt := 100 + 1 / 30\<rparr>)
   \<and> (\<exists>k. paced 100 k (fst (resume [200]
        ((new_room 7 (1 / 30))\<lparr>r_task := Sleeping (1 / 30), r_nxt := 100 + 1 / 30\<rparr>) (\<lambda>_. new_writer))))"
proof -
  let ?r = "(new_room 7 (1 / 30))\<lparr>r_task := Sleeping (1 / 30), r_nxt := 100 + 1 / 30\<rparr>"
  have p: "paced 100 0 ?r" by (simp add: paced_def new_room_def)
  have "\<exists>k. paced 100 (0 + k) (fst (resume [200] ?r (\<lambda>_. new_writer)))"
    using run_never_drifts [OF p, of "1 / 30" "[200]" "\<lambda>_. new_writer"]
    by (auto simp: new_room_def in_range_def)
  with p show ?thesis by simp
qed



text \<open>Starvation. As long as every clock reading is at or past the deadline it is compared
  with, the coroutine of one room never suspends, so no other coroutine of the process
  runs: after the burst its task is still running, or has failed, and is not asleep.\<close>

theorem run_overload_never_suspends:
  assumes "r_task r = Sleeping d"
    and "\<forall>i < length ts. r_nxt r + of_nat (Suc i) * r_tick r \<le> ts ! i"
  shows "r_task (fst (resume ts r ws)) \<notin> range Sleeping"
proof -
  obtain e ws2 where st: "step r ws = (e, tick_room r, ws2)" by (rule step_obtain)
  have "r_task (fst (run_loop ts (tick_room r) ws2)) \<notin> range Sleeping"
    using assms(2) by (intro run_loop_holds_loop) simp
  then show ?thesis using assms(1) st by (auto simp: resume_def split: option.split)
qed

theorem run_overload_never_suspends_witness:
  "r_task (fst (resume [104, 105, 106] ((new_room 7 1)\<lparr>r_task := Sleeping 1, r_nxt := 100\<rparr>)
     (\<lambda>_. new_writer))) \<notin> range Sleeping"
  by (rule run_overload_never_suspends [where d = 1])
    (auto simp: new_room_def less_Suc_eq eval_nat_numeral)

end
