(* ===== verification/Server.thy ===== *)
theory Server
  imports Pacing
begin

text \<open>
  The whole asyncio process: the global id counter and room table, the heap of \<open>Room\<close>
  objects (the table and the handlers hold references, here heap addresses), one
  \<open>handle\<close> coroutine per connection with its local variables, and the transports. The
  event loop is single threaded, so an execution is a sequence of events, each run to its
  next suspension point: bytes arriving on a connection run its handler until it has to
  wait for more, a timer resumes the coroutine of a room (theory \<open>Pacing\<close>). While a room's
  coroutine holds the loop, nothing else happens.
\<close>

section \<open>State\<close>

text \<open>
  Where a handler is suspended: in \<open>readexactly(4)\<close>, in \<open>readexactly(n)\<close>, or finished,
  with the exception that escaped it, if any.
\<close>

datatype await = AwaitHeader | AwaitPayload nat | Done "py_error option"

type_synonym locals = "nat option \<times> int"

record conn =
  inbuf :: bytes
  pc :: await
  c_room :: "nat option"
  my_pid :: int
  nodelay :: bool

record server =
  srv_tick :: rat
  next_pid :: int
  rooms :: "(int, nat) dict"
  heap :: "room list"
  handlers :: "nat \<Rightarrow> conn option"
  writers :: "nat \<Rightarrow> writer"

definition init_server :: "rat \<Rightarrow> server" where
  "init_server tk = \<lparr>srv_tick = tk, next_pid = 0, rooms = [], heap = [],
     handlers = Map.empty, writers = (\<lambda>_. new_writer)\<rparr>"

section \<open>The handler\<close>

definition get_room :: "int \<Rightarrow> server \<Rightarrow> nat \<times> server" where
  "get_room rid w =
     (case dict_get (rooms w) rid of
        Some a \<Rightarrow> (a, w)
      | None \<Rightarrow> (let a = length (heap w)
                in (a, w\<lparr>heap := heap w @ [new_room rid (srv_tick w)], rooms := dict_set rid a (rooms w)\<rparr>)))"

definition upd_room :: "nat \<Rightarrow> (room \<Rightarrow> room) \<Rightarrow> server \<Rightarrow> server" where
  "upd_room a f w = w\<lparr>heap := (heap w)[a := f (heap w ! a)]\<rparr>"

definition joined_frame :: "int \<Rightarrow> int \<Rightarrow> bytes py" where
  "joined_frame pid rid =
     bindE (pack [FI, FI] [pid, rid])
       (\<lambda>b. let jp = MSG_JOINED # b in bindE (pack [FI] [int (length jp)]) (\<lambda>h. Inr (h @ jp)))"

definition on_join :: "nat \<Rightarrow> int \<Rightarrow> server \<Rightarrow> py_error option \<times> locals \<times> server" where
  "on_join c rid w =
     (let (a, w1) = get_room rid w;
          (pid, ctr, r) = room_join c (next_pid w1) (heap w1 ! a);
          w2 = w1\<lparr>next_pid := ctr, heap := (heap w1)[a := r]\<rparr>
      in case bindE (joined_frame pid rid) (\<lambda>f. w_write f (writers w2 c)) of
           Inl e \<Rightarrow> (Some e, (Some a, pid), w2)
         | Inr wr \<Rightarrow> (None, (Some a, pid), w2\<lparr>writers := (writers w2)(c := wr)\<rparr>))"

definition on_frame :: "nat \<Rightarrow> bytes \<Rightarrow> locals \<Rightarrow> server \<Rightarrow> py_error option \<times> locals \<times> server" where
  "on_frame c p loc w =
     (case p of
        [] \<Rightarrow> (Some IndexError, loc, w)
      | t # _ \<Rightarrow>
          if t = MSG_JOIN \<and> length p \<ge> 5 then
            (case unpack_from [FI] p 1 of
               Inl e \<Rightarrow> (Some e, loc, w)
             | Inr vs \<Rightarrow> on_join c (vs ! 0) w)
          else if t = MSG_MOVE \<and> length p \<ge> 9 then
            (case fst loc of
               None \<Rightarrow> (None, loc, w)
             | Some a \<Rightarrow>
                 (case unpack_from [FI, Fh, Fh] p 1 of
                    Inl e \<Rightarrow> (Some e, loc, w)
                  | Inr vs \<Rightarrow> (None, loc, upd_room a (room_move (snd loc) (vs ! 0) (vs ! 1) (vs ! 2)) w)))
          else (None, loc, w))"

text \<open>
  The end of a handler: the exceptions the \<open>except\<close> clause names are swallowed, the
  \<open>finally\<close> block leaves the room and closes the transport.
\<close>

definition escapes :: "py_error option \<Rightarrow> py_error option" where
  "escapes e = (if e = Some IncompleteReadError \<or> e = Some ConnectionError then None else e)"

definition finish :: "py_error option \<Rightarrow> nat \<Rightarrow> conn \<Rightarrow> server \<Rightarrow> conn \<times> server" where
  "finish e c cs w =
     (let w1 = (case c_room cs of
                  Some a \<Rightarrow> if my_pid cs \<noteq> 0 then upd_room a (room_leave (my_pid cs)) w else w
                | None \<Rightarrow> w)
      in (cs\<lparr>pc := Done (escapes e)\<rparr>, w1\<lparr>writers := (writers w1)(c := w_close (writers w1 c))\<rparr>))"

definition set_locals :: "locals \<Rightarrow> conn \<Rightarrow> conn" where
  "set_locals loc cs = cs\<lparr>c_room := fst loc, my_pid := snd loc\<rparr>"

text \<open>
  The \<open>while True\<close> loop, run from the current suspension point to the next one: it goes
  on as long as \<open>readexactly\<close> finds its bytes in the buffer.
\<close>

function handle_loop :: "nat \<Rightarrow> conn \<Rightarrow> server \<Rightarrow> conn \<times> server" where
  "handle_loop c cs w =
     (case pc cs of
        Done e \<Rightarrow> (cs, w)
      | AwaitHeader \<Rightarrow>
          if length (inbuf cs) < 4 then (cs, w)
          else (let cs1 = cs\<lparr>inbuf := drop 4 (inbuf cs)\<rparr>
                in case unpack [FI] (take 4 (inbuf cs)) of
                     Inl e \<Rightarrow> finish (Some e) c cs1 w
                   | Inr vs \<Rightarrow>
                       (let n = nat (vs ! 0)
                        in if n = 0 \<or> n > MAX_FRAME then finish None c cs1 w
                           else handle_loop c (cs1\<lparr>pc := AwaitPayload n\<rparr>) w))
      | AwaitPayload n \<Rightarrow>
          if length (inbuf cs) < n then (cs, w)
          else (let cs1 = cs\<lparr>inbuf := drop n (inbuf cs), pc := AwaitHeader\<rparr>
                in case on_frame c (take n (inbuf cs)) (c_room cs, my_pid cs) w of
                     (None, loc, w1) \<Rightarrow> handle_loop c (set_locals loc cs1) w1
                   | (Some e, loc, w1) \<Rightarrow> finish (Some e) c (set_locals loc cs1) w1))"
  by pat_completeness auto
termination
  by (relation "measure (\<lambda>(c, cs, w). 2 * length (inbuf cs) + (case pc cs of AwaitPayload n \<Rightarrow> 1 | _ \<Rightarrow> 0))")
    (auto simp: set_locals_def)

declare handle_loop.simps [simp del]

text \<open>A handler that can do nothing until more bytes arrive.\<close>

definition blocked :: "conn \<Rightarrow> bool" where
  "blocked cs \<longleftrightarrow> (case pc cs of
     Done e \<Rightarrow> True | AwaitHeader \<Rightarrow> length (inbuf cs) < 4 | AwaitPayload n \<Rightarrow> length (inbuf cs) < n)"

section \<open>Events\<close>

datatype event =
    Connect nat bool
  | Recv nat bytes
  | Eof nat
  | Reset nat
  | Lose nat
  | Break nat
  | Resume nat "rat list"

definition new_conn :: "bool \<Rightarrow> conn" where
  "new_conn sock = \<lparr>inbuf = [], pc = AwaitHeader, c_room = None, my_pid = 0, nodelay = sock\<rparr>"

definition put_handler :: "nat \<Rightarrow> conn \<times> server \<Rightarrow> server" where
  "put_handler c csw = (snd csw)\<lparr>handlers := (handlers (snd csw))(c \<mapsto> fst csw)\<rparr>"

definition loop_held :: "server \<Rightarrow> bool" where
  "loop_held w \<longleftrightarrow> list_ex (\<lambda>r. r_task r = Running) (heap w)"

fun enabled :: "server \<Rightarrow> event \<Rightarrow> bool" where
  "enabled w (Resume a ts) \<longleftrightarrow> a < length (heap w) \<and> (loop_held w \<longrightarrow> r_task (heap w ! a) = Running)"
| "enabled w (Connect c sock) \<longleftrightarrow> \<not> loop_held w \<and> handlers w c = None"
| "enabled w (Recv c bs) \<longleftrightarrow> \<not> loop_held w"
| "enabled w (Eof c) \<longleftrightarrow> \<not> loop_held w"
| "enabled w (Reset c) \<longleftrightarrow> \<not> loop_held w"
| "enabled w (Lose c) \<longleftrightarrow> \<not> loop_held w"
| "enabled w (Break c) \<longleftrightarrow> \<not> loop_held w"

definition stop_handler :: "py_error \<Rightarrow> nat \<Rightarrow> server \<Rightarrow> server" where
  "stop_handler e c w =
     (case handlers w c of
        None \<Rightarrow> w
      | Some cs \<Rightarrow>
          (case pc cs of
             Done _ \<Rightarrow> w
           | _ \<Rightarrow> put_handler c (finish (Some e) c (cs\<lparr>inbuf := []\<rparr>) w)))"

fun fire :: "event \<Rightarrow> server \<Rightarrow> server" where
  "fire (Connect c sock) w =
     w\<lparr>handlers := (handlers w)(c \<mapsto> new_conn sock), writers := (writers w)(c := new_writer)\<rparr>"
| "fire (Recv c bs) w =
     (case handlers w c of
        None \<Rightarrow> w
      | Some cs \<Rightarrow> put_handler c (handle_loop c (cs\<lparr>inbuf := inbuf cs @ bs\<rparr>) w))"
| "fire (Eof c) w = stop_handler IncompleteReadError c w"
| "fire (Reset c) w = stop_handler ConnectionError c w"
| "fire (Lose c) w = w\<lparr>writers := (writers w)(c := (writers w c)\<lparr>w_lost := True\<rparr>)\<rparr>"
| "fire (Break c) w = w\<lparr>writers := (writers w)(c := (writers w c)\<lparr>w_fail := True\<rparr>)\<rparr>"
| "fire (Resume a ts) w =
     (let (r, ws) = resume ts (heap w ! a) (writers w)
      in w\<lparr>heap := (heap w)[a := r], writers := ws\<rparr>)"

definition server_step :: "server \<Rightarrow> event \<Rightarrow> server" where
  "server_step w ev = (if enabled w ev then fire ev w else w)"

fun run :: "server \<Rightarrow> event list \<Rightarrow> server" where
  "run w [] = w"
| "run w (ev # evs) = run (server_step w ev) evs"


section \<open>Well-formed servers\<close>

definition room_good :: "room \<Rightarrow> bool" where
  "room_good r \<longleftrightarrow> (\<exists>n. room_reach n r)"

text \<open>
  The table lists the heap in order under distinct room ids, so the reference a handler
  holds and the one the table holds are the same object.
\<close>

definition rooms_ok :: "server \<Rightarrow> bool" where
  "rooms_ok w \<longleftrightarrow> rooms w = zip (map r_id (heap w)) [0 ..< length (heap w)]
     \<and> distinct (map r_id (heap w)) \<and> (\<forall>r \<in> set (heap w). room_good r)"

definition world_ok :: "server \<Rightarrow> bool" where
  "world_ok w \<longleftrightarrow> in_range FI (next_pid w) \<and> rooms_ok w \<and> (\<forall>c. framed (w_out (writers w c)))"

definition locals_ok :: "server \<Rightarrow> locals \<Rightarrow> bool" where
  "locals_ok w loc \<longleftrightarrow> (\<forall>a. fst loc = Some a \<longrightarrow> a < length (heap w)) \<and> in_range FI (snd loc)"

definition conn_ok :: "server \<Rightarrow> conn \<Rightarrow> bool" where
  "conn_ok w cs \<longleftrightarrow> locals_ok w (c_room cs, my_pid cs)
     \<and> (\<forall>n. pc cs = AwaitPayload n \<longrightarrow> 0 < n \<and> n \<le> MAX_FRAME)
     \<and> (\<forall>e. pc cs = Done (Some e) \<longrightarrow> e = RuntimeError)"

definition server_ok :: "server \<Rightarrow> bool" where
  "server_ok w \<longleftrightarrow> world_ok w \<and> (\<forall>c cs. handlers w c = Some cs \<longrightarrow> conn_ok w cs)"

section \<open>Room methods on the heap\<close>

interpretation join_op: stable_op room_good r_id "\<lambda>r. snd (snd (room_join c ctr r))" for c ctr
  by unfold_locales (auto simp: room_good_def intro: reach_join)

interpretation leave_op: stable_op room_good r_id "room_leave pid" for pid
  by unfold_locales (auto simp: room_good_def intro: reach_leave)

lemma move_fields_ok:
  "in_range FI (unpack_all [FI, Fh, Fh] q ! 0)" "in_range Fh (unpack_all [FI, Fh, Fh] q ! 1)"
  "in_range Fh (unpack_all [FI, Fh, Fh] q ! 2)"
  using fits_unpack_all [of "[FI, Fh, Fh]" q] by (auto simp: fits_def)

lemma room_good_move:
  "room_good r \<Longrightarrow> room_good (room_move pid (unpack_all [FI, Fh, Fh] q ! 0)
     (unpack_all [FI, Fh, Fh] q ! 1) (unpack_all [FI, Fh, Fh] q ! 2) r)"
  unfolding room_good_def using reach_move [OF _ move_fields_ok] by blast

interpretation move_op: stable_op room_good r_id
  "room_move pid (unpack_all [FI, Fh, Fh] q ! 0) (unpack_all [FI, Fh, Fh] q ! 1) (unpack_all [FI, Fh, Fh] q ! 2)"
  for pid q
  by unfold_locales (rule room_good_move, assumption, rule room_ids)

interpretation resume_op: stable_op room_good r_id "\<lambda>r. fst (resume ts r ws)" for ts ws
  by unfold_locales (auto simp: room_good_def resume_id intro: resume_reach)

lemma rooms_ok_op: "stable_op room_good r_id f \<Longrightarrow> rooms_ok w \<Longrightarrow> rooms_ok (upd_room a f w)"
  using stable_op.heap_ok [of room_good r_id f "heap w" a] stable_op.heap_keys [of room_good r_id f "heap w" a]
  by (simp add: rooms_ok_def upd_room_def)

lemmas rooms_ok_ops = join_op.stable_op_axioms [THEN rooms_ok_op] leave_op.stable_op_axioms [THEN rooms_ok_op]
  move_op.stable_op_axioms [THEN rooms_ok_op] resume_op.stable_op_axioms [THEN rooms_ok_op]

lemma get_room_cases:
  assumes "get_room rid w = (a, w1)"
  obtains "dict_get (rooms w) rid = Some a" "w1 = w"
  | "dict_get (rooms w) rid = None" "a = length (heap w)"
    "w1 = w\<lparr>heap := heap w @ [new_room rid (srv_tick w)], rooms := dict_set rid a (rooms w)\<rparr>"
  using assms by (cases "dict_get (rooms w) rid") (auto simp: get_room_def Let_def)

lemma get_room_ok:
  assumes "rooms_ok w" and "in_range FI rid" and "get_room rid w = (a, w1)"
  shows "rooms_ok w1 \<and> a < length (heap w1) \<and> r_id (heap w1 ! a) = rid
    \<and> length (heap w) \<le> length (heap w1) \<and> w1 = w\<lparr>heap := heap w1, rooms := rooms w1\<rparr>
    \<and> take (length (heap w)) (heap w1) = heap w"
proof (cases "dict_get (rooms w) rid")
  case (Some b)
  then have "(rid, b) \<in> set (zip (map r_id (heap w)) [0 ..< length (heap w)])"
    using assms(1) map_of_SomeD by (fastforce simp: rooms_ok_def)
  then show ?thesis using Some assms by (auto simp: get_room_def in_set_zip)
next
  case None
  have ks: "keys (rooms w) = map r_id (heap w)" using assms(1) by (simp add: rooms_ok_def)
  have fresh: "rid \<notin> set (keys (rooms w))" using None by (simp add: map_of_eq_None_iff)
  have "room_good (new_room rid (srv_tick w))"
    using assms(2) reach_new by (auto simp: room_good_def)
  moreover have w1: "a = length (heap w)"
    "w1 = w\<lparr>heap := heap w @ [new_room rid (srv_tick w)], rooms := rooms w @ [(rid, a)]\<rparr>"
    using None assms(3) dict_set_new [OF fresh] by (auto simp: get_room_def Let_def)
  ultimately show ?thesis using assms(1) fresh ks unfolding w1 by (simp add: rooms_ok_def)
qed


section \<open>The handler keeps the server well-formed\<close>

lemma joined_frame_ok:
  assumes "in_range FI pid" and "in_range FI rid"
  shows "joined_frame pid rid = Inr (frame (MSG_JOINED # enc [FI, FI] [pid, rid]))"
    and "payload_ok (MSG_JOINED # enc [FI, FI] [pid, rid])"
proof -
  have fit: "fits [FI, FI] [pid, rid]" using assms by (simp add: fits_def)
  show ok: "payload_ok (MSG_JOINED # enc [FI, FI] [pid, rid])"
    by (simp add: payload_ok_def MAX_FRAME_def)
  show "joined_frame pid rid = Inr (frame (MSG_JOINED # enc [FI, FI] [pid, rid]))"
    using fit pack_length_prefix [OF ok] by (simp add: joined_frame_def pack_eq [of "[FI, FI]"] del: pack.simps enc.simps)
qed

text \<open>What a step of the handler may change of the server, beside the rooms.\<close>

definition grows :: "server \<Rightarrow> server \<Rightarrow> bool" where
  "grows w w' \<longleftrightarrow> length (heap w) \<le> length (heap w') \<and> handlers w' = handlers w \<and> srv_tick w' = srv_tick w"

lemma grows_refl [simp]: "grows w w"
  by (simp add: grows_def)

lemma grows_trans: "grows u v \<Longrightarrow> grows v w \<Longrightarrow> grows u w"
  by (simp add: grows_def)

lemma locals_ok_grows: "grows w w' \<Longrightarrow> locals_ok w loc \<Longrightarrow> locals_ok w' loc"
  by (auto simp: locals_ok_def grows_def)

lemma conn_ok_grows: "grows w w' \<Longrightarrow> conn_ok w cs \<Longrightarrow> conn_ok w' cs"
  using locals_ok_grows by (simp add: conn_ok_def)

lemma upd_room_fields [simp]:
  "next_pid (upd_room a f w) = next_pid w" "writers (upd_room a f w) = writers w"
  "handlers (upd_room a f w) = handlers w" "grows w (upd_room a f w)"
  "length (heap (upd_room a f w)) = length (heap w)" "rooms (upd_room a f w) = rooms w"
  by (simp_all add: upd_room_def grows_def)

lemma world_ok_upd: "world_ok w \<Longrightarrow> stable_op room_good r_id f \<Longrightarrow> world_ok (upd_room a f w)"
  by (simp add: world_ok_def rooms_ok_op)

lemma rooms_ok_frame:
  "rooms_ok (w\<lparr>next_pid := n\<rparr>) = rooms_ok w" "rooms_ok (w\<lparr>writers := ws\<rparr>) = rooms_ok w"
  "rooms_ok (w\<lparr>handlers := hs\<rparr>) = rooms_ok w"
  by (simp_all add: rooms_ok_def)

lemma on_join_eq:
  assumes "get_room rid w = (a, w1)" and "in_range FI rid"
  shows "on_join c rid w =
    (let pid = new_pid (next_pid w1);
         w2 = (upd_room a (\<lambda>r. snd (snd (room_join c (next_pid w1) r))) w1)\<lparr>next_pid := pid\<rparr>
     in case w_write (frame (MSG_JOINED # enc [FI, FI] [pid, rid])) (writers w1 c) of
          Inl e \<Rightarrow> (Some e, (Some a, pid), w2)
        | Inr wr \<Rightarrow> (None, (Some a, pid), w2\<lparr>writers := (writers w1)(c := wr)\<rparr>))"
  using assms joined_frame_ok(1) [OF new_pid_range assms(2)]
  by (simp add: on_join_def room_join_def Let_def upd_room_def del: enc.simps split: sum.split)

lemma on_join_state:
  assumes "get_room rid w = (a, w1)" and "in_range FI rid" and "on_join c rid w = (e, loc, w')"
  shows "heap w' = (heap w1)[a := snd (snd (room_join c (next_pid w1) (heap w1 ! a)))]"
    and "next_pid w' = new_pid (next_pid w1)" and "loc = (Some a, new_pid (next_pid w1))"
  using assms(3) unfolding on_join_eq [OF assms(1,2)]
  by (auto simp: Let_def upd_room_def split: sum.splits)

lemma on_join_ok:
  assumes "world_ok w" and "in_range FI rid" and "on_join c rid w = (e, loc, w')"
  shows "world_ok w' \<and> locals_ok w' loc \<and> grows w w' \<and> (e = None \<or> e = Some RuntimeError)"
proof -
  obtain a w1 where g: "get_room rid w = (a, w1)" by fastforce
  from get_room_ok [OF _ assms(2) g] assms(1)
  have w1: "rooms_ok w1" "a < length (heap w1)" "length (heap w) \<le> length (heap w1)"
    and fr: "w1 = w\<lparr>heap := heap w1, rooms := rooms w1\<rparr>" by (simp_all add: world_ok_def)
  define w2 where "w2 = (upd_room a (\<lambda>r. snd (snd (room_join c (next_pid w1) r))) w1)\<lparr>next_pid := new_pid (next_pid w1)\<rparr>"
  have w2: "rooms_ok w2" unfolding w2_def using w1(1) rooms_ok_ops(1) by (simp add: rooms_ok_frame)
  have keep: "handlers w1 = handlers w" "srv_tick w1 = srv_tick w" "writers w1 = writers w"
    by (subst fr, simp)+
  then have keep2: "grows w w2" "a < length (heap w2)" "writers w2 = writers w" "in_range FI (next_pid w2)"
    using w1 new_pid_range by (simp_all add: w2_def grows_def upd_room_def)
  let ?f = "frame (MSG_JOINED # enc [FI, FI] [new_pid (next_pid w1), rid])"
  have pok: "payload_ok (MSG_JOINED # enc [FI, FI] [new_pid (next_pid w1), rid])"
    by (rule joined_frame_ok [OF new_pid_range assms(2)])
  have fr_ok: "framed (w_out (writers w c))" for c using assms(1) by (simp add: world_ok_def)
  have j: "on_join c rid w = (case w_write ?f (writers w c) of
      Inl e \<Rightarrow> (Some e, (Some a, new_pid (next_pid w1)), w2)
    | Inr wr \<Rightarrow> (None, (Some a, new_pid (next_pid w1)), w2\<lparr>writers := (writers w)(c := wr)\<rparr>))"
    unfolding on_join_eq [OF g assms(2)] Let_def w2_def keep ..
  show ?thesis
  proof (cases "w_write ?f (writers w c)")
    case (Inl x)
    then have "x = RuntimeError" by (auto simp: w_write_def split: if_splits)
    then show ?thesis using j Inl assms(3) w2 keep2 fr_ok new_pid_range
      by (auto simp: world_ok_def locals_ok_def)
  next
    case (Inr wr)
    then have "framed (w_out wr)" by (rule asyncio.wr_framed [OF fr_ok pok])
    then show ?thesis using j Inr assms(3) w2 keep2 fr_ok new_pid_range
      by (auto simp: world_ok_def locals_ok_def grows_def rooms_ok_frame)
  qed
qed

lemma unpack_from_1: "length p \<ge> 1 + calcsize fs \<Longrightarrow> unpack_from fs p 1 = Inr (unpack_all fs (drop 1 p))"
  by (simp add: unpack_from_def)

lemma on_frame_join:
  assumes "5 \<le> length (t # q)" and "t = MSG_JOIN"
  shows "on_frame c (t # q) loc w = on_join c (unpack_all [FI] q ! 0) w"
    and "in_range FI (unpack_all [FI] q ! 0)"
  using assms unpack_from_1 [of "[FI]" "t # q"] fits_unpack_all [of "[FI]" q]
  by (simp_all add: on_frame_def fits_def)

lemma on_frame_move:
  assumes "9 \<le> length (t # q)" and "t = MSG_MOVE" and "loc = (Some a, pid)"
  shows "on_frame c (t # q) loc w =
    (None, loc, upd_room a (room_move pid (unpack_all [FI, Fh, Fh] q ! 0) (unpack_all [FI, Fh, Fh] q ! 1)
      (unpack_all [FI, Fh, Fh] q ! 2)) w)"
  using assms unpack_from_1 [of "[FI, Fh, Fh]" "t # q"]
  by (simp add: on_frame_def msg_defs del: unpack_all.simps)

lemma on_frame_skip:
  assumes "\<not> (t = MSG_JOIN \<and> 5 \<le> length (t # q))" and "\<not> (t = MSG_MOVE \<and> 9 \<le> length (t # q) \<and> fst loc \<noteq> None)"
  shows "on_frame c (t # q) loc w = (None, loc, w)"
  using assms unfolding on_frame_def by (cases "fst loc") (auto simp del: list.size)

lemma on_frame_cases [case_names join move skip]:
  assumes "p \<noteq> []"
  obtains t q where "p = t # q" "5 \<le> length p" "t = MSG_JOIN"
      "on_frame c p loc w = on_join c (unpack_all [FI] q ! 0) w" "in_range FI (unpack_all [FI] q ! 0)"
  | t q a pid where "p = t # q" "9 \<le> length p" "t = MSG_MOVE" "loc = (Some a, pid)"
      "on_frame c p loc w = (None, loc, upd_room a (room_move pid (unpack_all [FI, Fh, Fh] q ! 0)
        (unpack_all [FI, Fh, Fh] q ! 1) (unpack_all [FI, Fh, Fh] q ! 2)) w)"
  | "on_frame c p loc w = (None, loc, w)"
proof -
  obtain t q where p: "p = t # q" using assms by (cases p) auto
  obtain rm pid where loc: "loc = (rm, pid)" by (cases loc)
  consider "5 \<le> length (t # q) \<and> t = MSG_JOIN" | a where "9 \<le> length (t # q) \<and> t = MSG_MOVE" "rm = Some a"
    | "\<not> (t = MSG_JOIN \<and> 5 \<le> length (t # q))" "\<not> (t = MSG_MOVE \<and> 9 \<le> length (t # q) \<and> fst loc \<noteq> None)"
    unfolding loc by fastforce
  then show thesis
  proof cases
    case 1
    then show ?thesis using that(1) [OF p] on_frame_join(1) [of t q c loc w] on_frame_join(2) [of t q] p by simp
  next
    case 2
    then show ?thesis using that(2) [OF p] on_frame_move [of t q loc a pid c w] p loc by blast
  next
    case 3
    then show ?thesis using that(3) on_frame_skip p by simp
  qed
qed

lemma on_frame_ok:
  assumes "world_ok w" and "locals_ok w loc" and "p \<noteq> []" and "on_frame c p loc w = (e, loc', w')"
  shows "world_ok w' \<and> locals_ok w' loc' \<and> grows w w' \<and> (e = None \<or> e = Some RuntimeError)"
  using assms(3)
proof (cases rule: on_frame_cases [where c = c and loc = loc and w = w])
  case (join t q)
  then show ?thesis using on_join_ok assms(1,4) by simp
next
  case (move t q a pid)
  then show ?thesis
    using assms world_ok_upd [OF assms(1) move_op.stable_op_axioms] locals_ok_grows [OF upd_room_fields(4) assms(2)]
    by (auto simp del: unpack_all.simps)
next
  case skip
  then show ?thesis using assms by simp
qed

lemma finish_ok:
  assumes "world_ok w" and "conn_ok w cs" and "e \<in> {None, Some RuntimeError, Some IncompleteReadError, Some ConnectionError}"
    and "finish e c cs w = (cs', w')"
  shows "world_ok w' \<and> conn_ok w' cs' \<and> grows w w'"
proof -
  define w1 where "w1 = (case c_room cs of
      Some a \<Rightarrow> if my_pid cs \<noteq> 0 then upd_room a (room_leave (my_pid cs)) w else w | None \<Rightarrow> w)"
  have "world_ok w1" "grows w w1"
    using assms(1) world_ok_upd [OF assms(1) leave_op.stable_op_axioms] by (auto simp: w1_def split: option.split)
  moreover from this have "conn_ok w1 cs" using conn_ok_grows assms(2) by blast
  ultimately show ?thesis using assms(3,4)
    by (auto simp: finish_def w1_def [symmetric] world_ok_def conn_ok_def locals_ok_def grows_def rooms_ok_frame
        w_close_def escapes_def)
qed


lemma unpack_header: "4 \<le> length b \<Longrightarrow> unpack [FI] (take 4 b) = Inr [be_val (take 4 b)]"
  using unpack_field_range [of "take 4 b" FI] be_val_bounds [of "take 4 b"]
  by (auto simp: unpack_def unpack_field_def Let_def)

lemma handle_loop_blocked: "blocked cs \<Longrightarrow> handle_loop c cs w = (cs, w)"
  by (cases "pc cs") (simp_all add: handle_loop.simps [of c cs w] blocked_def)

lemma handle_loop_header:
  assumes "pc cs = AwaitHeader" and "4 \<le> length (inbuf cs)" and "n = nat (be_val (take 4 (inbuf cs)))"
  shows "handle_loop c cs w =
    (if n = 0 \<or> n > MAX_FRAME then finish None c (cs\<lparr>inbuf := drop 4 (inbuf cs)\<rparr>) w
     else handle_loop c (cs\<lparr>inbuf := drop 4 (inbuf cs), pc := AwaitPayload n\<rparr>) w)"
  using assms by (simp add: handle_loop.simps [of c cs w] unpack_header Let_def)

lemma handle_loop_payload:
  assumes "pc cs = AwaitPayload n" and "n \<le> length (inbuf cs)"
    and "on_frame c (take n (inbuf cs)) (c_room cs, my_pid cs) w = (e, loc, w1)"
  shows "handle_loop c cs w =
    (let cs1 = set_locals loc (cs\<lparr>inbuf := drop n (inbuf cs), pc := AwaitHeader\<rparr>)
     in case e of None \<Rightarrow> handle_loop c cs1 w1 | Some x \<Rightarrow> finish (Some x) c cs1 w1)"
  using assms by (simp add: handle_loop.simps [of c cs w] Let_def split: option.split)

text \<open>An induction rule that follows the three ways the loop goes on or stops.\<close>

lemma handle_loop_induct [case_names wait reject header frame fail]:
  assumes wait: "\<And>cs w. blocked cs \<Longrightarrow> P cs w"
    and reject: "\<And>cs w n. pc cs = AwaitHeader \<Longrightarrow> 4 \<le> length (inbuf cs) \<Longrightarrow>
      n = nat (be_val (take 4 (inbuf cs))) \<Longrightarrow> n = 0 \<or> n > MAX_FRAME \<Longrightarrow> P cs w"
    and header: "\<And>cs w n. pc cs = AwaitHeader \<Longrightarrow> 4 \<le> length (inbuf cs) \<Longrightarrow>
      n = nat (be_val (take 4 (inbuf cs))) \<Longrightarrow> 0 < n \<Longrightarrow> n \<le> MAX_FRAME \<Longrightarrow>
      P (cs\<lparr>inbuf := drop 4 (inbuf cs), pc := AwaitPayload n\<rparr>) w \<Longrightarrow> P cs w"
    and frame: "\<And>cs w n loc w1. pc cs = AwaitPayload n \<Longrightarrow> n \<le> length (inbuf cs) \<Longrightarrow>
      on_frame c (take n (inbuf cs)) (c_room cs, my_pid cs) w = (None, loc, w1) \<Longrightarrow>
      P (set_locals loc (cs\<lparr>inbuf := drop n (inbuf cs), pc := AwaitHeader\<rparr>)) w1 \<Longrightarrow> P cs w"
    and fail: "\<And>cs w n x loc w1. pc cs = AwaitPayload n \<Longrightarrow> n \<le> length (inbuf cs) \<Longrightarrow>
      on_frame c (take n (inbuf cs)) (c_room cs, my_pid cs) w = (Some x, loc, w1) \<Longrightarrow> P cs w"
  shows "P cs w"
proof (induction "2 * length (inbuf cs) + (case pc cs of AwaitPayload n \<Rightarrow> 1 | _ \<Rightarrow> 0)"
    arbitrary: cs w rule: less_induct)
  case (less cs w)
  show ?case
  proof (cases "pc cs")
    case (Done e)
    then show ?thesis using wait by (simp add: blocked_def)
  next
    case AwaitHeader
    show ?thesis
    proof (cases "length (inbuf cs) < 4")
      case True
      then show ?thesis using wait AwaitHeader by (simp add: blocked_def)
    next
      case False
      let ?n = "nat (be_val (take 4 (inbuf cs)))"
      have "P (cs\<lparr>inbuf := drop 4 (inbuf cs), pc := AwaitPayload ?n\<rparr>) w"
        using AwaitHeader False by (intro less) auto
      then show ?thesis
        using reject [OF AwaitHeader _ refl] header [OF AwaitHeader _ refl] False by (cases "?n = 0 \<or> ?n > MAX_FRAME") auto
    qed
  next
    case (AwaitPayload n)
    obtain e loc w1 where f: "on_frame c (take n (inbuf cs)) (c_room cs, my_pid cs) w = (e, loc, w1)"
      by (cases "on_frame c (take n (inbuf cs)) (c_room cs, my_pid cs) w") auto
    have "P (set_locals loc (cs\<lparr>inbuf := drop n (inbuf cs), pc := AwaitHeader\<rparr>)) w1"
      using AwaitPayload by (intro less) (simp add: set_locals_def)
    then show ?thesis
      using wait [of cs] frame fail f AwaitPayload by (cases "length (inbuf cs) < n"; cases e) (auto simp: blocked_def)
  qed
qed

lemma conn_ok_set_locals:
  "conn_ok w cs \<Longrightarrow> locals_ok w' loc \<Longrightarrow> conn_ok w' (set_locals loc (cs\<lparr>inbuf := b, pc := AwaitHeader\<rparr>))"
  by (cases loc) (simp add: conn_ok_def set_locals_def)

lemma handle_loop_ok:
  assumes "world_ok w" and "conn_ok w cs" and "handle_loop c cs w = (cs', w')"
  shows "world_ok w' \<and> conn_ok w' cs' \<and> grows w w'"
  using assms
proof (induction cs w rule: handle_loop_induct [where c = c])
  case (wait cs w)
  then show ?case by (simp add: handle_loop_blocked)
next
  case (reject cs w n)
  have "conn_ok w (cs\<lparr>inbuf := drop 4 (inbuf cs)\<rparr>)" using reject by (simp add: conn_ok_def)
  moreover have "finish None c (cs\<lparr>inbuf := drop 4 (inbuf cs)\<rparr>) w = (cs', w')"
    using handle_loop_header [OF reject(1-3), of c w] reject by simp
  ultimately show ?case using finish_ok [OF reject.prems(1), of _ None] by blast
next
  case (header cs w n)
  have "conn_ok w (cs\<lparr>inbuf := drop 4 (inbuf cs), pc := AwaitPayload n\<rparr>)"
    using header by (simp add: conn_ok_def)
  then show ?case using header handle_loop_header [OF header(1-3), of c w] by simp
next
  case (frame cs w n loc w1)
  have "locals_ok w (c_room cs, my_pid cs)" "take n (inbuf cs) \<noteq> []"
    using frame(1,2) frame.prems(2) by (auto simp: conn_ok_def)
  then have w1: "world_ok w1 \<and> locals_ok w1 loc \<and> grows w w1"
    using on_frame_ok [OF frame.prems(1) _ _ frame(3)] by blast
  then have "conn_ok w1 (set_locals loc (cs\<lparr>inbuf := drop n (inbuf cs), pc := AwaitHeader\<rparr>))"
    using conn_ok_set_locals [OF frame.prems(2)] by blast
  then have "world_ok w' \<and> conn_ok w' cs' \<and> grows w1 w'"
    using frame.IH w1 handle_loop_payload [OF frame(1-3)] frame.prems(3) by (simp add: Let_def)
  then show ?case using w1 grows_trans by blast
next
  case (fail cs w n x loc w1)
  have "locals_ok w (c_room cs, my_pid cs)" "take n (inbuf cs) \<noteq> []"
    using fail(1,2) fail.prems(2) by (auto simp: conn_ok_def)
  then have w1: "world_ok w1 \<and> locals_ok w1 loc \<and> grows w w1 \<and> x = RuntimeError"
    using on_frame_ok [OF fail.prems(1) _ _ fail(3)] by blast
  let ?cs = "set_locals loc (cs\<lparr>inbuf := drop n (inbuf cs), pc := AwaitHeader\<rparr>)"
  have f: "finish (Some x) c ?cs w1 = (cs', w')"
    using handle_loop_payload [OF fail(1-3)] fail.prems(3) by (simp add: Let_def)
  have "conn_ok w1 ?cs" using conn_ok_set_locals [OF fail.prems(2)] w1 by blast
  then have "world_ok w' \<and> conn_ok w' cs' \<and> grows w1 w'" using finish_ok [OF _ _ _ f] w1 by simp
  then show ?case using w1 grows_trans by blast
qed

end
