(* ===== verification/Handler_Stream.thy ===== *)
theory Handler_Stream
  imports Server
begin

text \<open>
  The read loop of \<open>handle\<close> against its specification: on a stream of whole frames it
  dispatches the payloads one by one (\<open>run_frames\<close>), and what it does does not depend on
  how TCP cuts the stream into segments.
\<close>

section \<open>Specification\<close>

fun run_frames :: "nat \<Rightarrow> bytes list \<Rightarrow> locals \<Rightarrow> server \<Rightarrow> py_error option \<times> locals \<times> server" where
  "run_frames c [] loc w = (None, loc, w)"
| "run_frames c (p # ps) loc w =
     (case on_frame c p loc w of
        (None, loc1, w1) \<Rightarrow> run_frames c ps loc1 w1
      | (Some e, loc1, w1) \<Rightarrow> (Some e, loc1, w1))"

section \<open>Lemmas\<close>

lemma conn_swap [simp]: "cs\<lparr>pc := a, inbuf := b\<rparr> = cs\<lparr>inbuf := b, pc := a\<rparr>"
  by (cases cs) simp

lemma finish_inbuf:
  "finish e c (cs\<lparr>inbuf := b\<rparr>) w = (fst (finish e c cs w)\<lparr>inbuf := b\<rparr>, snd (finish e c cs w))"
  by (simp add: finish_def Let_def split: option.split)

lemma finish_pc: "pc (fst (finish e c cs w)) = Done (escapes e)"
  by (simp add: finish_def Let_def)

lemma set_locals_inbuf [simp]:
  "inbuf (set_locals loc cs) = inbuf cs" "pc (set_locals loc cs) = pc cs"
  "(set_locals loc cs)\<lparr>inbuf := b\<rparr> = set_locals loc (cs\<lparr>inbuf := b\<rparr>)"
  "c_room (set_locals loc cs) = fst loc" "my_pid (set_locals loc cs) = snd loc"
  "set_locals loc' (set_locals loc cs) = set_locals loc' cs"
  by (simp_all add: set_locals_def)

lemma finish_then_bytes:
  assumes "finish e c cs w = (cs1, w1)"
  shows "handle_loop c (cs1\<lparr>inbuf := inbuf cs1 @ b\<rparr>) w1 = finish e c (cs\<lparr>inbuf := inbuf cs @ b\<rparr>) w"
proof -
  have cs1: "pc cs1 = Done (escapes e)" "inbuf cs1 = inbuf cs"
    using assms by (auto simp: finish_def Let_def)
  then have "handle_loop c (cs1\<lparr>inbuf := inbuf cs1 @ b\<rparr>) w1 = (cs1\<lparr>inbuf := inbuf cs1 @ b\<rparr>, w1)"
    by (intro handle_loop_blocked) (simp add: blocked_def)
  then show ?thesis unfolding finish_inbuf assms cs1(2) by simp
qed

lemma handle_loop_append:
  "handle_loop c (cs\<lparr>inbuf := inbuf cs @ b\<rparr>) w =
     (case handle_loop c cs w of (cs1, w1) \<Rightarrow> handle_loop c (cs1\<lparr>inbuf := inbuf cs1 @ b\<rparr>) w1)"
proof (induction cs w rule: handle_loop_induct [where c = c])
  case (wait cs w)
  then show ?case by (simp add: handle_loop_blocked)
next
  case (reject cs w n)
  obtain cs1 w1 where f: "finish None c (cs\<lparr>inbuf := drop 4 (inbuf cs)\<rparr>) w = (cs1, w1)" by fastforce
  have "handle_loop c cs w = (cs1, w1)" using handle_loop_header [OF reject(1-3), of c w] reject(4) f by simp
  moreover have "handle_loop c (cs\<lparr>inbuf := inbuf cs @ b\<rparr>) w =
      finish None c (cs\<lparr>inbuf := drop 4 (inbuf cs) @ b\<rparr>) w"
    using handle_loop_header [of "cs\<lparr>inbuf := inbuf cs @ b\<rparr>" n c w] reject by simp
  ultimately show ?case using finish_then_bytes [OF f, of b] by simp
next
  case (header cs w n)
  have "handle_loop c (cs\<lparr>inbuf := inbuf cs @ b\<rparr>) w =
      handle_loop c (cs\<lparr>inbuf := drop 4 (inbuf cs) @ b, pc := AwaitPayload n\<rparr>) w"
    using handle_loop_header [of "cs\<lparr>inbuf := inbuf cs @ b\<rparr>" n c w] header by simp
  then show ?case using header handle_loop_header [OF header(1-3), of c w] by simp
next
  case (frame cs w n loc w1)
  have "handle_loop c (cs\<lparr>inbuf := inbuf cs @ b\<rparr>) w =
      handle_loop c (set_locals loc (cs\<lparr>inbuf := drop n (inbuf cs) @ b, pc := AwaitHeader\<rparr>)) w1"
    using handle_loop_payload [of "cs\<lparr>inbuf := inbuf cs @ b\<rparr>" n c w None loc w1] frame by simp
  then show ?case using frame handle_loop_payload [OF frame(1-3)] by simp
next
  case (fail cs w n x loc w1)
  let ?cs = "set_locals loc (cs\<lparr>inbuf := drop n (inbuf cs), pc := AwaitHeader\<rparr>)"
  obtain cs2 w2 where f: "finish (Some x) c ?cs w1 = (cs2, w2)" by fastforce
  have "handle_loop c cs w = (cs2, w2)" using handle_loop_payload [OF fail(1-3)] f by simp
  moreover have "handle_loop c (cs\<lparr>inbuf := inbuf cs @ b\<rparr>) w =
      finish (Some x) c (?cs\<lparr>inbuf := inbuf ?cs @ b\<rparr>) w1"
    using handle_loop_payload [of "cs\<lparr>inbuf := inbuf cs @ b\<rparr>" n c w "Some x" loc w1] fail by simp
  ultimately show ?case using finish_then_bytes [OF f, of b] by simp
qed

text \<open>The handler does not look at the other handlers.\<close>

abbreviation with_handlers :: "(nat \<Rightarrow> conn option) \<Rightarrow> server \<Rightarrow> server" where
  "with_handlers hs w \<equiv> w\<lparr>handlers := hs\<rparr>"

lemma get_room_handlers:
  "get_room rid (with_handlers hs w) = apsnd (with_handlers hs) (get_room rid w)"
  by (simp add: get_room_def Let_def split: option.split)

lemma on_join_handlers:
  "on_join c rid (with_handlers hs w) = apsnd (apsnd (with_handlers hs)) (on_join c rid w)"
  by (cases "get_room rid w")
    (simp add: on_join_def get_room_handlers Let_def room_join_def split: sum.split)

lemma on_frame_handlers:
  "on_frame c p loc (with_handlers hs w) = apsnd (apsnd (with_handlers hs)) (on_frame c p loc w)"
  by (simp add: on_frame_def on_join_handlers upd_room_def split: list.split sum.split option.split)

lemma finish_handlers: "finish e c cs (with_handlers hs w) = apsnd (with_handlers hs) (finish e c cs w)"
  by (simp add: finish_def Let_def upd_room_def split: option.split)

lemma handle_loop_handlers:
  "handle_loop c cs (with_handlers hs w) = apsnd (with_handlers hs) (handle_loop c cs w)"
proof (induction cs w rule: handle_loop_induct [where c = c])
  case (wait cs w)
  then show ?case by (simp add: handle_loop_blocked)
next
  case (reject cs w n)
  then show ?case using handle_loop_header [OF reject(1-3), of c] by (simp add: finish_handlers)
next
  case (header cs w n)
  then show ?case using handle_loop_header [OF header(1-3), of c] by simp
next
  case (frame cs w n loc w1)
  have "on_frame c (take n (inbuf cs)) (c_room cs, my_pid cs) (with_handlers hs w) = (None, loc, with_handlers hs w1)"
    using frame(3) by (simp add: on_frame_handlers)
  then show ?case
    using frame handle_loop_payload [OF frame(1-3)] handle_loop_payload [OF frame(1,2)] by simp
next
  case (fail cs w n x loc w1)
  have "on_frame c (take n (inbuf cs)) (c_room cs, my_pid cs) (with_handlers hs w) = (Some x, loc, with_handlers hs w1)"
    using fail(3) by (simp add: on_frame_handlers)
  then show ?case
    using fail handle_loop_payload [OF fail(1-3)] handle_loop_payload [OF fail(1,2)] by (simp add: finish_handlers)
qed

lemma handle_loop_keeps_handlers: "handlers (snd (handle_loop c cs w)) = handlers w"
  using handle_loop_handlers [of c cs "handlers w" w]
  by (metis (mono_tags, lifting) server.select_convs(5) server.surjective server.update_convs(5) snd_apsnd)

lemma handle_loop_frame:
  assumes "pc cs = AwaitHeader" and "payload_ok p"
  shows "handle_loop c (cs\<lparr>inbuf := frame p @ rest\<rparr>) w =
    (case on_frame c p (c_room cs, my_pid cs) w of
       (None, loc, w1) \<Rightarrow> handle_loop c (set_locals loc (cs\<lparr>inbuf := rest\<rparr>)) w1
     | (Some e, loc, w1) \<Rightarrow> finish (Some e) c (set_locals loc (cs\<lparr>inbuf := rest\<rparr>)) w1)"
proof -
  have len: "0 < length p" "length p \<le> MAX_FRAME" using assms(2) by (auto simp: payload_ok_def)
  have n: "nat (be_val (take 4 (frame p @ rest))) = length p"
    using len by (simp add: frame_def be_val_be_bytes MAX_FRAME_def)
  obtain e loc w1 where f: "on_frame c p (c_room cs, my_pid cs) w = (e, loc, w1)"
    by (cases "on_frame c p (c_room cs, my_pid cs) w") auto
  have "handle_loop c (cs\<lparr>inbuf := frame p @ rest\<rparr>) w =
      handle_loop c (cs\<lparr>inbuf := p @ rest, pc := AwaitPayload (length p)\<rparr>) w"
    by (subst handle_loop_header [where n = "length p"]) (use assms(1) n len in \<open>auto simp: frame_def\<close>)
  also have "\<dots> = (let cs1 = set_locals loc (cs\<lparr>inbuf := rest, pc := AwaitHeader\<rparr>)
     in case e of None \<Rightarrow> handle_loop c cs1 w1 | Some x \<Rightarrow> finish (Some x) c cs1 w1)"
    using handle_loop_payload [of "cs\<lparr>inbuf := p @ rest, pc := AwaitPayload (length p)\<rparr>" "length p" c w e loc w1] f
    by simp
  moreover have "cs\<lparr>inbuf := rest, pc := AwaitHeader\<rparr> = cs\<lparr>inbuf := rest\<rparr>"
    using assms(1) by (cases cs) simp
  ultimately show ?thesis using f by (cases e) (simp_all add: Let_def)
qed


lemma handle_loop_frames:
  assumes "pc cs = AwaitHeader" and "\<forall>p \<in> set ps. payload_ok p"
  shows "case run_frames c ps (c_room cs, my_pid cs) w of
      (None, loc, w1) \<Rightarrow> handle_loop c (cs\<lparr>inbuf := concat (map frame ps) @ rest\<rparr>) w =
        handle_loop c (set_locals loc (cs\<lparr>inbuf := rest\<rparr>)) w1
    | (Some e, loc, w1) \<Rightarrow> \<exists>b. handle_loop c (cs\<lparr>inbuf := concat (map frame ps) @ rest\<rparr>) w =
        finish (Some e) c (set_locals loc (cs\<lparr>inbuf := b\<rparr>)) w1"
  using assms
proof (induction ps arbitrary: cs w)
  case Nil
  then show ?case by (simp add: set_locals_def)
next
  case (Cons p ps)
  obtain e loc w1 where f: "on_frame c p (c_room cs, my_pid cs) w = (e, loc, w1)"
    by (cases "on_frame c p (c_room cs, my_pid cs) w") auto
  have h: "handle_loop c (cs\<lparr>inbuf := concat (map frame (p # ps)) @ rest\<rparr>) w =
    (case e of None \<Rightarrow> handle_loop c (set_locals loc (cs\<lparr>inbuf := concat (map frame ps) @ rest\<rparr>)) w1
     | Some x \<Rightarrow> finish (Some x) c (set_locals loc (cs\<lparr>inbuf := concat (map frame ps) @ rest\<rparr>)) w1)"
    using handle_loop_frame [of cs p c "concat (map frame ps) @ rest" w] Cons.prems f
    by (simp split: option.split)
  show ?case
  proof (cases e)
    case None
    then show ?thesis
      using Cons.IH [of "set_locals loc cs" w1] Cons.prems f h by (auto split: prod.splits option.splits)
  next
    case (Some x)
    then show ?thesis using f h by auto
  qed
qed

lemma set_put_handler [simp]: "handlers (put_handler c csw) c = Some (fst csw)"
  by (simp add: put_handler_def)

section \<open>Properties of the read loop\<close>

text \<open>C5: Frames. On a stream of frames of acceptable length (1 byte to 1 MiB) the read loop
  dispatches exactly the payloads, in order, and then behaves as it does on what follows
  them; if a payload makes it raise, it ends there, in the \<open>finally\<close> block, with the local
  variables of that moment.\<close>

theorem handle_dispatches_frames:
  assumes "pc cs = AwaitHeader" and "\<forall>p \<in> set ps. payload_ok p"
  shows "case run_frames c ps (c_room cs, my_pid cs) w of
      (None, loc, w1) \<Rightarrow> handle_loop c (cs\<lparr>inbuf := concat (map frame ps) @ rest\<rparr>) w =
        handle_loop c (set_locals loc (cs\<lparr>inbuf := rest\<rparr>)) w1
    | (Some e, loc, w1) \<Rightarrow> \<exists>b. handle_loop c (cs\<lparr>inbuf := concat (map frame ps) @ rest\<rparr>) w =
        finish (Some e) c (set_locals loc (cs\<lparr>inbuf := b\<rparr>)) w1"
  using assms by (rule handle_loop_frames)

theorem handle_dispatches_frames_witness:
  "case run_frames 3 [[MSG_JOIN, 0, 0, 0, 7], [9]] (None, 0) (init_server 1) of
      (None, loc, w1) \<Rightarrow> handle_loop 3 ((new_conn True)\<lparr>inbuf := concat (map frame [[MSG_JOIN, 0, 0, 0, 7], [9]]) @ [0]\<rparr>)
          (init_server 1) =
        handle_loop 3 (set_locals loc ((new_conn True)\<lparr>inbuf := [0]\<rparr>)) w1
    | (Some e, loc, w1) \<Rightarrow> \<exists>b. handle_loop 3
          ((new_conn True)\<lparr>inbuf := concat (map frame [[MSG_JOIN, 0, 0, 0, 7], [9]]) @ [0]\<rparr>) (init_server 1) =
        finish (Some e) 3 (set_locals loc ((new_conn True)\<lparr>inbuf := b\<rparr>)) w1"
proof -
  have n: "pc (new_conn True) = AwaitHeader" "c_room (new_conn True) = None" "my_pid (new_conn True) = 0"
    by (simp_all add: new_conn_def)
  show ?thesis
    using handle_dispatches_frames [OF n(1), where ps = "[[MSG_JOIN, 0, 0, 0, 7], [9]]" and c = 3
        and w = "init_server 1" and rest = "[0]"]
    unfolding n(2,3) by (simp add: payload_ok_def MAX_FRAME_def)
qed

text \<open>C9: Segmentation. Receiving bytes in two pieces has the same effect on the whole server
  as receiving them at once, so TCP segmentation is invisible.\<close>

theorem recv_segmentation: "fire (Recv c (a @ b)) w = fire (Recv c b) (fire (Recv c a) w)"
proof (cases "handlers w c")
  case (Some cs)
  obtain cs1 w1 where h: "handle_loop c (cs\<lparr>inbuf := inbuf cs @ a\<rparr>) w = (cs1, w1)" by fastforce
  have "fire (Recv c (a @ b)) w = put_handler c (handle_loop c (cs1\<lparr>inbuf := inbuf cs1 @ b\<rparr>) w1)"
    using handle_loop_append [of c "cs\<lparr>inbuf := inbuf cs @ a\<rparr>" b w] h Some by simp
  also have "\<dots> = put_handler c (handle_loop c (cs1\<lparr>inbuf := inbuf cs1 @ b\<rparr>) (with_handlers ((handlers w1)(c \<mapsto> cs1)) w1))"
  proof -
    obtain cs2 w2 where h2: "handle_loop c (cs1\<lparr>inbuf := inbuf cs1 @ b\<rparr>) w1 = (cs2, w2)" by fastforce
    have hs: "handlers w2 = handlers w1"
      using handle_loop_keeps_handlers [of c "cs1\<lparr>inbuf := inbuf cs1 @ b\<rparr>" w1] h2 by simp
    show ?thesis by (simp add: handle_loop_handlers put_handler_def h2 hs)
  qed
  also have "\<dots> = fire (Recv c b) (fire (Recv c a) w)"
    using h Some by (simp add: put_handler_def)
  finally show ?thesis .
qed simp

text \<open>Bounded work per event. Whatever arrives, the read loop returns to the event loop:
  it ends suspended on bytes that are not there yet, or finished.\<close>

theorem handle_loop_suspends: "blocked (fst (handle_loop c cs w))"
proof (induction cs w rule: handle_loop_induct [where c = c])
  case (wait cs w)
  then show ?case by (simp add: handle_loop_blocked)
next
  case (reject cs w n)
  then show ?case using handle_loop_header [OF reject(1-3), of c w] by (simp add: blocked_def finish_pc)
next
  case (header cs w n)
  then show ?case using handle_loop_header [OF header(1-3), of c w] by simp
next
  case (frame cs w n loc w1)
  then show ?case using handle_loop_payload [OF frame(1-3)] by simp
next
  case (fail cs w n x loc w1)
  then show ?case using handle_loop_payload [OF fail(1-3)] by (simp add: blocked_def finish_pc)
qed

end
