(* ===== verification/Server_Runs.thy ===== *)
theory Server_Runs
  imports Handler_Stream
begin

text \<open>
  Executions of the server: the well-formedness of every reachable state, which errors can
  end a handler, what a disconnect does, and what happens to a room whose tick raised.
  Player ids are in theory \<open>Server_Pids\<close>.
\<close>

section \<open>Every reachable server is well-formed\<close>

lemma run_append: "run w (es @ fs) = run (run w es) fs"
  by (induction es arbitrary: w) auto

lemma server_ok_init: "server_ok (init_server tk)"
  by (simp add: server_ok_def world_ok_def rooms_ok_def init_server_def new_writer_def in_range_def)

lemma server_ok_put:
  assumes "server_ok w" and "world_ok w'" and "conn_ok w' cs'" and "grows w w'"
  shows "server_ok (put_handler c (cs', w'))"
proof -
  have eq: "conn_ok (w'\<lparr>handlers := hs\<rparr>) d = conn_ok w' d" for hs d
    by (simp add: conn_ok_def locals_ok_def)
  show ?thesis
    using assms conn_ok_grows [OF assms(4)]
    by (auto simp: server_ok_def put_handler_def world_ok_def rooms_ok_frame eq grows_def)
qed

lemma broadcast_framed:
  assumes "payload_ok p" and "\<And>c. framed (w_out (ws c))"
  shows "framed (w_out (broadcast (frame p) cs ws c))"
  using assms(2)
proof (induction cs arbitrary: ws)
  case (Cons d cs)
  show ?case
  proof (cases "w_write (frame p) (ws d)")
    case (Inr wr)
    then have "framed (w_out wr)" by (rule asyncio.wr_framed [OF Cons.prems assms(1)])
    then show ?thesis using Inr Cons by simp
  qed (use Cons in simp)
qed simp

lemma step_framed:
  assumes "room_ok r" and "\<And>c. framed (w_out (ws c))"
  shows "framed (w_out (snd (snd (step r ws)) c))"
proof (cases "snapshot_ok (tick_room r)")
  case True
  have "payload_ok (snapshot_payload (tick_no (tick_room r)) (map advance (vals (players r))))"
    using snapshot_payload_ok [OF room_ok_tick [OF assms(1)] True] by simp
  then show ?thesis using True assms by (simp add: step_cases broadcast_framed)
qed (use assms in \<open>simp add: step_cases\<close>)

lemma run_loop_framed:
  assumes "room_ok r" and "\<And>c. framed (w_out (ws c))"
  shows "framed (w_out (snd (run_loop ts r ws) c))"
  using assms
proof (induction ts arbitrary: r ws)
  case (Cons t ts)
  let ?r1 = "r\<lparr>r_nxt := r_nxt r + r_tick r\<rparr>"
  obtain e ws2 where st: "step ?r1 ws = (e, tick_room ?r1, ws2)" by (rule step_obtain)
  have "framed (w_out (ws2 c))" for c
    using step_framed [of ?r1 ws c] Cons.prems st by simp
  then show ?case using Cons st by (simp add: run_loop_step room_ok_tick split: option.split)
qed simp

lemma resume_framed:
  assumes "room_ok r" and "\<And>c. framed (w_out (ws c))"
  shows "framed (w_out (snd (resume ts r ws) c))"
proof -
  obtain e ws2 where st: "step r ws = (e, tick_room r, ws2)" by (rule step_obtain)
  have "framed (w_out (ws2 c))" for c using step_framed [of r ws c] assms st by simp
  then show ?thesis
    using assms st by (simp add: resume_def run_loop_framed room_ok_tick split: task.split list.split option.split)
qed

lemma stop_handler_ok: "server_ok w \<Longrightarrow> e = IncompleteReadError \<or> e = ConnectionError \<Longrightarrow> server_ok (stop_handler e c w)"
proof -
  assume ok: "server_ok w" and e: "e = IncompleteReadError \<or> e = ConnectionError"
  show ?thesis
  proof (cases "\<exists>cs. handlers w c = Some cs \<and> pc cs \<notin> range Done")
    case True
    then obtain cs where cs: "handlers w c = Some cs" "pc cs \<notin> range Done" by blast
    obtain cs' w' where f: "finish (Some e) c (cs\<lparr>inbuf := []\<rparr>) w = (cs', w')" by fastforce
    have "conn_ok w (cs\<lparr>inbuf := []\<rparr>)" using ok cs by (simp add: server_ok_def conn_ok_def)
    then have "world_ok w' \<and> conn_ok w' cs' \<and> grows w w'"
      using ok e finish_ok [OF _ _ _ f] by (auto simp: server_ok_def)
    moreover have "stop_handler e c w = put_handler c (cs', w')"
      using cs f by (auto simp: stop_handler_def split: await.split)
    ultimately show ?thesis using server_ok_put [OF ok] by simp
  next
    case False
    then show ?thesis using ok by (auto simp: stop_handler_def split: option.split await.split)
  qed
qed

lemma server_ok_writers:
  "server_ok w \<Longrightarrow> (\<And>c. framed (w_out (ws c))) \<Longrightarrow> server_ok (w\<lparr>writers := ws\<rparr>)"
  by (simp add: server_ok_def world_ok_def rooms_ok_frame conn_ok_def locals_ok_def)

lemma server_ok_framed: "server_ok w \<Longrightarrow> framed (w_out (writers w c))"
  by (simp add: server_ok_def world_ok_def)

lemma fire_recv_ok:
  assumes "server_ok w"
  shows "server_ok (fire (Recv c bs) w)"
proof (cases "handlers w c")
  case (Some cs)
  obtain cs' w' where h: "handle_loop c (cs\<lparr>inbuf := inbuf cs @ bs\<rparr>) w = (cs', w')" by fastforce
  have "conn_ok w (cs\<lparr>inbuf := inbuf cs @ bs\<rparr>)" "world_ok w"
    using assms Some by (simp_all add: server_ok_def conn_ok_def)
  then have "world_ok w' \<and> conn_ok w' cs' \<and> grows w w'" using handle_loop_ok h by blast
  then show ?thesis using server_ok_put [OF assms] Some h by simp
qed (use assms in simp)

lemma fire_resume_ok:
  assumes "server_ok w" and "a < length (heap w)"
  shows "server_ok (fire (Resume a ts) w)"
proof -
  obtain r ws where rs: "resume ts (heap w ! a) (writers w) = (r, ws)" by fastforce
  have good: "room_good (heap w ! a)" using assms by (simp add: server_ok_def world_ok_def rooms_ok_def)
  then have "room_ok (heap w ! a)" using room_reach_ok by (auto simp: room_good_def)
  then have fr: "framed (w_out (ws c))" for c
    using resume_framed [of "heap w ! a" "writers w" ts c] server_ok_framed [OF assms(1)] rs by simp
  have eq: "upd_room a (\<lambda>r. fst (resume ts r (writers w))) w = w\<lparr>heap := (heap w)[a := r]\<rparr>"
    by (simp add: upd_room_def rs)
  have "rooms_ok (w\<lparr>heap := (heap w)[a := r]\<rparr>)"
    unfolding eq [symmetric] using assms rooms_ok_ops(4) by (simp add: server_ok_def world_ok_def)
  then have "server_ok (w\<lparr>heap := (heap w)[a := r]\<rparr>)"
    using assms by (auto simp: server_ok_def world_ok_def conn_ok_def locals_ok_def)
  then show ?thesis using server_ok_writers [of "w\<lparr>heap := (heap w)[a := r]\<rparr>" ws] fr rs by simp
qed

lemma server_step_ok: "server_ok w \<Longrightarrow> server_ok (server_step w ev)"
proof (cases "enabled w ev")
  case True
  assume ok: "server_ok w"
  show ?thesis
  proof (cases ev)
    case (Connect c sock)
    have "conn_ok w (new_conn sock)" by (simp add: conn_ok_def new_conn_def locals_ok_def in_range_def)
    then have "server_ok (put_handler c (new_conn sock, w))" using ok server_ok_put by (simp add: server_ok_def)
    then show ?thesis
      using True Connect server_ok_writers [of "put_handler c (new_conn sock, w)" "(writers w)(c := new_writer)"]
        server_ok_framed [OF ok] by (simp add: server_step_def put_handler_def new_writer_def)
  next
    case (Lose c)
    then show ?thesis using True ok server_ok_writers server_ok_framed by (simp add: server_step_def)
  next
    case (Break c)
    then show ?thesis using True ok server_ok_writers server_ok_framed by (simp add: server_step_def)
  qed (use True ok fire_recv_ok fire_resume_ok stop_handler_ok in \<open>simp_all add: server_step_def\<close>)
qed (simp add: server_step_def)

lemma run_ok: "server_ok w \<Longrightarrow> server_ok (run w es)"
  by (induction es arbitrary: w) (auto simp: server_step_ok)


section \<open>What no event ever undoes\<close>

text \<open>
  A relation between an earlier and a later state of the server that every primitive
  action respects holds between the ends of every execution.
\<close>

locale server_mono =
  fixes R :: "server \<Rightarrow> server \<Rightarrow> bool"
  assumes R_refl: "R w w"
    and R_trans: "R u v \<Longrightarrow> R v w \<Longrightarrow> R u w"
    and R_frame: "on_frame c p loc w = (e, loc', w') \<Longrightarrow> R w w'"
    and R_leave: "R w (upd_room a (room_leave k) w)"
    and R_writers: "R w (w\<lparr>writers := ws\<rparr>)"
    and R_handlers: "R w (w\<lparr>handlers := hs\<rparr>)"
    and R_resume: "resume ts (heap w ! a) (writers w) = (r, ws) \<Longrightarrow> R w (w\<lparr>heap := (heap w)[a := r]\<rparr>)"
begin

lemma mono_finish: "R w (snd (finish e c cs w))"
  using R_writers R_trans [OF R_leave R_writers] by (auto simp: finish_def Let_def split: option.split)

lemma mono_loop: "R w (snd (handle_loop c cs w))"
proof (induction cs w rule: handle_loop_induct [where c = c])
  case (wait cs w)
  then show ?case using R_refl by (simp add: handle_loop_blocked)
next
  case (reject cs w n)
  then show ?case using handle_loop_header [OF reject(1-3), of c w] mono_finish by simp
next
  case (header cs w n)
  then show ?case using handle_loop_header [OF header(1-3), of c w] by simp
next
  case (frame cs w n loc w1)
  then show ?case using handle_loop_payload [OF frame(1-3)] R_trans [OF R_frame [OF frame(3)]] by (simp add: Let_def)
next
  case (fail cs w n x loc w1)
  then show ?case using handle_loop_payload [OF fail(1-3)] R_trans [OF R_frame [OF fail(3)]] mono_finish
    by (simp add: Let_def)
qed

lemma mono_put: "R w (snd csw) \<Longrightarrow> R w (put_handler c csw)"
  unfolding put_handler_def using R_handlers R_trans by blast

lemma mono_stop: "R w (stop_handler e c w)"
  using R_refl mono_put [OF mono_finish] by (simp add: stop_handler_def split: option.split await.split)

lemma mono_fire: "R w (fire ev w)"
proof (cases ev)
  case (Connect c sock)
  then show ?thesis using R_trans [OF R_handlers R_writers] by simp
next
  case (Recv c bs)
  then show ?thesis using R_refl mono_put [OF mono_loop] by (simp split: option.split)
next
  case (Resume a ts)
  obtain r ws where rs: "resume ts (heap w ! a) (writers w) = (r, ws)" by fastforce
  then show ?thesis using Resume R_trans [OF R_resume [OF rs] R_writers] by simp
qed (use mono_stop R_writers in simp_all)

lemma mono_run: "R w (run w es)"
proof (induction es arbitrary: w)
  case (Cons ev es)
  have "R w (server_step w ev)" using mono_fire R_refl by (simp add: server_step_def)
  then show ?case using Cons.IH [of "server_step w ev"] R_trans by simp
qed (simp add: R_refl)

end

text \<open>A room, once in the table, stays there; a room whose task failed never ticks again.\<close>

definition rooms_kept :: "server \<Rightarrow> server \<Rightarrow> bool" where
  "rooms_kept w w' \<longleftrightarrow> (\<forall>rid a. dict_get (rooms w) rid = Some a \<longrightarrow> dict_get (rooms w') rid = Some a)"

definition frozen_kept :: "server \<Rightarrow> server \<Rightarrow> bool" where
  "frozen_kept w w' \<longleftrightarrow> (\<forall>a e. a < length (heap w) \<and> r_task (heap w ! a) = Failed e \<longrightarrow>
     a < length (heap w') \<and> r_task (heap w' ! a) = Failed e \<and> tick_no (heap w' ! a) = tick_no (heap w ! a))"

lemma on_frame_rooms_kept:
  assumes "on_frame c p loc w = (e, loc', w')"
  shows "rooms_kept w w'"
proof (cases "p = []")
  case False
  then show ?thesis
  proof (cases rule: on_frame_cases [where c = c and loc = loc and w = w])
    case (join t q)
    let ?rid = "unpack_all [FI] q ! 0"
    obtain a w1 where g: "get_room ?rid w = (a, w1)" by fastforce
    then have "rooms_kept w w1"
      by (cases rule: get_room_cases) (auto simp: rooms_kept_def get_dict_set)
    moreover have "rooms w' = rooms w1"
      using assms join(4) on_join_eq [OF g join(5), of c] by (auto simp: Let_def split: sum.splits)
    ultimately show ?thesis by (simp add: rooms_kept_def)
  qed (use assms in \<open>auto simp: rooms_kept_def\<close>)
qed (use assms in \<open>simp add: on_frame_def rooms_kept_def\<close>)

lemma room_op_frozen:
  assumes "\<And>r. r_task (f r) = r_task r \<and> tick_no (f r) = tick_no r"
  shows "frozen_kept w (upd_room a f w)"
  using assms by (auto simp: frozen_kept_def upd_room_def nth_update_at)

lemma room_ops_sched:
  "r_task (snd (snd (room_join c n r))) = r_task r \<and> tick_no (snd (snd (room_join c n r))) = tick_no r"
  "r_task (room_move k s x y r) = r_task r \<and> tick_no (room_move k s x y r) = tick_no r"
  "r_task (room_leave k r) = r_task r \<and> tick_no (room_leave k r) = tick_no r"
  by (simp_all add: room_join_def room_move_def room_leave_def Let_def split: option.split)

lemma frozen_kept_trans: "frozen_kept u v \<Longrightarrow> frozen_kept v w \<Longrightarrow> frozen_kept u w"
  unfolding frozen_kept_def by metis

lemma on_frame_frozen_kept:
  assumes "on_frame c p loc w = (e, loc', w')"
  shows "frozen_kept w w'"
proof (cases "p = []")
  case False
  then show ?thesis
  proof (cases rule: on_frame_cases [where c = c and loc = loc and w = w])
    case (join t q)
    let ?rid = "unpack_all [FI] q ! 0"
    obtain a w1 where g: "get_room ?rid w = (a, w1)" by fastforce
    then have "frozen_kept w w1"
      by (cases rule: get_room_cases) (auto simp: frozen_kept_def nth_append)
    moreover have "frozen_kept w1 w'"
      using on_join_state [OF g join(5)] assms join(4) room_op_frozen [OF room_ops_sched(1) [of c "next_pid w1"], of w1 a]
      by (simp add: frozen_kept_def upd_room_def)
    ultimately show ?thesis by (rule frozen_kept_trans)
  next
    case (move t q a pid)
    then show ?thesis using assms room_op_frozen [OF room_ops_sched(2)] by auto
  qed (use assms in \<open>simp add: frozen_kept_def\<close>)
qed (use assms in \<open>simp add: on_frame_def frozen_kept_def\<close>)

interpretation table: server_mono rooms_kept
  by unfold_locales (auto simp: rooms_kept_def intro: on_frame_rooms_kept [unfolded rooms_kept_def, rule_format])

interpretation frozen: server_mono frozen_kept
proof
  show "resume ts (heap w ! a) (writers w) = (r, ws) \<Longrightarrow> frozen_kept w (w\<lparr>heap := (heap w)[a := r]\<rparr>)" for ts w a r ws
    by (auto simp: frozen_kept_def nth_update_at resume_def)
qed (use frozen_kept_trans on_frame_frozen_kept room_op_frozen [OF room_ops_sched(3)] in
    \<open>(simp_all add: frozen_kept_def)?\<close>)

section \<open>Errors of a handler\<close>

text \<open>A connection whose transport never raised and whose handler did not end in an exception.\<close>

definition calm :: "nat \<Rightarrow> server \<Rightarrow> bool" where
  "calm c w \<longleftrightarrow> \<not> w_fail (writers w c) \<and> (\<forall>cs e. handlers w c = Some cs \<longrightarrow> pc cs \<noteq> Done (Some e))"

lemma on_frame_fail:
  assumes "p \<noteq> []" and "on_frame c p loc w = (e, loc', w')"
  shows "w_fail (writers w' d) = w_fail (writers w d) \<and> (\<not> w_fail (writers w c) \<longrightarrow> e = None)"
  using assms(1)
proof (cases rule: on_frame_cases [where c = c and loc = loc and w = w])
  case (join t q)
  let ?rid = "unpack_all [FI] q ! 0"
  obtain a w1 where g: "get_room ?rid w = (a, w1)" by fastforce
  then have "writers w1 = writers w" by (cases rule: get_room_cases) simp_all
  then show ?thesis using assms(2) join(4) on_join_eq [OF g join(5), of c]
    by (auto simp: Let_def w_write_def split: sum.splits if_splits)
qed (use assms(2) in auto)

lemma finish_fail: "w_fail (writers (snd (finish e c cs w)) d) = w_fail (writers w d)"
  by (simp add: finish_def w_close_def Let_def split: option.split)

lemma handle_loop_fail:
  assumes "conn_ok w cs" and "world_ok w" and "handle_loop c cs w = (cs', w')"
  shows "w_fail (writers w' d) = w_fail (writers w d)
    \<and> (\<not> w_fail (writers w c) \<longrightarrow> pc cs' = Done (Some e) \<longrightarrow> pc cs = Done (Some e))"
  using assms
proof (induction cs w rule: handle_loop_induct [where c = c])
  case (wait cs w)
  then show ?case by (simp add: handle_loop_blocked)
next
  case (reject cs w n)
  then show ?case using handle_loop_header [OF reject(1-3), of c w] finish_fail [of None c "cs\<lparr>inbuf := drop 4 (inbuf cs)\<rparr>" w d]
    finish_pc [of None c "cs\<lparr>inbuf := drop 4 (inbuf cs)\<rparr>" w] by (auto simp: escapes_def)
next
  case (header cs w n)
  have "conn_ok w (cs\<lparr>inbuf := drop 4 (inbuf cs), pc := AwaitPayload n\<rparr>)"
    using header by (simp add: conn_ok_def)
  then show ?case using header handle_loop_header [OF header(1-3), of c w] by simp
next
  case (frame cs w n loc w1)
  have ne: "take n (inbuf cs) \<noteq> []" and "locals_ok w (c_room cs, my_pid cs)"
    using frame(1,2) frame.prems(1) by (auto simp: conn_ok_def)
  then have w1: "world_ok w1 \<and> locals_ok w1 loc"
    using on_frame_ok [OF frame.prems(2) _ _ frame(3)] by blast
  then have "conn_ok w1 (set_locals loc (cs\<lparr>inbuf := drop n (inbuf cs), pc := AwaitHeader\<rparr>))"
    using conn_ok_set_locals [OF frame.prems(1)] by blast
  then show ?case
    using frame.IH w1 handle_loop_payload [OF frame(1-3)] frame.prems(3) on_frame_fail [OF ne frame(3)]
    by (simp add: Let_def set_locals_def)
next
  case (fail cs w n x loc w1)
  have ne: "take n (inbuf cs) \<noteq> []" using fail(1,2) fail.prems(1) by (auto simp: conn_ok_def)
  then show ?case
    using handle_loop_payload [OF fail(1-3)] fail.prems(3) on_frame_fail [OF ne fail(3)] finish_fail
    by (metis option.distinct(1) option.simps(5) snd_conv)
qed

lemma resume_fail: "w_fail (snd (resume ts r ws) d) = w_fail (ws d)"
proof -
  have st: "w_fail (snd (snd (step r ws)) d) = w_fail (ws d)" for r ws
    using broadcast_out by (simp add: step_def Let_def split: sum.split)
  have lp: "w_fail (snd (run_loop ts r ws) d) = w_fail (ws d)" for ts r ws
  proof (induction ts arbitrary: r ws)
    case (Cons t ts)
    then show ?case using st [of "r\<lparr>r_nxt := r_nxt r + r_tick r\<rparr>" ws]
      by (auto simp: run_loop_step split: prod.split option.split)
  qed simp
  show ?thesis using st [of r ws] lp
    by (auto simp: resume_def split: task.split list.split prod.split option.split)
qed

lemma calm_put: "calm c w \<Longrightarrow> w_fail (writers (snd csw) c) = w_fail (writers w c) \<Longrightarrow>
  handlers (snd csw) c = handlers w c \<Longrightarrow> (d = c \<Longrightarrow> pc (fst csw) \<notin> range (Done \<circ> Some)) \<Longrightarrow> calm c (put_handler d csw)"
  by (auto simp: calm_def put_handler_def)

lemma calm_stop: "calm c w \<Longrightarrow> e = IncompleteReadError \<or> e = ConnectionError \<Longrightarrow> calm c (stop_handler e d w)"
proof -
  assume c: "calm c w" and e: "e = IncompleteReadError \<or> e = ConnectionError"
  have "calm c (put_handler d (finish (Some e) d cs w))" for cs
  proof (rule calm_put [OF c finish_fail])
    show "handlers (snd (finish (Some e) d cs w)) c = handlers w c"
      by (simp add: finish_def Let_def split: option.split)
    show "pc (fst (finish (Some e) d cs w)) \<notin> range (Done \<circ> Some)"
      using e finish_pc [of "Some e" d cs w] by (auto simp: escapes_def)
  qed
  then show ?thesis using c by (auto simp: stop_handler_def split: option.split await.split)
qed

lemma calm_step:
  assumes "server_ok w" and "calm c w" and "ev \<noteq> Break c"
  shows "calm c (server_step w ev)"
proof (cases "enabled w ev")
  case True
  show ?thesis
  proof (cases ev)
    case (Recv d bs)
    show ?thesis
    proof (cases "handlers w d")
      case (Some cs)
      let ?cs = "cs\<lparr>inbuf := inbuf cs @ bs\<rparr>"
      obtain cs' w' where h: "handle_loop d ?cs w = (cs', w')" by fastforce
      have "conn_ok w ?cs" "world_ok w" using assms(1) Some by (simp_all add: server_ok_def conn_ok_def)
      note f = handle_loop_fail [OF this h, of c] handle_loop_ok [OF this(2,1) h]
      have "calm c (put_handler d (cs', w'))"
        using f Some assms(2) by (intro calm_put [OF assms(2)]) (auto simp: calm_def grows_def)
      then show ?thesis using True Recv Some h by (simp add: server_step_def)
    qed (use assms True Recv in \<open>simp add: server_step_def\<close>)
  next
    case (Resume a ts)
    then show ?thesis using True assms resume_fail [of ts "heap w ! a" "writers w" c]
      by (auto simp: server_step_def calm_def split: prod.split)
  next
    case (Eof d)
    then show ?thesis using True calm_stop [OF assms(2)] by (simp add: server_step_def)
  next
    case (Reset d)
    then show ?thesis using True calm_stop [OF assms(2)] by (simp add: server_step_def)
  qed (use True assms in \<open>auto simp: server_step_def calm_def new_conn_def new_writer_def\<close>)
qed (use assms in \<open>simp add: server_step_def\<close>)

lemma calm_run: "server_ok w \<Longrightarrow> calm c w \<Longrightarrow> Break c \<notin> set es \<Longrightarrow> calm c (run w es)"
  by (induction es arbitrary: w) (auto simp: calm_step server_step_ok)

section \<open>A concrete execution\<close>

text \<open>Client 0 connects and joins room 7.\<close>

definition demo_events :: "event list" where
  "demo_events = [Connect 0 True, Recv 0 [0, 0, 0, 5, 1, 0, 0, 0, 7]]"

lemmas exec_simps = server_step_def loop_held_def init_server_def new_conn_def put_handler_def
  handle_loop.simps unpack_def unpack_field_def unpack_from_def on_frame_def on_join_def get_room_def
  new_room_def room_join_def new_pid_eq Player_def joined_frame_def pack_field_def in_range_def
  w_write_def new_writer_def set_locals_def MAX_FRAME_def msg_defs Let_def be_bytes_numeral
  stop_handler_def finish_def escapes_def upd_room_def room_leave_def w_close_def

lemma demo_run:
  "run (init_server (1 / 30)) demo_events =
    \<lparr>srv_tick = 1 / 30, next_pid = 1, rooms = [(7, 0)],
     heap = [\<lparr>r_id = 7, r_tick = 1 / 30, tick_no = 0, players = [(1, Player 1)], conns = [(1, 0)],
       r_nxt = 0, r_task = Created\<rparr>],
     handlers = [0 \<mapsto> \<lparr>inbuf = [], pc = AwaitHeader, c_room = Some 0, my_pid = 1, nodelay = True\<rparr>],
     writers = (\<lambda>_. new_writer)(0 := new_writer\<lparr>w_out := [0, 0, 0, 9, 0x81, 0, 0, 0, 1, 0, 0, 0, 7]\<rparr>)\<rparr>"
  by (simp add: demo_events_def exec_simps)

section \<open>Properties\<close>

text \<open>C23: Whatever the clients send and in whatever order events happen, the bytes put on a
  connection are a sequence of whole protocol frames, each of 1 byte to 1 MiB of payload.\<close>

theorem server_sends_whole_frames: "framed (w_out (writers (run (init_server tk) es) c))"
  using run_ok [OF server_ok_init] server_ok_framed by blast



text \<open>One object per room. The room a JOIN gets for an id carries that id, and as long as
  the process lives every later lookup of the id gives the same object, whatever happens
  in between: a room is never dropped or replaced.\<close>

theorem get_room_is_permanent:
  assumes "in_range FI rid" and "get_room rid (run (init_server tk) es) = (a, w1)"
  shows "r_id (heap w1 ! a) = rid \<and> get_room rid (run w1 fs) = (a, run w1 fs)"
proof
  let ?w = "run (init_server tk) es"
  have "server_ok ?w" using run_ok server_ok_init by blast
  then show "r_id (heap w1 ! a) = rid"
    using get_room_ok [OF _ assms] by (simp add: server_ok_def world_ok_def)
  have "dict_get (rooms w1) rid = Some a" using assms(2) by (cases rule: get_room_cases) (auto simp: get_dict_set)
  then have "dict_get (rooms (run w1 fs)) rid = Some a"
    using table.mono_run by (simp add: rooms_kept_def)
  then show "get_room rid (run w1 fs) = (a, run w1 fs)" by (simp add: get_room_def)
qed

theorem get_room_is_permanent_witness:
  "get_room 7 (run (init_server (1 / 30)) (demo_events @ [Eof 0])) =
    (0, run (init_server (1 / 30)) (demo_events @ [Eof 0]))"
proof -
  have g: "get_room 7 (run (init_server (1 / 30)) demo_events) = (0, run (init_server (1 / 30)) demo_events)"
    by (simp add: demo_run get_room_def)
  have "in_range FI 7" by (simp add: in_range_def)
  then show ?thesis using get_room_is_permanent [OF _ g, of "[Eof 0]"] by (simp add: run_append)
qed

text \<open>A room whose tick raised is dead. Its task is never restarted: no event makes its
  tick counter move again, although it stays in the table and accepts players.\<close>

theorem failed_room_never_ticks:
  assumes "a < length (heap w)" and "r_task (heap w ! a) = Failed e"
  shows "r_task (heap (run w es) ! a) = Failed e \<and> tick_no (heap (run w es) ! a) = tick_no (heap w ! a)"
  using frozen.mono_run [of w es] assms by (simp add: frozen_kept_def)

theorem failed_room_never_ticks_witness:
  "let w = (init_server 1)\<lparr>heap := [(new_room 7 1)\<lparr>r_task := Failed StructError, tick_no := 5\<rparr>]\<rparr> in
    r_task (heap (run w [Connect 0 True, Resume 0 [9, 9, 9]]) ! 0) = Failed StructError
    \<and> tick_no (heap (run w [Connect 0 True, Resume 0 [9, 9, 9]]) ! 0) = 5"
  using failed_room_never_ticks [of 0 "(init_server 1)\<lparr>heap := [(new_room 7 1)\<lparr>r_task := Failed StructError, tick_no := 5\<rparr>]\<rparr>"
      StructError "[Connect 0 True, Resume 0 [9, 9, 9]]"]
  unfolding Let_def by simp

text \<open>Bad lengths. If the next header of a handler announces no bytes or more than 1 MiB,
  the handler ends without an exception and without reading further: its player is out
  of the room, its transport is closed, and it ignores whatever arrives later.\<close>

theorem bad_length_ends_handler:
  assumes "handlers w c = Some cs" and "pc cs = AwaitHeader" and "4 \<le> length (inbuf cs @ bs)"
    and "be_val (take 4 (inbuf cs @ bs)) = 0 \<or> be_val (take 4 (inbuf cs @ bs)) > 1048576"
    and "c_room cs = Some a" and "my_pid cs \<noteq> 0" and "a < length (heap w)"
  shows "let w' = fire (Recv c bs) w in
    (\<exists>cs'. handlers w' c = Some cs' \<and> pc cs' = Done None) \<and> w_lost (writers w' c)
    \<and> heap w' = (heap w)[a := room_leave (my_pid cs) (heap w ! a)]
    \<and> (\<forall>d. d \<noteq> c \<longrightarrow> writers w' d = writers w d \<and> handlers w' d = handlers w d)"
proof -
  let ?b = "inbuf cs @ bs"
  let ?n = "nat (be_val (take 4 ?b))"
  have "?n = 0 \<or> ?n > MAX_FRAME" using assms(4) by (auto simp: MAX_FRAME_def)
  then have "handle_loop c (cs\<lparr>inbuf := ?b\<rparr>) w = finish None c (cs\<lparr>inbuf := drop 4 ?b\<rparr>) w"
    using handle_loop_header [of "cs\<lparr>inbuf := ?b\<rparr>" ?n c w] assms(2,3) by simp
  then show ?thesis using assms
    by (simp add: finish_def put_handler_def upd_room_def w_close_def escapes_def)
qed

theorem bad_length_ends_handler_witness:
  "let w = run (init_server (1 / 30)) demo_events in
    heap (fire (Recv 0 [0, 0, 0, 0]) w) = (heap w)[0 := room_leave 1 (heap w ! 0)]
    \<and> w_lost (writers (fire (Recv 0 [0, 0, 0, 0]) w) 0)"
proof -
  let ?w = "run (init_server (1 / 30)) demo_events"
  let ?cs = "\<lparr>inbuf = [], pc = AwaitHeader, c_room = Some 0, my_pid = 1, nodelay = True\<rparr>"
  have "handlers ?w 0 = Some ?cs" "0 < length (heap ?w)" by (simp_all add: demo_run)
  then show ?thesis
    using bad_length_ends_handler [of ?w 0 ?cs "[0, 0, 0, 0]" 0] unfolding Let_def by simp
qed

end
