(* ===== verification/Server_Pids.thy ===== *)
theory Server_Pids
  imports Server_Runs
begin

text \<open>
  Player ids. The counter is masked to 32 bits, so ids repeat after \<open>2 ^ 32\<close> joins; a JOIN
  costs the client at least 9 bytes, so as long as fewer than \<open>9 * 2 ^ 32\<close> bytes have been
  received the ids are unique and every connected player is registered in its room under
  its own connection.
\<close>

section \<open>Definitions\<close>

text \<open>Bytes the clients have sent in an execution.\<close>

fun rx_bytes :: "event list \<Rightarrow> nat" where
  "rx_bytes [] = 0"
| "rx_bytes (Recv c bs # evs) = length bs + rx_bytes evs"
| "rx_bytes (ev # evs) = rx_bytes evs"

definition pid_in :: "server \<Rightarrow> nat \<Rightarrow> int \<Rightarrow> bool" where
  "pid_in w a k \<longleftrightarrow> a < length (heap w) \<and> k \<in> set (keys (players (heap w ! a)))"

definition pids_ok :: "server \<Rightarrow> bool" where
  "pids_ok w \<longleftrightarrow> 0 \<le> next_pid w \<and> (\<forall>a k. pid_in w a k \<longrightarrow> 0 < k \<and> k \<le> next_pid w)
     \<and> (\<forall>a b k. pid_in w a k \<and> pid_in w b k \<longrightarrow> a = b)"

definition registered :: "server \<Rightarrow> nat \<Rightarrow> locals \<Rightarrow> bool" where
  "registered w c loc \<longleftrightarrow>
     (\<forall>a. fst loc = Some a \<longrightarrow> a < length (heap w) \<and> dict_get (conns (heap w ! a)) (snd loc) = Some c)"

definition live :: "conn \<Rightarrow> bool" where
  "live cs \<longleftrightarrow> pc cs \<notin> range Done"

definition others_registered :: "server \<Rightarrow> nat \<Rightarrow> bool" where
  "others_registered w c \<longleftrightarrow>
     (\<forall>d ds. d \<noteq> c \<and> handlers w d = Some ds \<and> live ds \<longrightarrow> registered w d (c_room ds, my_pid ds))"

text \<open>What a handler has received and not consumed yet, the header of a pending frame included.\<close>

definition held :: "conn \<Rightarrow> int" where
  "held cs = int (length (inbuf cs)) + (case pc cs of AwaitPayload n \<Rightarrow> 4 | _ \<Rightarrow> 0)"

definition held_total :: "server \<Rightarrow> int" where
  "held_total w = (\<Sum>c \<in> dom (handlers w). held (the (handlers w c)))"

definition pid_budget :: int where
  "pid_budget = 9 * 2 ^ 32"

text \<open>
  Sessions that connect, join room 7 once and disconnect, one after the other, each on a
  connection of its own.
\<close>

definition join7 :: bytes where
  "join7 = [0, 0, 0, 5, 1, 0, 0, 0, 7]"

definition session :: "nat \<Rightarrow> event list" where
  "session c = [Connect c True, Recv c join7, Eof c]"

definition sessions :: "nat \<Rightarrow> event list" where
  "sessions n = concat (map session [0 ..< n])"

section \<open>One frame\<close>

lemma room_keys: "rooms_ok w \<Longrightarrow> a < length (heap w) \<Longrightarrow> keys (players (heap w ! a)) = keys (conns (heap w ! a))"
proof -
  assume "rooms_ok w" "a < length (heap w)"
  then have "room_good (heap w ! a)" by (simp add: rooms_ok_def)
  then obtain n where "room_reach n (heap w ! a)" by (auto simp: room_good_def)
  then have "room_ok (heap w ! a)" by (rule room_reach_ok)
  then show ?thesis by (simp add: room_ok_def)
qed

lemma registered_pid_in:
  assumes "rooms_ok w" and "registered w d (Some b, k)"
  shows "pid_in w b k"
proof -
  have "b < length (heap w)" and "dict_get (conns (heap w ! b)) k = Some d"
    using assms(2) by (auto simp: registered_def)
  then have "k \<in> set (keys (conns (heap w ! b)))" by (metis alist.keys_get option.simps(3))
  then show ?thesis using room_keys [OF assms(1) \<open>b < length (heap w)\<close>] \<open>b < length (heap w)\<close> by (simp add: pid_in_def)
qed

lemma pids_ok_shrink:
  "pids_ok w \<Longrightarrow> (\<And>a k. pid_in w' a k \<Longrightarrow> pid_in w a k) \<Longrightarrow> next_pid w' = next_pid w \<Longrightarrow> pids_ok w'"
  unfolding pids_ok_def by metis

lemma get_room_view:
  assumes "get_room rid w = (a, w1)"
  shows "next_pid w1 = next_pid w" and "b < length (heap w) \<Longrightarrow> heap w1 ! b = heap w ! b"
    and "pid_in w1 b k \<Longrightarrow> pid_in w b k"
proof -
  have "next_pid w1 = next_pid w \<and> (b < length (heap w) \<longrightarrow> heap w1 ! b = heap w ! b) \<and>
    (pid_in w1 b k \<longrightarrow> pid_in w b k)"
    using assms
  proof (cases rule: get_room_cases)
    case 2
    then show ?thesis by (simp add: pid_in_def nth_append new_room_def)
  qed simp
  then show "next_pid w1 = next_pid w" and "b < length (heap w) \<Longrightarrow> heap w1 ! b = heap w ! b"
    and "pid_in w1 b k \<Longrightarrow> pid_in w b k" by auto
qed

lemma on_join_pids:
  assumes "world_ok w" and "in_range FI rid" and "next_pid w + 1 < 2 ^ 32" and "on_join c rid w = (e, loc, w')"
  obtains a where "loc = (Some a, next_pid w + 1)" and "next_pid w' = next_pid w + 1" and "a < length (heap w')"
    and "\<forall>b k. pid_in w' b k \<longrightarrow> pid_in w b k \<or> (b = a \<and> k = next_pid w + 1)"
    and "\<forall>b k d. b < length (heap w) \<longrightarrow> dict_get (conns (heap w ! b)) k = Some d \<longrightarrow> k \<noteq> next_pid w + 1 \<longrightarrow>
      dict_get (conns (heap w' ! b)) k = Some d"
    and "dict_get (conns (heap w' ! a)) (next_pid w + 1) = Some c"
proof -
  obtain a w1 where g: "get_room rid w = (a, w1)" by fastforce
  have ok: "rooms_ok w" using assms(1) by (simp add: world_ok_def)
  from get_room_ok [OF ok assms(2) g] have a: "a < length (heap w1)" "length (heap w) \<le> length (heap w1)" by auto
  note w1 = get_room_view [OF g]
  have pid: "new_pid (next_pid w) = next_pid w + 1"
    using assms(1,3) by (simp add: new_pid_eq world_ok_def in_range_def)
  note st = on_join_state [OF g assms(2,4)]
  have h: "heap w' = (heap w1)[a := (heap w1 ! a)\<lparr>
      players := dict_set (next_pid w + 1) (Player (next_pid w + 1)) (players (heap w1 ! a)),
      conns := dict_set (next_pid w + 1) c (conns (heap w1 ! a))\<rparr>]"
    using st(1) by (simp add: room_join_def Let_def w1(1) pid)
  show thesis
  proof (rule that [of a])
    show "loc = (Some a, next_pid w + 1)" "next_pid w' = next_pid w + 1" using st w1(1) pid by simp_all
    show "a < length (heap w')" using h a by simp
    have "pid_in w1 b k \<or> (b = a \<and> k = next_pid w + 1)" if "pid_in w' b k" for b k
      using that h by (cases "b = a") (auto simp: pid_in_def dest!: in_set_dict_set split: if_splits)
    then show "\<forall>b k. pid_in w' b k \<longrightarrow> pid_in w b k \<or> (b = a \<and> k = next_pid w + 1)" using w1(3) by blast
    show "\<forall>b k d. b < length (heap w) \<longrightarrow> dict_get (conns (heap w ! b)) k = Some d \<longrightarrow> k \<noteq> next_pid w + 1 \<longrightarrow>
      dict_get (conns (heap w' ! b)) k = Some d"
    proof (intro allI impI)
      fix b k d
      assume "b < length (heap w)" "dict_get (conns (heap w ! b)) k = Some d" "k \<noteq> next_pid w + 1"
      then show "dict_get (conns (heap w' ! b)) k = Some d"
        using w1(2) h a by (cases "b = a") (auto simp: get_dict_set)
    qed
    show "dict_get (conns (heap w' ! a)) (next_pid w + 1) = Some c" using h a by (simp add: get_dict_set)
  qed
qed

lemma pid_frames:
  "pids_ok (w\<lparr>writers := ws\<rparr>) = pids_ok w" "registered (w\<lparr>writers := ws\<rparr>) c loc = registered w c loc"
  "others_registered (w\<lparr>writers := ws\<rparr>) c = others_registered w c"
  "pids_ok (w\<lparr>handlers := hs\<rparr>) = pids_ok w" "registered (w\<lparr>handlers := hs\<rparr>) c loc = registered w c loc"
  by (simp_all add: pids_ok_def pid_in_def others_registered_def registered_def)

text \<open>What the handler of \<open>c\<close> keeps true while it runs.\<close>

definition reg_inv :: "nat \<Rightarrow> locals \<Rightarrow> server \<Rightarrow> bool" where
  "reg_inv c loc w \<longleftrightarrow> world_ok w \<and> locals_ok w loc \<and> pids_ok w \<and> registered w c loc \<and> others_registered w c"

lemma reg_inv_join:
  assumes "reg_inv c loc w" and "in_range FI rid" and "next_pid w + 1 < 2 ^ 32" and "on_join c rid w = (e, loc', w')"
  shows "reg_inv c loc' w' \<and> next_pid w' = next_pid w + 1"
proof -
  have wok: "world_ok w" and pok: "pids_ok w" and oth: "others_registered w c" using assms(1) by (auto simp: reg_inv_def)
  have ok: "world_ok w'" "locals_ok w' loc'" "grows w w'" using on_join_ok [OF wok assms(2,4)] by auto
  from wok assms(2-4) obtain a where a: "loc' = (Some a, next_pid w + 1)" "next_pid w' = next_pid w + 1" "a < length (heap w')"
    "\<forall>b k. pid_in w' b k \<longrightarrow> pid_in w b k \<or> (b = a \<and> k = next_pid w + 1)"
    "\<forall>b k d. b < length (heap w) \<longrightarrow> dict_get (conns (heap w ! b)) k = Some d \<longrightarrow> k \<noteq> next_pid w + 1 \<longrightarrow>
      dict_get (conns (heap w' ! b)) k = Some d"
    "dict_get (conns (heap w' ! a)) (next_pid w + 1) = Some c"
    by (rule on_join_pids) blast
  have le: "k \<le> next_pid w" and pos: "0 < k" if "pid_in w b k" for b k using that pok by (auto simp: pids_ok_def)
  have nonneg: "0 \<le> next_pid w" using pok by (simp add: pids_ok_def)
  have "pids_ok w'"
    unfolding pids_ok_def
  proof (intro conjI allI impI)
    show "0 \<le> next_pid w'" using pok a(2) by (simp add: pids_ok_def)
    show "0 < k" "k \<le> next_pid w'" if "pid_in w' b k" for b k
      using a(2) a(4) [rule_format, OF that] pos [of b k] le [of b k] nonneg by auto
    show "b = d" if "pid_in w' b k \<and> pid_in w' d k" for b d k
    proof -
      have "pid_in w b k \<or> b = a \<and> k = next_pid w + 1" "pid_in w d k \<or> d = a \<and> k = next_pid w + 1"
        using that a(4) by blast+
      moreover have "pid_in w b k \<Longrightarrow> pid_in w d k \<Longrightarrow> b = d" using pok unfolding pids_ok_def by blast
      ultimately show ?thesis using le [of b k] le [of d k] by auto
    qed
  qed
  moreover have "others_registered w' c"
    unfolding others_registered_def
  proof (intro allI impI)
    fix d ds assume d: "d \<noteq> c \<and> handlers w' d = Some ds \<and> live ds"
    then have r: "registered w d (c_room ds, my_pid ds)"
      using oth ok(3) by (auto simp: others_registered_def grows_def)
    have "my_pid ds \<noteq> next_pid w + 1" if "c_room ds = Some b" for b
      using le registered_pid_in [of w d b "my_pid ds"] r that wok by (force simp: world_ok_def)
    then show "registered w' d (c_room ds, my_pid ds)"
      using r a(5) ok(3) by (auto simp: registered_def grows_def)
  qed
  ultimately show ?thesis using ok a by (simp add: reg_inv_def registered_def)
qed


text \<open>An update of one room that neither adds players nor touches the connections of others.\<close>

lemma reg_inv_upd:
  assumes inv: "reg_inv c loc w" and st: "stable_op room_good r_id f"
    and sub: "set (keys (players (f (heap w ! a)))) \<subseteq> set (keys (players (heap w ! a)))"
    and keep: "\<And>k d. d \<noteq> c \<Longrightarrow> dict_get (conns (heap w ! a)) k = Some d \<Longrightarrow>
      dict_get (conns (f (heap w ! a))) k = Some d"
  shows "world_ok (upd_room a f w)" and "locals_ok (upd_room a f w) loc" and "pids_ok (upd_room a f w)"
    and "others_registered (upd_room a f w) c"
proof -
  have wok: "world_ok w" and lok: "locals_ok w loc" and pok: "pids_ok w" and oth: "others_registered w c"
    using inv by (auto simp: reg_inv_def)
  show "world_ok (upd_room a f w)" using wok st by (rule world_ok_upd)
  show "locals_ok (upd_room a f w) loc" using lok by (simp add: locals_ok_def)
  have "pid_in w b k" if "pid_in (upd_room a f w) b k" for b k
    using that subsetD [OF sub] by (cases "b = a") (auto simp: pid_in_def upd_room_def simp del: set_map)
  then show "pids_ok (upd_room a f w)" using pids_ok_shrink [OF pok] by simp
  have "registered (upd_room a f w) d l" if "registered w d l" "d \<noteq> c" for d l
    unfolding registered_def
  proof (intro allI impI)
    fix b assume "fst l = Some b"
    then show "b < length (heap (upd_room a f w)) \<and> dict_get (conns (heap (upd_room a f w) ! b)) (snd l) = Some d"
      using that keep by (cases "b = a") (auto simp: registered_def upd_room_def)
  qed
  then show "others_registered (upd_room a f w) c"
    using oth by (auto simp: others_registered_def)
qed

lemma move_frame:
  "set (keys (players (room_move pid sq dx dy r))) = set (keys (players r))"
  "conns (room_move pid sq dx dy r) = conns r"
proof -
  show "set (keys (players (room_move pid sq dx dy r))) = set (keys (players r))"
  proof (cases "dict_get (players r) pid")
    case (Some p)
    then have "pid \<in> set (keys (players r))" by (metis alist.keys_get option.simps(3))
    then show ?thesis using Some by (simp add: room_move_def keys_dict_set)
  qed (simp add: room_move_def)
qed (simp add: room_move_def split: option.split)

lemma reg_inv_frame:
  assumes inv: "reg_inv c loc w" and "p \<noteq> []" and "5 \<le> length p \<Longrightarrow> next_pid w + 1 < 2 ^ 32"
    and "on_frame c p loc w = (e, loc', w')"
  shows "reg_inv c loc' w' \<and> 9 * next_pid w' \<le> 9 * next_pid w + 4 + int (length p)"
  using assms(2)
proof (cases rule: on_frame_cases [where c = c and loc = loc and w = w])
  case (join t q)
  then show ?thesis using reg_inv_join [OF inv join(5) assms(3) [OF join(2)]] assms(4) by auto
next
  case (move t q a pid)
  let ?f = "room_move pid (unpack_all [FI, Fh, Fh] q ! 0) (unpack_all [FI, Fh, Fh] q ! 1) (unpack_all [FI, Fh, Fh] q ! 2)"
  have w': "w' = upd_room a ?f w" "loc' = loc" using move(5) assms(4) by auto
  have "registered w c loc" using inv by (simp add: reg_inv_def)
  then have "registered w' c loc"
    unfolding w' move(4) by (simp add: registered_def upd_room_def move_frame del: unpack_all.simps)
  moreover have "world_ok w' \<and> locals_ok w' loc \<and> pids_ok w' \<and> others_registered w' c"
    unfolding w' by (intro conjI reg_inv_upd [OF inv move_op.stable_op_axioms])
      (simp_all add: move_frame del: unpack_all.simps set_map)
  moreover have "next_pid w' = next_pid w" by (simp add: w')
  ultimately show ?thesis by (simp add: reg_inv_def w')
next
  case skip
  then show ?thesis using assms by simp
qed

lemma reg_inv_finish:
  assumes inv: "reg_inv c (c_room cs, my_pid cs) w" and "finish e c cs w = (cs', w')"
  shows "pids_ok w' \<and> others_registered w' c \<and> next_pid w' = next_pid w \<and> \<not> live cs' \<and> inbuf cs' = inbuf cs"
proof -
  define w1 where "w1 = (case c_room cs of
      Some a \<Rightarrow> if my_pid cs \<noteq> 0 then upd_room a (room_leave (my_pid cs)) w else w | None \<Rightarrow> w)"
  have "pids_ok w1 \<and> others_registered w1 c \<and> next_pid w1 = next_pid w"
  proof (cases "c_room cs")
    case None
    then show ?thesis using inv by (simp add: w1_def reg_inv_def)
  next
    case (Some a)
    then have "dict_get (conns (heap w ! a)) (my_pid cs) = Some c"
      using inv by (simp add: reg_inv_def registered_def)
    then have "pids_ok (upd_room a (room_leave (my_pid cs)) w)"
      and "others_registered (upd_room a (room_leave (my_pid cs)) w) c"
      by (intro reg_inv_upd [OF inv leave_op.stable_op_axioms];
          auto simp: room_leave_def get_dict_pop keys_dict_pop simp del: map_of_delete)+
    then show ?thesis using Some inv by (simp add: w1_def reg_inv_def)
  qed
  moreover have "cs' = cs\<lparr>pc := Done (escapes e)\<rparr>" "w' = w1\<lparr>writers := (writers w1)(c := w_close (writers w1 c))\<rparr>"
    using assms(2) by (auto simp: finish_def Let_def w1_def)
  ultimately show ?thesis by (simp add: pid_frames live_def)
qed


section \<open>The read loop\<close>

lemma held_nonneg: "0 \<le> held cs"
  by (simp add: held_def split: await.split)

lemma frame_budget:
  assumes "pc cs = AwaitPayload n" and "n \<le> length (inbuf cs)"
    and "on_frame c (take n (inbuf cs)) (c_room cs, my_pid cs) w = (e, loc, w1)"
    and "conn_ok w cs" and "reg_inv c (c_room cs, my_pid cs) w" and "9 * next_pid w + held cs < pid_budget"
    and cs1: "cs1 = set_locals loc (cs\<lparr>inbuf := drop n (inbuf cs), pc := AwaitHeader\<rparr>)"
  shows "reg_inv c loc w1" and "conn_ok w1 cs1" and "9 * next_pid w1 + held cs1 \<le> 9 * next_pid w + held cs"
proof -
  have ne: "take n (inbuf cs) \<noteq> []" using assms(1,2,4) by (auto simp: conn_ok_def)
  have hd: "held cs1 = held cs - int n - 4" using assms(1,2) by (simp add: held_def cs1)
  have "next_pid w + 1 < 2 ^ 32" if "5 \<le> n"
    using that assms(6) hd held_nonneg [of cs1] by (simp add: pid_budget_def)
  then have r: "reg_inv c loc w1 \<and> 9 * next_pid w1 \<le> 9 * next_pid w + 4 + int n"
    using reg_inv_frame [OF assms(5) ne _ assms(3)] assms(2) by simp
  then show "reg_inv c loc w1" and "9 * next_pid w1 + held cs1 \<le> 9 * next_pid w + held cs" using hd by auto
  show "conn_ok w1 cs1" using r conn_ok_set_locals [OF assms(4)] by (simp add: reg_inv_def cs1)
qed

lemma handle_loop_pids:
  assumes "live cs" and "conn_ok w cs" and "reg_inv c (c_room cs, my_pid cs) w"
    and "9 * next_pid w + held cs < pid_budget" and "handle_loop c cs w = (cs', w')"
  shows "pids_ok w' \<and> others_registered w' c \<and> (live cs' \<longrightarrow> registered w' c (c_room cs', my_pid cs'))
    \<and> 9 * next_pid w' + held cs' \<le> 9 * next_pid w + held cs"
  using assms
proof (induction cs w rule: handle_loop_induct [where c = c])
  case (wait cs w)
  then show ?case by (auto simp: handle_loop_blocked reg_inv_def)
next
  case (reject cs w n)
  have f: "finish None c (cs\<lparr>inbuf := drop 4 (inbuf cs)\<rparr>) w = (cs', w')"
    using handle_loop_header [OF reject(1-3), of c w] reject(4) reject.prems(5) by simp
  then have "pc cs' = Done None" using finish_pc [of None c "cs\<lparr>inbuf := drop 4 (inbuf cs)\<rparr>" w] by (simp add: escapes_def)
  then show ?case using reg_inv_finish [OF _ f] reject by (simp add: held_def)
next
  case (header cs w n)
  have "held (cs\<lparr>inbuf := drop 4 (inbuf cs), pc := AwaitPayload n\<rparr>) = held cs"
    using header(1,2) by (simp add: held_def)
  moreover have "conn_ok w (cs\<lparr>inbuf := drop 4 (inbuf cs), pc := AwaitPayload n\<rparr>)"
    using header by (simp add: conn_ok_def)
  ultimately show ?case using header handle_loop_header [OF header(1-3), of c w] by (simp add: live_def image_iff)
next
  case (frame cs w n loc w1)
  let ?cs = "set_locals loc (cs\<lparr>inbuf := drop n (inbuf cs), pc := AwaitHeader\<rparr>)"
  note b = frame_budget [OF frame(1-3) frame.prems(2-4) refl]
  have "handle_loop c ?cs w1 = (cs', w')"
    using handle_loop_payload [OF frame(1-3)] frame.prems(5) by simp
  then show ?case using frame.IH b frame.prems(4) by (simp add: live_def image_iff)
next
  case (fail cs w n x loc w1)
  let ?cs = "set_locals loc (cs\<lparr>inbuf := drop n (inbuf cs), pc := AwaitHeader\<rparr>)"
  note b = frame_budget [OF fail(1-3) fail.prems(2-4) refl]
  have f: "finish (Some x) c ?cs w1 = (cs', w')"
    using handle_loop_payload [OF fail(1-3)] fail.prems(5) by simp
  then have "held cs' = held ?cs" using reg_inv_finish [OF _ f] b(1) finish_pc [of "Some x" c ?cs w1]
    by (simp add: held_def)
  then show ?case using reg_inv_finish [OF _ f] b by simp
qed

section \<open>The whole server\<close>

lemma step_rooms_frame: "keys (players (tick_room r)) = keys (players r)" "conns (tick_room r) = conns r"
  by (simp_all add: tick_room_def)

lemma run_loop_frame:
  "keys (players (fst (run_loop ts r ws))) = keys (players r) \<and> conns (fst (run_loop ts r ws)) = conns r"
proof (induction ts arbitrary: r ws)
  case (Cons t ts)
  obtain e ws2 where "step (r\<lparr>r_nxt := r_nxt r + r_tick r\<rparr>) ws =
      (e, tick_room (r\<lparr>r_nxt := r_nxt r + r_tick r\<rparr>), ws2)" by (rule step_obtain)
  then show ?case using Cons by (simp add: run_loop_step step_rooms_frame split: option.split)
qed simp

lemma resume_frame:
  "keys (players (fst (resume ts r ws))) = keys (players r)" "conns (fst (resume ts r ws)) = conns r"
proof -
  obtain e ws2 where st: "step r ws = (e, tick_room r, ws2)" by (rule step_obtain)
  show "keys (players (fst (resume ts r ws))) = keys (players r)"
    using st by (simp add: resume_def run_loop_frame step_rooms_frame split: task.split list.split option.split)
  show "conns (fst (resume ts r ws)) = conns r"
    using st by (simp add: resume_def run_loop_frame step_rooms_frame split: task.split list.split option.split)
qed

definition all_registered :: "server \<Rightarrow> bool" where
  "all_registered w \<longleftrightarrow>
     (\<forall>c cs. handlers w c = Some cs \<and> live cs \<longrightarrow> registered w c (c_room cs, my_pid cs))"

definition pid_inv :: "server \<Rightarrow> bool" where
  "pid_inv w \<longleftrightarrow> server_ok w \<and> pids_ok w \<and> all_registered w \<and> finite (dom (handlers w))"

definition spent :: "server \<Rightarrow> int" where
  "spent w = 9 * next_pid w + held_total w"

lemma all_registered_reg_inv:
  "pid_inv w \<Longrightarrow> handlers w c = Some cs \<Longrightarrow> live cs \<Longrightarrow> reg_inv c (c_room cs, my_pid cs) w"
  by (auto simp: pid_inv_def reg_inv_def all_registered_def others_registered_def server_ok_def conn_ok_def)

lemma held_total_upd:
  assumes "finite (dom (handlers w))" and "handlers w c = Some cs" and "handlers w' = handlers w"
  shows "held_total (put_handler c (cs', w')) = held_total w - held cs + held cs'"
proof -
  have c: "c \<in> dom (handlers w)" using assms(2) by auto
  have "held_total (put_handler c (cs', w')) =
      held cs' + (\<Sum>d \<in> dom (handlers w) - {c}. held (the (handlers w d)))"
    using assms c by (simp add: held_total_def put_handler_def insert_absorb sum.remove [OF assms(1) c])
  moreover have "held_total w = held cs + (\<Sum>d \<in> dom (handlers w) - {c}. held (the (handlers w d)))"
    using assms c by (simp add: held_total_def sum.remove [OF assms(1) c])
  ultimately show ?thesis by simp
qed

lemma held_le_total: "finite (dom (handlers w)) \<Longrightarrow> handlers w c = Some cs \<Longrightarrow> held cs \<le> held_total w"
  using member_le_sum [of c "dom (handlers w)" "\<lambda>c. held (the (handlers w c))"] held_nonneg
  by (auto simp: held_total_def)


lemma pid_inv_put:
  assumes "pid_inv w" and "handlers w c = Some cs" and "server_ok (put_handler c (cs', w'))"
    and "handlers w' = handlers w" and "pids_ok w'" and "others_registered w' c"
    and "live cs' \<longrightarrow> registered w' c (c_room cs', my_pid cs')"
  shows "pid_inv (put_handler c (cs', w'))"
  using assms by (auto simp: pid_inv_def put_handler_def all_registered_def others_registered_def pid_frames)

lemma recv_pids:
  assumes "pid_inv w" and "spent w + int (length bs) < pid_budget"
  shows "pid_inv (fire (Recv c bs) w) \<and> spent (fire (Recv c bs) w) \<le> spent w + int (length bs)"
proof (cases "handlers w c")
  case (Some cs)
  let ?cs = "cs\<lparr>inbuf := inbuf cs @ bs\<rparr>"
  obtain cs' w' where h: "handle_loop c ?cs w = (cs', w')" by fastforce
  have fin: "finite (dom (handlers w))" and sok: "server_ok w" using assms(1) by (auto simp: pid_inv_def)
  have hs: "handlers w' = handlers w" using handle_loop_keeps_handlers [of c ?cs w] h by simp
  have ok: "server_ok (put_handler c (cs', w'))" using fire_recv_ok [OF sok, of c bs] Some h by simp
  have hd: "held ?cs = held cs + int (length bs)" by (simp add: held_def)
  have tot: "spent (put_handler c (cs', w')) = 9 * next_pid w' + held_total w - held cs + held cs'"
    using held_total_upd [OF fin Some hs] by (simp add: spent_def put_handler_def)
  show ?thesis
  proof (cases "live cs")
    case True
    have "reg_inv c (c_room ?cs, my_pid ?cs) w" using all_registered_reg_inv [OF assms(1) Some True] by simp
    moreover have "live ?cs" "conn_ok w ?cs" using True sok Some by (auto simp: live_def server_ok_def conn_ok_def)
    moreover have "9 * next_pid w + held ?cs < pid_budget"
      using assms(2) hd held_le_total [OF fin Some] by (simp add: spent_def)
    ultimately have p: "pids_ok w' \<and> others_registered w' c \<and> (live cs' \<longrightarrow> registered w' c (c_room cs', my_pid cs'))
      \<and> 9 * next_pid w' + held cs' \<le> 9 * next_pid w + held ?cs" using handle_loop_pids [OF _ _ _ _ h] by blast
    then have "pid_inv (put_handler c (cs', w'))" using pid_inv_put [OF assms(1) Some ok hs] by blast
    moreover have "spent (put_handler c (cs', w')) \<le> spent w + int (length bs)"
      using tot p hd by (simp add: spent_def)
    ultimately show ?thesis using Some h by simp
  next
    case False
    then have "blocked ?cs" by (auto simp: live_def blocked_def)
    then have eq: "cs' = ?cs" "w' = w" using h by (auto simp: handle_loop_blocked)
    have "\<not> live ?cs" using False by (simp add: live_def)
    moreover have "others_registered w c" using assms(1) by (auto simp: pid_inv_def all_registered_def others_registered_def)
    ultimately have "pid_inv (put_handler c (cs', w'))"
      using pid_inv_put [OF assms(1) Some ok hs] assms(1) eq by (simp add: pid_inv_def)
    then show ?thesis using Some h tot eq hd by (simp add: spent_def)
  qed
qed (use assms in simp)

lemma stop_pids:
  assumes "pid_inv w" and "e = IncompleteReadError \<or> e = ConnectionError"
  shows "pid_inv (stop_handler e c w) \<and> spent (stop_handler e c w) \<le> spent w"
proof (cases "\<exists>cs. handlers w c = Some cs \<and> live cs")
  case True
  then obtain cs where cs: "handlers w c = Some cs" "live cs" by blast
  obtain cs' w' where f: "finish (Some e) c (cs\<lparr>inbuf := []\<rparr>) w = (cs', w')" by fastforce
  have s: "stop_handler e c w = put_handler c (cs', w')"
    using cs f by (auto simp: stop_handler_def live_def split: await.split)
  have "reg_inv c (c_room (cs\<lparr>inbuf := []\<rparr>), my_pid (cs\<lparr>inbuf := []\<rparr>)) w"
    using all_registered_reg_inv [OF assms(1) cs] by simp
  note r = reg_inv_finish [OF this f]
  have fin: "finite (dom (handlers w))" using assms(1) by (simp add: pid_inv_def)
  have hs: "handlers w' = handlers w" using f by (auto simp: finish_def Let_def split: option.splits if_splits)
  have "server_ok (put_handler c (cs', w'))" using stop_handler_ok [of w e c] assms s by (simp add: pid_inv_def)
  then have "pid_inv (stop_handler e c w)" using pid_inv_put [OF assms(1) cs(1) _ hs] r s by simp
  moreover have "held cs' = 0" using r finish_pc [of "Some e" c "cs\<lparr>inbuf := []\<rparr>" w] f by (simp add: held_def)
  ultimately show ?thesis
    using held_total_upd [OF fin cs(1) hs, of cs'] r s held_nonneg [of cs] by (simp add: spent_def put_handler_def)
next
  case False
  then have "stop_handler e c w = w" by (auto simp: stop_handler_def live_def split: option.split await.split)
  then show ?thesis using assms by simp
qed


lemma pid_inv_writers: "pid_inv w \<Longrightarrow> server_ok (w\<lparr>writers := ws\<rparr>) \<Longrightarrow> pid_inv (w\<lparr>writers := ws\<rparr>)"
  by (simp add: pid_inv_def pid_frames all_registered_def)

lemma spent_writers [simp]: "spent (w\<lparr>writers := ws\<rparr>) = spent w"
  by (simp add: spent_def held_total_def)

lemma resume_pids:
  assumes "pid_inv w" and "a < length (heap w)"
  shows "pid_inv (fire (Resume a ts) w) \<and> spent (fire (Resume a ts) w) = spent w"
proof -
  obtain r ws where rs: "resume ts (heap w ! a) (writers w) = (r, ws)" by fastforce
  let ?w = "w\<lparr>heap := (heap w)[a := r], writers := ws\<rparr>"
  have fire: "fire (Resume a ts) w = ?w" by (simp add: rs)
  have ok: "server_ok ?w" using fire_resume_ok [OF _ assms(2), of ts] assms(1) fire by (simp add: pid_inv_def)
  have k: "keys (players r) = keys (players (heap w ! a))" "conns r = conns (heap w ! a)"
    using resume_frame [of ts "heap w ! a" "writers w"] rs by auto
  have "pid_in ?w b j = pid_in w b j" for b j
    using k by (cases "b = a") (auto simp: pid_in_def simp del: set_map)
  then have "pids_ok ?w" using assms(1) by (simp add: pid_inv_def pids_ok_def)
  moreover have "registered ?w c loc = registered w c loc" for c loc
    using k assms(2) by (auto simp: registered_def nth_list_update)
  ultimately have "pid_inv ?w" using assms(1) ok by (simp add: pid_inv_def all_registered_def)
  then show ?thesis using fire by (simp add: spent_def held_total_def)
qed

lemma held_new_conn: "held (new_conn sock) = 0"
  by (simp add: held_def new_conn_def)

lemma connect_pids:
  assumes "pid_inv w" and "handlers w c = None"
  shows "pid_inv (fire (Connect c sock) w) \<and> spent (fire (Connect c sock) w) = spent w"
proof -
  let ?w = "w\<lparr>handlers := (handlers w)(c \<mapsto> new_conn sock)\<rparr>"
  have "conn_ok ?w (new_conn sock)" by (simp add: conn_ok_def new_conn_def locals_ok_def in_range_def)
  then have ok: "server_ok ?w"
    using assms by (auto simp: pid_inv_def server_ok_def world_ok_def rooms_ok_frame conn_ok_def locals_ok_def)
  have "registered w c (None, 0)" by (simp add: registered_def)
  then have "pid_inv ?w" using assms ok
    by (auto simp: pid_inv_def pid_frames all_registered_def new_conn_def)
  moreover have "server_ok (?w\<lparr>writers := (writers w)(c := new_writer)\<rparr>)"
    using server_ok_writers [OF ok] server_ok_framed [OF ok] by (simp add: new_writer_def)
  ultimately have "pid_inv (?w\<lparr>writers := (writers w)(c := new_writer)\<rparr>)" using pid_inv_writers by blast
  moreover have "held_total ?w = held_total w"
  proof -
    have "c \<notin> dom (handlers w)" and "finite (dom (handlers w))" using assms by (auto simp: pid_inv_def)
    then have "held_total ?w = held (new_conn sock) + (\<Sum>d \<in> dom (handlers w). held (the (((handlers w)(c \<mapsto> new_conn sock)) d)))"
      by (simp add: held_total_def)
    also have "(\<Sum>d \<in> dom (handlers w). held (the (((handlers w)(c \<mapsto> new_conn sock)) d))) = held_total w"
      unfolding held_total_def using \<open>c \<notin> dom (handlers w)\<close> by (intro sum.cong) auto
    finally show ?thesis by (simp only: held_new_conn add_0)
  qed
  ultimately show ?thesis by (simp add: spent_def held_total_def)
qed

lemma server_step_pids:
  assumes "pid_inv w" and "spent w + int (rx_bytes [ev]) < pid_budget"
  shows "pid_inv (server_step w ev) \<and> spent (server_step w ev) \<le> spent w + int (rx_bytes [ev])"
proof (cases "enabled w ev")
  case True
  have sok: "server_ok (server_step w ev)" using assms(1) server_step_ok by (simp add: pid_inv_def)
  show ?thesis
  proof (cases ev)
    case (Recv c bs)
    then show ?thesis using recv_pids assms True by (simp add: server_step_def)
  next
    case (Resume a ts)
    then show ?thesis using resume_pids [OF assms(1), of a ts] True by (simp add: server_step_def)
  next
    case (Connect c sock)
    then show ?thesis using connect_pids [OF assms(1), of c sock] True by (simp add: server_step_def)
  next
    case (Lose c)
    then show ?thesis using pid_inv_writers [OF assms(1)] sok True by (simp add: server_step_def)
  next
    case (Break c)
    then show ?thesis using pid_inv_writers [OF assms(1)] sok True by (simp add: server_step_def)
  qed (use stop_pids [OF assms(1)] True in \<open>simp_all add: server_step_def\<close>)
qed (use assms in \<open>simp add: server_step_def\<close>)

lemma rx_bytes_Cons: "rx_bytes (ev # evs) = rx_bytes [ev] + rx_bytes evs"
  by (cases ev) auto

lemma run_pids:
  "pid_inv w \<Longrightarrow> spent w + int (rx_bytes es) < pid_budget \<Longrightarrow> pid_inv (run w es)"
proof (induction es arbitrary: w)
  case (Cons ev es)
  have "spent w + int (rx_bytes [ev]) < pid_budget"
    using Cons.prems(2) by (simp add: rx_bytes_Cons [of ev es])
  note st = server_step_pids [OF Cons.prems(1) this]
  show ?case using Cons.IH [of "server_step w ev"] st Cons.prems(2) by (simp add: rx_bytes_Cons [of ev es])
qed simp

lemma pid_inv_init: "pid_inv (init_server tk)"
  using server_ok_init [of tk]
  by (simp add: pid_inv_def pids_ok_def pid_in_def all_registered_def init_server_def)

lemma pid_inv_reach: "int (rx_bytes es) < 9 * 2 ^ 32 \<Longrightarrow> pid_inv (run (init_server tk) es)"
  by (rule run_pids [OF pid_inv_init]) (simp add: spent_def held_total_def init_server_def pid_budget_def)

section \<open>Wrap-around of the ids\<close>

text \<open>The server between two sessions, after \<open>n\<close> of them: one room, nobody in it.\<close>

definition quiet :: "rat \<Rightarrow> nat \<Rightarrow> server \<Rightarrow> bool" where
  "quiet tk n w \<longleftrightarrow> rooms w = [(7, 0)] \<and> heap w = [new_room 7 tk] \<and> next_pid w = int n
     \<and> (\<forall>c \<ge> n. handlers w c = None) \<and> (\<forall>c cs. handlers w c = Some cs \<longrightarrow> \<not> live cs)"

lemma session_first: "quiet tk 1 (run (init_server tk) (session 0))"
  by (simp add: quiet_def session_def join7_def live_def exec_simps)

lemma session_next:
  assumes "quiet tk n w" and "int n + 1 < 2 ^ 32"
  shows "quiet tk (Suc n) (run w (session n))"
proof -
  have "(int n + 1) mod 4294967296 = int n + 1" using assms(2) by simp
  then show ?thesis using assms
    by (auto simp: quiet_def session_def join7_def live_def exec_simps)
qed

lemma session_last:
  assumes "quiet tk n w" and "int n + 1 = 2 ^ 32"
  shows "players (heap (run w (session n)) ! 0) = [(0, Player 0)]
    \<and> (\<forall>c cs. handlers (run w (session n)) c = Some cs \<longrightarrow> \<not> live cs)"
proof -
  have "(int n + 1) mod 4294967296 = 0" using assms(2) by simp
  then show ?thesis using assms
    by (auto simp: quiet_def session_def join7_def live_def exec_simps)
qed

lemma sessions_Suc: "run w (sessions (Suc n)) = run (run w (sessions n)) (session n)"
  by (simp add: sessions_def run_append)

lemma sessions_quiet: "int (Suc n) < 2 ^ 32 \<Longrightarrow> quiet tk (Suc n) (run (init_server tk) (sessions (Suc n)))"
proof (induction n)
  case 0
  show ?case unfolding sessions_Suc using session_first by (simp add: sessions_def)
next
  case (Suc n)
  then show ?case unfolding sessions_Suc [of _ "Suc n"] by (intro session_next) simp_all
qed

section \<open>Properties\<close>

text \<open>C1: Player ids. As long as the clients have sent fewer than \<open>9 * 2 ^ 32\<close> bytes (a JOIN
  costs 9), in every reachable state each player id is positive and occurs in one room
  only, and every handler that has joined is entered in its room, under its own id,
  with its own connection, and has a player there.\<close>

theorem players_are_unique_and_registered:
  assumes "int (rx_bytes es) < 9 * 2 ^ 32" and "w = run (init_server tk) es"
  shows "(pid_in w a k \<and> pid_in w b k \<longrightarrow> a = b \<and> 0 < k)
    \<and> (handlers w c = Some cs \<and> live cs \<and> c_room cs = Some r \<longrightarrow>
        pid_in w r (my_pid cs) \<and> dict_get (conns (heap w ! r)) (my_pid cs) = Some c)"
proof -
  have inv: "pid_inv w" using pid_inv_reach [OF assms(1)] assms(2) by simp
  then have "pids_ok w" "rooms_ok w" by (simp_all add: pid_inv_def server_ok_def world_ok_def)
  have "registered w c (Some r, my_pid cs)" if "handlers w c = Some cs" "live cs" "c_room cs = Some r"
    using inv that unfolding pid_inv_def all_registered_def by metis
  then have "pid_in w r (my_pid cs) \<and> dict_get (conns (heap w ! r)) (my_pid cs) = Some c"
    if "handlers w c = Some cs" "live cs" "c_room cs = Some r"
    using that registered_pid_in [OF \<open>rooms_ok w\<close>] by (auto simp: registered_def)
  moreover have "a = b \<and> 0 < k" if "pid_in w a k" "pid_in w b k"
    using \<open>pids_ok w\<close> that unfolding pids_ok_def by metis
  ultimately show ?thesis by blast
qed

theorem players_are_unique_and_registered_witness:
  "pid_in (run (init_server (1 / 30)) demo_events) 0 1
    \<and> dict_get (conns (heap (run (init_server (1 / 30)) demo_events) ! 0)) 1 = Some 0"
proof -
  let ?cs = "\<lparr>inbuf = [], pc = AwaitHeader, c_room = Some 0, my_pid = 1, nodelay = True\<rparr>"
  have b: "int (rx_bytes demo_events) < 9 * 2 ^ 32" by (simp add: demo_events_def)
  have "handlers (run (init_server (1 / 30)) demo_events) 0 = Some ?cs" "live ?cs"
    by (simp add: demo_run) (auto simp: live_def)
  then show ?thesis using players_are_unique_and_registered [OF b refl, where tk = "1 / 30" and c = 0 and cs = ?cs and r = 0] by simp
qed

text \<open>C12: Disconnects. When the peer of a joined handler closes or resets the connection, the
  handler ends without an exception, exactly its own player leaves exactly its own room,
  its id is then in no room, its transport is closed, and no other connection or handler
  is touched (again below \<open>9 * 2 ^ 32\<close> received bytes).\<close>

theorem disconnect_removes_own_player:
  assumes "int (rx_bytes es) < 9 * 2 ^ 32" and "w = run (init_server tk) es"
    and "handlers w c = Some cs" and "live cs" and "c_room cs = Some a" and "ev = Eof c \<or> ev = Reset c"
  shows "let w' = fire ev w in
    (\<exists>cs'. handlers w' c = Some cs' \<and> pc cs' = Done None) \<and> w_lost (writers w' c)
    \<and> heap w' = (heap w)[a := room_leave (my_pid cs) (heap w ! a)]
    \<and> {b. pid_in w' b (my_pid cs)} = {}
    \<and> (\<forall>d. d \<noteq> c \<longrightarrow> handlers w' d = handlers w d \<and> writers w' d = writers w d)"
proof -
  have inv: "pid_inv w" using pid_inv_reach [OF assms(1)] assms(2) by simp
  then have ok: "pids_ok w" "rooms_ok w" by (simp_all add: pid_inv_def server_ok_def world_ok_def)
  have "registered w c (Some a, my_pid cs)" using inv assms(3-5) unfolding pid_inv_def all_registered_def by metis
  then have a: "pid_in w a (my_pid cs)" using registered_pid_in ok by blast
  then have pos: "my_pid cs > 0" "a < length (heap w)" using ok by (auto simp: pids_ok_def pid_in_def)
  define e where "e = (if ev = Eof c then IncompleteReadError else ConnectionError)"
  have f: "fire ev w = put_handler c (finish (Some e) c (cs\<lparr>inbuf := []\<rparr>) w)"
    using assms(3,4,6) by (auto simp: e_def stop_handler_def live_def split: await.split)
  have h: "heap (fire ev w) = (heap w)[a := room_leave (my_pid cs) (heap w ! a)]"
    unfolding f using assms(5) pos by (simp add: finish_def put_handler_def upd_room_def Let_def)
  have "b = a" if "pid_in (fire ev w) b (my_pid cs)" for b
  proof (rule ccontr)
    assume "b \<noteq> a"
    then have "pid_in w b (my_pid cs)" using that h by (simp add: pid_in_def)
    then show False using \<open>b \<noteq> a\<close> a ok(1) unfolding pids_ok_def by metis
  qed
  moreover have "\<not> pid_in (fire ev w) a (my_pid cs)"
    using h pos(2) by (simp add: pid_in_def room_leave_def keys_dict_pop)
  ultimately have "{b. pid_in (fire ev w) b (my_pid cs)} = {}" by blast
  moreover have "(\<exists>cs'. handlers (fire ev w) c = Some cs' \<and> pc cs' = Done None) \<and> w_lost (writers (fire ev w) c)
    \<and> (\<forall>d. d \<noteq> c \<longrightarrow> handlers (fire ev w) d = handlers w d \<and> writers (fire ev w) d = writers w d)"
    unfolding f using assms(5) pos by (simp add: finish_def put_handler_def w_close_def escapes_def e_def Let_def)
  ultimately show ?thesis using h unfolding Let_def by blast
qed

theorem disconnect_removes_own_player_witness:
  "let w = run (init_server (1 / 30)) demo_events in
    heap (fire (Eof 0) w) = (heap w)[0 := room_leave 1 (heap w ! 0)] \<and> {b. pid_in (fire (Eof 0) w) b 1} = {}"
proof -
  let ?cs = "\<lparr>inbuf = [], pc = AwaitHeader, c_room = Some 0, my_pid = 1, nodelay = True\<rparr>"
  have b: "int (rx_bytes demo_events) < 9 * 2 ^ 32" by (simp add: demo_events_def)
  have "handlers (run (init_server (1 / 30)) demo_events) 0 = Some ?cs" "live ?cs"
    by (simp add: demo_run) (auto simp: live_def)
  then show ?thesis
    using disconnect_removes_own_player [OF b refl, where tk = "1 / 30" and c = 0 and cs = ?cs and a = 0 and ev = "Eof 0"] unfolding Let_def by simp
qed

text \<open>A second JOIN on the same connection leaves the first player behind: after the client
  has joined rooms 7 and 8 and disconnected, its handler is over, player 1 is still in
  room 7 and player 2 has left room 8. Nothing ever removes player 1.\<close>

theorem rejoin_leaks_player:
  "let w = run (init_server (1 / 30)) (demo_events @ [Recv 0 [0, 0, 0, 5, 1, 0, 0, 0, 8], Eof 0]) in
    map r_id (heap w) = [7, 8] \<and> players (heap w ! 0) = [(1, Player 1)] \<and> conns (heap w ! 0) = [(1, 0)]
    \<and> players (heap w ! 1) = [] \<and> map_option pc (handlers w 0) = Some (Done None)"
  unfolding run_append demo_run Let_def by (simp add: exec_simps)

text \<open>The id counter wraps to 0, and \<open>if room and my_pid\<close> takes 0 for "not joined": after
  \<open>2 ^ 32\<close> sessions that each connect, join once and disconnect, no handler is alive and
  yet player 0 is still in the room.\<close>

theorem pid_zero_never_leaves:
  "let w = run (init_server tk) (sessions (2 ^ 32)) in
    {c. \<exists>cs. handlers w c = Some cs \<and> live cs} = {} \<and> players (heap w ! 0) = [(0, Player 0)]"
proof -
  define n :: nat where "n = 2 ^ 32 - 1"
  have n: "2 ^ 32 = Suc n" "n = Suc (n - 1)" "int n + 1 = 2 ^ 32" by (simp_all add: n_def)
  have "quiet tk n (run (init_server tk) (sessions n))"
    using sessions_quiet [of "n - 1" tk] n by simp
  note session_last [OF this n(3)]
  then show ?thesis unfolding n(1) sessions_Suc Let_def by auto
qed

end
