(* ===== verification/Server_Main.thy ===== *)
theory Server_Main
  imports PyStr Server_Pids
begin

text \<open>
  The command line of the Python server: \<open>parse_args\<close> and \<open>main\<close>, up to the point where
  the listener is open and the events of theory \<open>Server\<close> take over.
\<close>

section \<open>Definitions\<close>

definition addr_flag :: "string \<Rightarrow> bool" where
  "addr_flag s \<longleftrightarrow> s = ''-addr'' \<or> s = ''--addr''"

definition tick_flag :: "string \<Rightarrow> bool" where
  "tick_flag s \<longleftrightarrow> s = ''-tick'' \<or> s = ''--tick''"

definition port_of :: "string \<Rightarrow> int py" where
  "port_of s = py_int (last (split_on (CHR '':'') s))"

text \<open>The \<open>while\<close> loop of \<open>parse_args\<close> on the arguments from index \<open>i\<close> on.\<close>

fun parse_loop :: "string list \<Rightarrow> int \<Rightarrow> int \<Rightarrow> (int \<times> int) py" where
  "parse_loop [] port tick = Inr (port, tick)"
| "parse_loop [x] port tick = Inr (port, tick)"
| "parse_loop (x # y # a) port tick =
     (if addr_flag x then bindE (port_of y) (\<lambda>p. parse_loop a p tick)
      else if tick_flag x then bindE (py_int y) (\<lambda>t. parse_loop a port t)
      else parse_loop (y # a) port tick)"

definition parse_args :: "string list \<Rightarrow> (int \<times> int) py" where
  "parse_args argv = parse_loop (drop 1 argv) 9000 30"

text \<open>\<open>main\<close>: the port it listens on and the state the event loop starts from.\<close>

definition server_main :: "string list \<Rightarrow> (int \<times> server) py" where
  "server_main argv =
     bindE (parse_args argv)
       (\<lambda>(port, tick_hz). if tick_hz = 0 then Inl ZeroDivisionError
                          else Inr (port, init_server (1 / of_int tick_hz)))"

text \<open>Arguments that are none of the four options.\<close>

definition no_option :: "string \<Rightarrow> bool" where
  "no_option s \<longleftrightarrow> \<not> addr_flag s \<and> \<not> tick_flag s"

section \<open>Lemmas\<close>

lemma parse_loop_skip: "no_option x \<Longrightarrow> parse_loop (x # a) p t = parse_loop a p t"
  by (cases a) (auto simp: no_option_def)

lemma parse_loop_skips: "\<forall>x \<in> set xs. no_option x \<Longrightarrow> parse_loop (xs @ a) p t = parse_loop a p t"
  by (induction xs) (auto simp: parse_loop_skip)

lemma split_addr: "0 \<le> port \<Longrightarrow> CHR '':'' \<notin> set (py_str port)"
  using py_str_shape [of port] by (auto simp: list_all_iff dest: decimal_plain)

lemma last_addr: "0 \<le> port \<Longrightarrow> CHR '':'' \<notin> set host \<Longrightarrow>
  port_of (host @ '':'' @ py_str port) = Inr port"
  using split_on_snoc [of "CHR '':''" host "py_str port"] split_on_free [OF split_addr]
  by (simp add: port_of_def int_of_str)

lemma flags: "addr_flag ''-addr''" "tick_flag ''-tick''" "\<not> addr_flag ''-tick''"
  by (simp_all add: addr_flag_def tick_flag_def)

lemma parse_loop_options:
  assumes "0 \<le> port" and "CHR '':'' \<notin> set host"
  shows "parse_loop (''-addr'' # (host @ '':'' @ py_str port) # ''-tick'' # py_str tick # a) p t = parse_loop a port tick"
  using last_addr [OF assms] by (cases a) (simp_all add: int_of_str flags)

section \<open>Properties\<close>

text \<open>Command line. With \<open>-addr host:port\<close> and \<open>-tick n\<close> anywhere among other arguments,
  \<open>main\<close> listens on that port and starts with an empty server of period \<open>1 / n\<close>.\<close>

theorem server_main_options:
  assumes "0 \<le> port" and "tick \<noteq> 0" and "CHR '':'' \<notin> set host"
    and "\<forall>x \<in> set before \<union> set after. no_option x"
  shows "server_main (prog # before @ [''-addr'', host @ '':'' @ py_str port, ''-tick'', py_str tick] @ after)
    = Inr (port, init_server (1 / of_int tick))"
proof -
  have "parse_loop after port tick = Inr (port, tick)"
    using parse_loop_skips [of after "[]"] assms(4) by simp
  then show ?thesis
    using parse_loop_skips [of before] parse_loop_options [OF assms(1,3)] assms(2,4)
    by (simp add: server_main_def parse_args_def del: parse_loop.simps)
qed

theorem server_main_options_witness:
  "server_main [''server.py'', ''-v'', ''-addr'', '':9100'', ''-tick'', ''30'', ''-workers'', ''4''] =
    Inr (9100, init_server (1 / 30))"
proof -
  have s: "py_str 9100 = ''9100''" "py_str 30 = ''30''"
    by (simp_all add: str_eval)
  show ?thesis
    using server_main_options [of 9100 30 "[]" "[''-v'']" "[''-workers'', ''4'']" "''server.py''"] unfolding s
    by (simp add: no_option_def addr_flag_def tick_flag_def)
qed

text \<open>The command line fails in two ways only: \<open>int\<close> refuses a value, or the tick rate is
  0 and \<open>1.0 / tick_hz\<close> raises. In particular an option without a value is ignored.\<close>

theorem server_main_errors:
  "server_main argv \<in> range Inr \<union> {Inl ValueError, Inl ZeroDivisionError}
    \<and> (server_main argv = Inl ZeroDivisionError) = (\<exists>port. parse_args argv = Inr (port, 0))"
proof -
  have "parse_loop a p t \<in> range Inr \<union> {Inl ValueError}" for a p t
  proof (induction a p t rule: parse_loop.induct)
    case (3 x y a port tick)
    have e: "py_int s = Inl z \<Longrightarrow> z = ValueError" for s z
      by (auto simp: py_int_def Let_def split: option.splits)
    show ?case
      using 3 e by (cases "py_int y"; cases "port_of y") (auto simp: port_of_def)
  qed auto
  from this [of "drop 1 argv" 9000 30] show ?thesis
    by (cases "parse_args argv") (auto simp: server_main_def parse_args_def split: if_splits)
qed

text \<open>A negative tick rate is accepted and starves the process: with a clock that never
  runs backwards, the coroutine of every room, once started, never suspends again.\<close>

theorem negative_tick_starves:
  assumes "server_main argv = Inr (port, w)" and "parse_args argv = Inr (port, hz)" and "hz < 0"
    and "\<forall>t \<in> set ts. t0 \<le> t"
  shows "r_task (fst (resume (t0 # ts) (new_room rid (srv_tick w)) ws)) \<notin> range Sleeping"
proof -
  have tk: "srv_tick w = 1 / of_int hz" using assms(1-3) by (auto simp: server_main_def init_server_def)
  have "t0 + of_nat (Suc i) * srv_tick w \<le> ts ! i" if "i < length ts" for i
  proof -
    have "of_nat (Suc i) * srv_tick w \<le> 0"
      using assms(3) unfolding tk by (intro mult_nonneg_nonpos) auto
    then show ?thesis using assms(4) nth_mem [OF that] by force
  qed
  then show ?thesis
    using run_loop_holds_loop [of ts "(new_room rid (srv_tick w))\<lparr>r_nxt := t0\<rparr>" ws]
    by (simp add: resume_def new_room_def)
qed

theorem negative_tick_starves_witness:
  "r_task (fst (resume [0, 1, 2] (new_room 7 (- 1)) (\<lambda>_. new_writer))) \<notin> range Sleeping"
proof -
  have "server_main [''server.py'', ''-tick'', ''-1''] = Inr (9000, init_server (- 1))"
    "parse_args [''server.py'', ''-tick'', ''-1''] = Inr (9000, - 1)"
    by (simp_all add: server_main_def parse_args_def int_eval addr_flag_def tick_flag_def)
  then show ?thesis
    using negative_tick_starves [of "[''server.py'', ''-tick'', ''-1'']" 9000 "init_server (- 1)" "- 1" "[1, 2]" 0 7
        "\<lambda>_. new_writer"] by (simp add: init_server_def)
qed

end
