(* ===== verification/Loadgen.thy ===== *)
theory Loadgen
  imports Server_Pids
begin

text \<open>
  The protocol side of the Go load generator: how it writes frames, JOIN and MOVE, how it
  reads frames, and how its reader finds the acknowledged sequence number of its own player
  in a snapshot. The panics of Go's slicing are \<open>None\<close>. Timing and histograms are in theories
  \<open>Loadgen_Run\<close> and \<open>Hist\<close>.
\<close>

section \<open>Definitions\<close>

definition msgJoin :: byte where "msgJoin = 0x01"
definition msgMove :: byte where "msgMove = 0x02"
definition msgJoined :: byte where "msgJoined = 0x81"
definition msgSnapshot :: byte where "msgSnapshot = 0x82"

definition writeFrame :: "bytes \<Rightarrow> bytes" where
  "writeFrame payload = be_bytes 4 (int (length payload) mod 2 ^ 32) @ payload"

definition joinPayload :: "int \<Rightarrow> bytes" where
  "joinPayload room = msgJoin # be_bytes 4 room"

definition movePayload :: "int \<Rightarrow> int \<Rightarrow> int \<Rightarrow> bytes" where
  "movePayload sq dx dy = msgMove # be_bytes 4 sq @ be_bytes 2 (dx mod 2 ^ 16) @ be_bytes 2 (dy mod 2 ^ 16)"

text \<open>\<open>readFrame\<close> on what the connection will deliver: the payload and what is left, or an error.\<close>

definition readFrame :: "bytes \<Rightarrow> (bytes \<times> bytes) option" where
  "readFrame s =
     (if length s < 4 then None
      else let n = nat (be_val (take 4 s)); r = drop 4 s
           in if length r < n then None else Some (take n r, drop n r))"

definition u32_at :: "bytes \<Rightarrow> nat \<Rightarrow> int option" where
  "u32_at p off = (if off + 4 \<le> length p then Some (be_val (take 4 (drop off p))) else None)"

definition u16_at :: "bytes \<Rightarrow> nat \<Rightarrow> int option" where
  "u16_at p off = (if off + 2 \<le> length p then Some (be_val (take 2 (drop off p))) else None)"

text \<open>The loop over the entries: \<open>Some (Some s)\<close> when the own id is found with last sequence \<open>s\<close>.\<close>

fun scan :: "nat \<Rightarrow> nat \<Rightarrow> bytes \<Rightarrow> int \<Rightarrow> int option option" where
  "scan 0 off p myID = Some None"
| "scan (Suc k) off p myID =
     (case u32_at p off of
        None \<Rightarrow> None
      | Some v \<Rightarrow> if v = myID then map_option Some (u32_at p (off + 12)) else scan k (off + 16) p myID)"

definition readSnapshot :: "bytes \<Rightarrow> int \<Rightarrow> int option option" where
  "readSnapshot p myID =
     (case p of
        [] \<Rightarrow> None
      | t # _ \<Rightarrow>
          if t \<noteq> msgSnapshot then Some None
          else (case u16_at p 5 of None \<Rightarrow> None | Some count \<Rightarrow> scan (nat count) 7 p myID))"

text \<open>The id the client learns from a frame, while it waits for JOINED.\<close>

definition readJoined :: "bytes \<Rightarrow> int option option" where
  "readJoined p =
     (case p of
        [] \<Rightarrow> None
      | t # _ \<Rightarrow> if t = msgJoined then map_option Some (u32_at p 1) else Some None)"

section \<open>The two ends agree on the bytes\<close>

lemma msg_agree: "msgJoin = MSG_JOIN" "msgMove = MSG_MOVE" "msgJoined = MSG_JOINED" "msgSnapshot = MSG_SNAPSHOT"
  by (simp_all add: msgJoin_def msgMove_def msgJoined_def msgSnapshot_def msg_defs)

lemma writeFrame_frame: "length p \<le> MAX_FRAME \<Longrightarrow> writeFrame p = frame p"
  by (simp add: writeFrame_def frame_def MAX_FRAME_def)

lemma readFrame_frame: "payload_ok p \<Longrightarrow> readFrame (frame p @ s) = Some (p, s)"
  using payload_ok_length [of p] by (simp add: readFrame_def frame_def be_val_be_bytes Let_def)

lemma movePayload_enc: "movePayload sq dx dy = MSG_MOVE # enc [FI, Fh, Fh] [sq, dx, dy]"
  using be_bytes_mod [of 2 dx] be_bytes_mod [of 2 dy] by (simp add: movePayload_def msg_agree)

lemma movePayload_ok: "payload_ok (movePayload sq dx dy)" "length (movePayload sq dx dy) = 9"
  by (simp_all add: movePayload_def payload_ok_def MAX_FRAME_def)

lemma u32_at_mid: "in_range FI n \<Longrightarrow> u32_at (pre @ be_bytes 4 n @ post) (length pre) = Some n"
  by (simp add: u32_at_def be_val_be_bytes in_range_def)

lemma entry_fields: "entry p = be_bytes 4 (p_id p) @ (be_bytes 4 (p_x p) @ be_bytes 4 (p_y p)) @ be_bytes 4 (last_seq p)"
  by (simp add: entry_def)

lemma scan_entries:
  assumes "\<forall>q \<in> set ps. in_range FI (p_id q) \<and> in_range FI (last_seq q)" and "length pre = off"
  shows "scan (length ps) off (pre @ concat (map entry ps)) me = Some (map_option last_seq (find (\<lambda>q. p_id q = me) ps))"
  using assms
proof (induction ps arbitrary: pre off)
  case (Cons q ps)
  let ?rest = "concat (map entry ps)"
  have s: "pre @ concat (map entry (q # ps)) = pre @ be_bytes 4 (p_id q) @ (be_bytes 4 (p_x q) @ be_bytes 4 (p_y q) @
      be_bytes 4 (last_seq q) @ ?rest)" by (simp add: entry_fields)
  have id: "u32_at (pre @ concat (map entry (q # ps))) off = Some (p_id q)"
    unfolding s using u32_at_mid [of "p_id q" pre] Cons.prems by simp
  have s2: "pre @ concat (map entry (q # ps)) = (pre @ be_bytes 4 (p_id q) @ be_bytes 4 (p_x q) @ be_bytes 4 (p_y q)) @
      be_bytes 4 (last_seq q) @ ?rest" by (simp add: entry_fields)
  have sq: "u32_at (pre @ concat (map entry (q # ps))) (off + 12) = Some (last_seq q)"
    unfolding s2 using u32_at_mid [of "last_seq q" "pre @ be_bytes 4 (p_id q) @ be_bytes 4 (p_x q) @ be_bytes 4 (p_y q)" ?rest]
      Cons.prems by (simp add: add.assoc)
  have "scan (length ps) (off + 16) ((pre @ entry q) @ ?rest) me = Some (map_option last_seq (find (\<lambda>q. p_id q = me) ps))"
    using Cons.prems by (intro Cons.IH) (auto simp: entry_fields)
  then show ?case using id sq by simp
qed simp

lemma readSnapshot_payload:
  assumes "\<forall>q \<in> set ps. in_range FI (p_id q) \<and> in_range FI (last_seq q)" and "length ps \<le> 65535"
  shows "readSnapshot (snapshot_payload t ps) me = Some (map_option last_seq (find (\<lambda>q. p_id q = me) ps))"
proof -
  let ?h = "MSG_SNAPSHOT # be_bytes 4 t @ be_bytes 2 (int (length ps))"
  have p: "snapshot_payload t ps = ?h @ concat (map entry ps)" by (simp add: snapshot_payload_def)
  have "take 2 (drop 5 (?h @ concat (map entry ps))) = be_bytes 2 (int (length ps))" by simp
  then have "u16_at (?h @ concat (map entry ps)) 5 = Some (int (length ps))"
    using assms(2) by (simp add: u16_at_def be_val_be_bytes)
  moreover have "scan (length ps) 7 (?h @ concat (map entry ps)) me = Some (map_option last_seq (find (\<lambda>q. p_id q = me) ps))"
    using assms(1) by (intro scan_entries) simp_all
  ultimately show ?thesis unfolding p by (simp add: readSnapshot_def msg_agree)
qed

lemma find_player:
  assumes "room_ok r" and "dict_get (players r) k = Some p"
  shows "find (\<lambda>q. p_id q = k) (map advance (vals (players r))) = Some (advance p)"
proof -
  have ids: "\<forall>(j, q) \<in> set (players r). p_id q = j" using assms(1) by (auto simp: room_ok_def)
  have "find (\<lambda>q. p_id q = k) (map advance (vals d)) = Some (advance p)"
    if "dict_get d k = Some p" "\<forall>(j, q) \<in> set d. p_id q = j" for d
    using that by (induction d) (auto simp: advance_def split: if_splits)
  then show ?thesis using assms(2) ids by blast
qed

lemma advanced_entries_ok:
  "room_ok r \<Longrightarrow> \<forall>q \<in> set (map advance (vals (players r))). in_range FI (p_id q) \<and> in_range FI (last_seq q)"
  by (auto simp: room_ok_def player_ok_def advance_def)

section \<open>A client against the server\<close>

lemma recv_move:
  assumes "handlers w c = Some cs" and "pc cs = AwaitHeader" and "inbuf cs = []" and "c_room cs = Some a"
    and "in_range FI sq" and "in_range Fh dx" and "in_range Fh dy"
  shows "fire (Recv c (writeFrame (movePayload sq dx dy))) w =
    put_handler c (cs, upd_room a (room_move (my_pid cs) sq dx dy) w)"
proof -
  let ?p = "movePayload sq dx dy"
  have fit: "fits [FI, Fh, Fh] [sq, dx, dy]" using assms(5-7) by (simp add: fits_def)
  have "on_frame c ?p (Some a, my_pid cs) w = (None, (Some a, my_pid cs), upd_room a (room_move (my_pid cs) sq dx dy) w)"
    using on_frame_move [of MSG_MOVE "enc [FI, Fh, Fh] [sq, dx, dy]" "(Some a, my_pid cs)" a "my_pid cs" c w]
      unpack_all_enc [OF fit, of "[]"] length_enc [OF fit]
    unfolding movePayload_enc by (simp del: enc.simps unpack_all.simps)
  then have "handle_loop c (cs\<lparr>inbuf := frame ?p @ []\<rparr>) w =
      handle_loop c (set_locals (Some a, my_pid cs) (cs\<lparr>inbuf := []\<rparr>)) (upd_room a (room_move (my_pid cs) sq dx dy) w)"
    using handle_loop_frame [OF assms(2) movePayload_ok(1), of c sq dx dy "[]" w] assms(4) by simp
  moreover have "set_locals (Some a, my_pid cs) (cs\<lparr>inbuf := []\<rparr>) = cs"
    using assms(3,4) by (cases cs) (simp add: set_locals_def)
  moreover have "blocked cs" using assms(2,3) by (simp add: blocked_def)
  ultimately have "handle_loop c (cs\<lparr>inbuf := inbuf cs @ frame ?p\<rparr>) w = (cs, upd_room a (room_move (my_pid cs) sq dx dy) w)"
    using assms(3) by (simp add: handle_loop_blocked)
  then show ?thesis
    using assms(1) writeFrame_frame [of ?p] movePayload_ok(2) [of sq dx dy] by (simp add: MAX_FRAME_def)
qed

lemma count_conns: "dict_get d k = Some c \<Longrightarrow> 0 < count_list (vals d) c"
  by (induction d) (auto split: if_splits)

lemma heap_room_ok: "rooms_ok w \<Longrightarrow> a < length (heap w) \<Longrightarrow> room_ok (heap w ! a)"
  using nth_mem room_reach_ok unfolding rooms_ok_def room_good_def by blast

lemma recv_join:
  assumes "handlers w c = Some cs" and "pc cs = AwaitHeader" and "inbuf cs = []" and "in_range FI rid"
    and "healthy (writers w c)" and "get_room rid w = (a, w1)"
  shows "\<exists>w2. fire (Recv c (writeFrame (joinPayload rid))) w =
      put_handler c (cs\<lparr>c_room := Some a, my_pid := new_pid (next_pid w1)\<rparr>, w2)
    \<and> w_out (writers w2 c) = w_out (writers w c) @ frame (MSG_JOINED # enc [FI, FI] [new_pid (next_pid w1), rid])
    \<and> heap w2 = (heap w1)[a := snd (snd (room_join c (next_pid w1) (heap w1 ! a)))]"
proof -
  let ?p = "joinPayload rid" and ?pid = "new_pid (next_pid w1)"
  have p: "?p = MSG_JOIN # be_bytes 4 rid" "payload_ok ?p" "length ?p = 5"
    by (simp_all add: joinPayload_def msg_agree payload_ok_def MAX_FRAME_def)
  have rid: "unpack_all [FI] (be_bytes 4 rid) ! 0 = rid"
    using unpack_all_enc [of "[FI]" "[rid]" "[]"] assms(4) by (simp add: fits_def)
  have ws: "writers w1 = writers w" using assms(6) by (cases rule: get_room_cases) simp_all
  let ?f = "frame (MSG_JOINED # enc [FI, FI] [?pid, rid])"
  obtain wr where wr: "w_write ?f (writers w c) = Inr wr" "w_out wr = w_out (writers w c) @ ?f"
    using assms(5) by (auto simp: w_write_def)
  define w2 where "w2 = ((upd_room a (\<lambda>r. snd (snd (room_join c (next_pid w1) r))) w1)\<lparr>next_pid := ?pid\<rparr>)\<lparr>writers := (writers w1)(c := wr)\<rparr>"
  have j: "on_frame c ?p loc w = (None, (Some a, ?pid), w2)" for loc
    unfolding p(1) using on_frame_join(1) [of MSG_JOIN "be_bytes 4 rid" c loc w] rid on_join_eq [OF assms(6,4), of c] wr ws
    by (simp add: Let_def w2_def)
  have "handle_loop c (cs\<lparr>inbuf := frame ?p @ []\<rparr>) w = handle_loop c (set_locals (Some a, ?pid) (cs\<lparr>inbuf := []\<rparr>)) w2"
    using handle_loop_frame [OF assms(2) p(2), of c "[]" w] j by simp
  moreover have "set_locals (Some a, ?pid) (cs\<lparr>inbuf := []\<rparr>) = cs\<lparr>c_room := Some a, my_pid := ?pid\<rparr>"
    using assms(3) by (cases cs) (simp add: set_locals_def)
  moreover have "blocked (cs\<lparr>c_room := Some a, my_pid := ?pid\<rparr>)" using assms(2,3) by (simp add: blocked_def)
  ultimately have "handle_loop c (cs\<lparr>inbuf := inbuf cs @ frame ?p\<rparr>) w = (cs\<lparr>c_room := Some a, my_pid := ?pid\<rparr>, w2)"
    using assms(3) by (simp add: handle_loop_blocked)
  then show ?thesis
    using assms(1) writeFrame_frame [of ?p] p(3) wr(2) by (intro exI [of _ w2]) (simp add: MAX_FRAME_def w2_def upd_room_def)
qed

text \<open>C20: Handshake. A JOIN the load generator sends on a fresh connection puts the client into
  the room of that id, and the bytes the server sends back are one frame from which the
  client reads exactly the player id it was entered under.\<close>

theorem join_handshake:
  assumes "w = run (init_server tk) es" and "handlers w c = Some cs" and "pc cs = AwaitHeader" and "inbuf cs = []"
    and "in_range FI rid" and "healthy (writers w c)" and "w' = fire (Recv c (writeFrame (joinPayload rid))) w"
  shows "\<exists>a pid p. map_option (\<lambda>cs'. (c_room cs', my_pid cs')) (handlers w' c) = Some (Some a, pid)
    \<and> r_id (heap w' ! a) = rid \<and> dict_get (players (heap w' ! a)) pid = Some (Player pid)
    \<and> dict_get (conns (heap w' ! a)) pid = Some c
    \<and> w_out (writers w' c) = w_out (writers w c) @ writeFrame p \<and> readFrame (writeFrame p) = Some (p, [])
    \<and> readJoined p = Some (Some pid)"
proof -
  obtain a w1 where g: "get_room rid w = (a, w1)" by fastforce
  let ?pid = "new_pid (next_pid w1)"
  let ?p = "MSG_JOINED # enc [FI, FI] [?pid, rid]"
  have "rooms_ok w" using run_ok [OF server_ok_init] assms(1) by (simp add: server_ok_def world_ok_def)
  then have a: "a < length (heap w1)" "r_id (heap w1 ! a) = rid" using get_room_ok [OF _ assms(5) g] by auto
  obtain w2 where w2: "w' = put_handler c (cs\<lparr>c_room := Some a, my_pid := ?pid\<rparr>, w2)"
    "w_out (writers w2 c) = w_out (writers w c) @ frame ?p"
    "heap w2 = (heap w1)[a := snd (snd (room_join c (next_pid w1) (heap w1 ! a)))]"
    using recv_join [OF assms(2-6) g] assms(7) by blast
  have pok: "payload_ok ?p" by (rule joined_frame_ok [OF new_pid_range assms(5)])
  then have f: "writeFrame ?p = frame ?p" using writeFrame_frame by (simp add: payload_ok_def)
  have "readJoined ?p = Some (Some ?pid)"
    using u32_at_mid [OF new_pid_range, of "[MSG_JOINED]" "next_pid w1" "be_bytes 4 rid"] by (simp add: readJoined_def msg_agree)
  moreover have "readFrame (writeFrame ?p) = Some (?p, [])" using readFrame_frame [OF pok, of "[]"] f by simp
  ultimately show ?thesis
    using w2 a f by (intro exI [of _ a] exI [of _ ?pid] exI [of _ ?p])
      (simp add: put_handler_def room_join_def Let_def get_dict_set del: enc.simps)
qed

theorem join_handshake_witness:
  "let w = run (init_server (1 / 30)) [Connect 3 True]; w' = fire (Recv 3 (writeFrame (joinPayload 7))) w in
    \<exists>a pid p. map_option (\<lambda>cs'. (c_room cs', my_pid cs')) (handlers w' 3) = Some (Some a, pid)
      \<and> r_id (heap w' ! a) = 7 \<and> w_out (writers w' 3) = writeFrame p \<and> readJoined p = Some (Some pid)"
proof -
  let ?w = "run (init_server (1 / 30)) [Connect 3 True]"
  have h: "handlers ?w 3 = Some (new_conn True)" "healthy (writers ?w 3)" "w_out (writers ?w 3) = []"
    by (simp_all add: server_step_def loop_held_def init_server_def new_writer_def)
  have n: "pc (new_conn True) = AwaitHeader" "inbuf (new_conn True) = []" "in_range FI 7"
    by (simp_all add: new_conn_def in_range_def)
  from join_handshake [OF refl h(1) n h(2) refl] show ?thesis unfolding Let_def h(3) by auto
qed

text \<open>A client that has joined sends one MOVE; at the next tick of its room the server sends it,
  whatever the other players do, at least one frame more, and the client reads from that
  frame, in the entry of its own id, the sequence number it sent.\<close>

lemma move_is_acknowledged:
  assumes "int (rx_bytes es) < 9 * 2 ^ 32" and "w = run (init_server tk) es"
    and "handlers w c = Some cs" and "pc cs = AwaitHeader" and "inbuf cs = []" and "c_room cs = Some a"
    and "healthy (writers w c)" and "in_range FI sq" and "in_range Fh dx" and "in_range Fh dy"
    and "w' = fire (Recv c (writeFrame (movePayload sq dx dy))) w" and "snapshot_ok (tick_room (heap w' ! a))"
  shows "\<exists>k p. w_out (snd (snd (step (heap w' ! a) (writers w'))) c) = w_out (writers w c) @ concat (replicate (Suc k) (writeFrame p))
    \<and> (\<forall>rest. readFrame (writeFrame p @ rest) = Some (p, rest)) \<and> readSnapshot p (my_pid cs) = Some (Some sq)"
proof -
  let ?r = "heap w ! a" and ?k = "my_pid cs"
  have inv: "pid_inv w" using pid_inv_reach [OF assms(1)] assms(2) by simp
  have "live cs" using assms(4) by (auto simp: live_def)
  then have "registered w c (Some a, ?k)"
    using inv assms(3,6) unfolding pid_inv_def all_registered_def by metis
  then have a: "a < length (heap w)" "dict_get (conns ?r) ?k = Some c" by (auto simp: registered_def)
  have rooms: "rooms_ok w" using inv by (simp add: pid_inv_def server_ok_def world_ok_def)
  then have "pid_in w a ?k" using registered_pid_in \<open>registered w c (Some a, ?k)\<close> by blast
  then obtain q where q: "dict_get (players ?r) ?k = Some q"
    by (auto simp: pid_in_def) (metis map_of_eq_None_iff not_None_eq rev_image_eqI fst_conv)
  have w': "w' = put_handler c (cs, upd_room a (room_move ?k sq dx dy) w)"
    using assms(11) recv_move [OF assms(3-6,8-10)] by simp
  let ?r' = "room_move ?k sq dx dy ?r"
  have h: "heap w' ! a = ?r'" "writers w' = writers w" using w' a(1) by (simp_all add: put_handler_def upd_room_def)
  have ok: "room_ok ?r'"
    using heap_room_ok [OF rooms a(1)] by (rule room_ok_move [OF _ assms(8-10)])
  have q': "dict_get (players ?r') ?k = Some (q\<lparr>p_vx := dx, p_vy := dy, last_seq := sq\<rparr>)" "conns ?r' = conns ?r"
    using q by (simp_all add: room_move_def get_dict_set)
  let ?ps = "map advance (vals (players ?r'))"
  let ?p = "snapshot_payload (tick_no (tick_room ?r')) ?ps"
  have snap: "snapshot_ok (tick_room ?r')" using assms(12) h by simp
  have pok: "payload_ok ?p" using snapshot_payload_ok [OF room_ok_tick [OF ok] snap] by simp
  have f: "writeFrame ?p = frame ?p" using writeFrame_frame pok by (simp add: payload_ok_def)
  have n: "0 < count_list (vals (conns ?r')) c" using count_conns a(2) q'(2) by simp
  have "w_out (snd (snd (step ?r' (writers w))) c) = w_out (writers w c) @ concat (replicate (count_list (vals (conns ?r')) c) (writeFrame ?p))"
    using broadcast_out assms(7) snap f by (simp add: step_cases [OF ok])
  moreover have "length ?ps \<le> 65535" using snap by (simp add: snapshot_ok_def)
  then have "readSnapshot ?p ?k = Some (Some sq)"
    using readSnapshot_payload [OF advanced_entries_ok [OF ok]] find_player [OF ok q'(1)] by (simp add: advance_def)
  moreover have "readFrame (writeFrame ?p @ rest) = Some (?p, rest)" for rest using f readFrame_frame [OF pok] by simp
  ultimately show ?thesis
    using h n by (intro exI [of _ "count_list (vals (conns ?r')) c - 1"] exI [of _ ?p]) simp
qed

end
