(* ===== verification/PyNum.thy ===== *)
theory PyNum
  imports PyStr
begin

text \<open>
  Numbers as the runner and the report use them: \<open>round\<close>, \<open>float(s)\<close>, the format
  specifications \<open>.1f\<close>, \<open>.2f\<close>, \<open>,.0f\<close> and \<open>,\<close>, \<open>Number.toFixed\<close> with the thousands
  separator of the client-side script, and the floor of the decimal logarithm. A float is the exact rational it stands for, so
  rounding to 53 bits and the sign of zero are not modelled. Text that Python reads as an
  infinity or as not a number has no rational value: \<open>py_float\<close> gives \<open>OutOfModel\<close> there.
\<close>

section \<open>Rounding\<close>

text \<open>\<open>round(x, d)\<close>: to the nearest multiple of \<open>10 ^ - d\<close>, halves to even.\<close>

definition round_even :: "rat \<Rightarrow> int" where
  "round_even x =
     (let f = \<lfloor>x\<rfloor>; r = x - of_int f
      in if r < 1 / 2 then f else if r > 1 / 2 then f + 1 else if even f then f else f + 1)"

definition round_nd :: "rat \<Rightarrow> nat \<Rightarrow> rat" where
  "round_nd x d = of_int (round_even (x * 10 ^ d)) / 10 ^ d"

text \<open>\<open>toFixed\<close>: of two nearest integers the larger one.\<close>

definition round_up :: "rat \<Rightarrow> int" where
  "round_up x = \<lfloor>x + 1 / 2\<rfloor>"

section \<open>Printing\<close>

text \<open>A comma before every group of three digits that is followed by the end.\<close>

fun thousands :: "string \<Rightarrow> string" where
  "thousands [] = []"
| "thousands (c # cs) =
     (if cs \<noteq> [] \<and> length cs mod 3 = 0 then c # CHR '','' # thousands cs else c # thousands cs)"

definition pad_digits :: "nat \<Rightarrow> nat \<Rightarrow> string" where
  "pad_digits d n = replicate (d - length (nat_digits n)) (CHR ''0'') @ nat_digits n"

text \<open>The integer \<open>n\<close> read in units of \<open>10 ^ - d\<close>.\<close>

definition fixed_digits :: "bool \<Rightarrow> nat \<Rightarrow> nat \<Rightarrow> string" where
  "fixed_digits comma d n =
     (if comma then thousands (nat_digits (n div 10 ^ d)) else nat_digits (n div 10 ^ d)) @
     (if d = 0 then [] else CHR ''.'' # pad_digits d (n mod 10 ^ d))"

definition sign :: "rat \<Rightarrow> string" where
  "sign v = (if v < 0 then ''-'' else [])"

definition fmt_fixed :: "bool \<Rightarrow> nat \<Rightarrow> rat \<Rightarrow> string" where
  "fmt_fixed comma d v = sign v @ fixed_digits comma d (nat (round_even (\<bar>v\<bar> * 10 ^ d)))"

definition fmt_comma :: "int \<Rightarrow> string" where
  "fmt_comma n = sign (of_int n) @ thousands (nat_digits (nat \<bar>n\<bar>))"

text \<open>
  \<open>toFixed\<close> falls back to \<open>Number.toString\<close> from \<open>10 ^ 21\<close> on; that function is the
  argument \<open>num_str\<close>.
\<close>

definition to_fixed :: "(rat \<Rightarrow> string) \<Rightarrow> nat \<Rightarrow> rat \<Rightarrow> string" where
  "to_fixed num_str d v =
     sign v @ (if \<bar>v\<bar> \<ge> 10 ^ 21 then num_str \<bar>v\<bar> else fixed_digits False d (nat (round_up (\<bar>v\<bar> * 10 ^ d))))"

text \<open>
  The replacement \<open>/\B(?=(\d{3})+(?!\d))/g\<close>: a comma at every place that is no word boundary and
  from which on the digits come in threes.
\<close>

definition is_word :: "char \<Rightarrow> bool" where
  "is_word c \<longleftrightarrow> is_decimal c \<or> (65 \<le> ord c \<and> ord c \<le> 90) \<or> (97 \<le> ord c \<and> ord c \<le> 122) \<or> c = CHR ''_''"

definition word_boundary :: "char option \<Rightarrow> char \<Rightarrow> bool" where
  "word_boundary before c \<longleftrightarrow> (case before of None \<Rightarrow> is_word c | Some b \<Rightarrow> is_word b \<noteq> is_word c)"

definition threes_ahead :: "string \<Rightarrow> bool" where
  "threes_ahead s \<longleftrightarrow> (let n = length (takeWhile is_decimal s) in n \<noteq> 0 \<and> n mod 3 = 0)"

fun js_commas :: "char option \<Rightarrow> string \<Rightarrow> string" where
  "js_commas before [] = []"
| "js_commas before (c # cs) =
     (if \<not> word_boundary before c \<and> threes_ahead (c # cs) then CHR '','' # c # js_commas (Some c) cs
      else c # js_commas (Some c) cs)"

definition js_fmt :: "(rat \<Rightarrow> string) \<Rightarrow> nat \<times> bool \<Rightarrow> rat \<Rightarrow> string" where
  "js_fmt num_str spec v =
     (let s = to_fixed num_str (fst spec) v
      in if snd spec then
           (case split_on (CHR ''.'') s of [] \<Rightarrow> s | p0 # ps \<Rightarrow> join ''.'' (js_commas None p0 # ps))
         else s)"

section \<open>Reading\<close>

text \<open>A run of digits; a single underscore may stand between two digits.\<close>

fun digit_run :: "string \<Rightarrow> string \<times> string" where
  "digit_run (c # u # d # s) =
     (if is_decimal c then
        (if u = CHR ''_'' \<and> is_decimal d then (let (ds, r) = digit_run (d # s) in (c # ds, r))
         else (let (ds, r) = digit_run (u # d # s) in (c # ds, r)))
      else ([], c # u # d # s))"
| "digit_run [c, u] =
     (if is_decimal c then (let (ds, r) = digit_run [u] in (c # ds, r)) else ([], [c, u]))"
| "digit_run [c] = (if is_decimal c then ([c], []) else ([], [c]))"
| "digit_run [] = ([], [])"

definition decimal_val :: "string \<Rightarrow> int" where
  "decimal_val ds = foldl (\<lambda>a c. a * 10 + digit_val c) 0 ds"

definition pow10 :: "int \<Rightarrow> rat" where
  "pow10 e = (if e \<ge> 0 then 10 ^ nat e else 1 / 10 ^ nat (- e))"

definition exponent :: "string \<Rightarrow> int option" where
  "exponent s =
     (let (neg, t) = (case s of c # r \<Rightarrow> if c = CHR ''-'' then (True, r) else if c = CHR ''+'' then (False, r) else (False, s)
                              | [] \<Rightarrow> (False, []));
          (ds, r) = digit_run t
      in if ds = [] \<or> r \<noteq> [] then None else Some (if neg then - decimal_val ds else decimal_val ds))"

definition is_exp_mark :: "char \<Rightarrow> bool" where
  "is_exp_mark c \<longleftrightarrow> c = CHR ''e'' \<or> c = CHR ''E''"

definition unsigned_float :: "string \<Rightarrow> rat option" where
  "unsigned_float s =
     (let (ip, r1) = digit_run s;
          (fp, r2) = (case r1 of c # r \<Rightarrow> if c = CHR ''.'' then digit_run r else ([], r1) | [] \<Rightarrow> ([], []));
          mant = of_int (decimal_val (ip @ fp)) / 10 ^ length fp
      in if ip = [] \<and> fp = [] then None
         else case r2 of
                [] \<Rightarrow> Some mant
              | c # r \<Rightarrow> if is_exp_mark c then map_option (\<lambda>e. mant * pow10 e) (exponent r) else None)"

definition lower :: "char \<Rightarrow> char" where
  "lower c = (if 65 \<le> ord c \<and> ord c \<le> 90 then char_of (ord c + 32) else c)"

definition nonfinite_word :: "string \<Rightarrow> bool" where
  "nonfinite_word s \<longleftrightarrow> map lower s \<in> {''inf'', ''infinity'', ''nan''}"

text \<open>From here on a literal is rounded to infinity.\<close>

definition float_limit :: rat where
  "float_limit = 2 ^ 1024 - 2 ^ 970"

definition py_float :: "string \<Rightarrow> rat py" where
  "py_float s =
     (let t = strip s;
          (neg, u) = (case t of c # r \<Rightarrow> if c = CHR ''-'' then (True, r) else if c = CHR ''+'' then (False, r) else (False, t)
                             | [] \<Rightarrow> (False, []))
      in if nonfinite_word u then Inl OutOfModel
         else case unsigned_float u of
                None \<Rightarrow> Inl ValueError
              | Some v \<Rightarrow> if v \<ge> float_limit then Inl OutOfModel else Inr (if neg then - v else v))"

section \<open>Laws of rounding\<close>

lemma round_even_near: "\<bar>of_int (round_even x) - x\<bar> \<le> 1 / 2"
proof -
  define f where "f = \<lfloor>x\<rfloor>"
  have "of_int f \<le> x" "x < of_int f + 1" using floor_correct [of x] by (auto simp: f_def)
  then show ?thesis unfolding round_even_def Let_def f_def [symmetric] by (auto simp: abs_le_iff)
qed

lemma round_even_int [simp]: "round_even (of_int n) = n"
  by (simp add: round_even_def)

lemma round_even_nonneg: "0 \<le> x \<Longrightarrow> 0 \<le> round_even x"
  by (auto simp: round_even_def Let_def)

lemma round_even_mono: "x \<le> y \<Longrightarrow> round_even x \<le> round_even y"
proof (rule ccontr)
  assume le: "x \<le> y" and "\<not> round_even x \<le> round_even y"
  then have "of_int (round_even y) + 1 \<le> (of_int (round_even x) :: rat)" by linarith
  then have x: "x = y" "of_int (round_even y) + 1 / 2 = y"
    using round_even_near [of x] round_even_near [of y] le by (auto simp: abs_le_iff)
  then show False using \<open>\<not> round_even x \<le> round_even y\<close> by simp
qed

lemma round_even_minus: "round_even (- x) = - round_even x"
proof (cases "x = of_int \<lfloor>x\<rfloor>")
  case True
  then show ?thesis by (metis of_int_minus round_even_int)
next
  case False
  then have "\<lfloor>- x\<rfloor> = - \<lfloor>x\<rfloor> - 1" by linarith
  then show ?thesis by (auto simp: round_even_def Let_def)
qed

lemma round_up_nonneg: "0 \<le> x \<Longrightarrow> 0 \<le> round_up x"
  by (simp add: round_up_def)

text \<open>The two ways of rounding differ on a tie above an even number, and nowhere else.\<close>

lemma round_up_even: "round_up x = round_even x \<longleftrightarrow> \<not> (x = of_int \<lfloor>x\<rfloor> + 1 / 2 \<and> even \<lfloor>x\<rfloor>)"
proof -
  have "\<lfloor>x + 1 / 2\<rfloor> = (if x - of_int \<lfloor>x\<rfloor> < 1 / 2 then \<lfloor>x\<rfloor> else \<lfloor>x\<rfloor> + 1)" by (simp add: floor_eq_iff) linarith
  then show ?thesis by (auto simp: round_up_def round_even_def Let_def)
qed

section \<open>Digits\<close>

lemma decimal_val_append: "decimal_val (xs @ ys) = decimal_val xs * 10 ^ length ys + decimal_val ys"
proof -
  have shift: "foldl (\<lambda>a c. a * 10 + digit_val c) a ys = a * 10 ^ length ys + foldl (\<lambda>a c. a * 10 + digit_val c) 0 ys" for a
  proof (induction ys rule: rev_induct)
    case (snoc y ys)
    then show ?case by (simp add: algebra_simps)
  qed simp
  show ?thesis unfolding decimal_val_def foldl_append by (rule shift)
qed

lemma decimal_val_digits [simp]: "decimal_val (nat_digits n) = int n"
  by (simp add: decimal_val_def foldl_nat_digits)

lemma decimal_val_zeros [simp]: "decimal_val (replicate k (CHR ''0'')) = 0"
proof -
  have "foldl (\<lambda>a c. a * 10 + digit_val c) 0 (replicate k (CHR ''0'')) = 0"
    by (induction k) (auto simp: digit_val_def)
  then show ?thesis by (simp add: decimal_val_def)
qed

lemma list_all_replicate: "list_all P (replicate n x) \<longleftrightarrow> n = 0 \<or> P x"
  by (induction n) auto

lemma decimal_zero: "is_decimal (CHR ''0'')"
  by (simp add: is_decimal_def)

lemma length_nat_digits: "n < 10 ^ d \<Longrightarrow> 0 < d \<Longrightarrow> length (nat_digits n) \<le> d"
proof (induction d arbitrary: n)
  case (Suc d)
  show ?case
  proof (cases "n < 10")
    case False
    then have "n div 10 < 10 ^ d" "0 < d" using Suc.prems by (auto intro!: less_mult_imp_div_less Nat.gr0I)
    then show ?thesis using Suc.IH [of "n div 10"] False by (subst nat_digits.simps) simp
  qed (subst nat_digits.simps, simp)
qed simp

lemma pad_digits:
  assumes "n < 10 ^ d" and "0 < d"
  shows "length (pad_digits d n) = d" "decimal_val (pad_digits d n) = int n" "list_all is_decimal (pad_digits d n)"
  using length_nat_digits [OF assms] nat_digits_decimal [of n]
  by (simp_all add: pad_digits_def decimal_val_append list_all_append list_all_replicate decimal_zero)

lemma digit_run_digits:
  assumes "list_all is_decimal ds" and "rest = [] \<or> (\<not> is_decimal (hd rest) \<and> hd rest \<noteq> CHR ''_'')"
  shows "digit_run (ds @ rest) = (ds, rest)"
  using assms(1)
proof (induction ds)
  case Nil
  then show ?case using assms(2) by (cases rest rule: digit_run.cases) auto
next
  case (Cons c ds)
  have "\<not> is_decimal (CHR ''_'')" by (simp add: is_decimal_def)
  then have "ds @ rest = [] \<or> hd (ds @ rest) \<noteq> CHR ''_''"
    using assms(2) Cons.prems by (cases ds) auto
  then show ?case using Cons by (cases "c # ds @ rest" rule: digit_run.cases) (auto simp: Let_def)
qed

section \<open>What is printed is what is read\<close>

lemma unsigned_float_fixed:
  "unsigned_float (fixed_digits False d n) = Some (of_nat n / 10 ^ d)"
proof (cases "d = 0")
  case True
  have "digit_run (nat_digits n @ []) = (nat_digits n, [])" using nat_digits_decimal by (intro digit_run_digits) auto
  then show ?thesis using True nat_digits_decimal [of n] by (simp add: fixed_digits_def unsigned_float_def)
next
  case False
  define i r where "i = n div 10 ^ d" and "r = n mod 10 ^ d"
  have r: "r < 10 ^ d" "0 < d" using False by (auto simp: r_def)
  have "digit_run (nat_digits i @ CHR ''.'' # pad_digits d r) = (nat_digits i, CHR ''.'' # pad_digits d r)"
    using nat_digits_decimal by (intro digit_run_digits) (auto simp: is_decimal_def)
  moreover have "digit_run (pad_digits d r @ []) = (pad_digits d r, [])" using pad_digits(3) [OF r] by (intro digit_run_digits) auto
  moreover have "i * 10 ^ d + r = n" unfolding i_def r_def by (rule div_mult_mod_eq)
  then have "of_int (int i * 10 ^ d + int r) = (of_nat n :: rat)" by auto
  ultimately show ?thesis using False nat_digits_decimal [of i] pad_digits [OF r]
    by (simp add: fixed_digits_def unsigned_float_def decimal_val_append flip: i_def r_def)
qed

lemma fixed_digits_chars:
  "list_all (\<lambda>c. is_decimal c \<or> c = CHR ''.'') (fixed_digits False d n)"
  "fixed_digits False d n \<noteq> []" "is_decimal (hd (fixed_digits False d n))" "is_decimal (last (fixed_digits False d n))"
proof -
  have i: "list_all is_decimal (nat_digits (n div 10 ^ d))" "nat_digits (n div 10 ^ d) \<noteq> []" using nat_digits_decimal by auto
  have f: "list_all is_decimal (pad_digits d (n mod 10 ^ d))" "pad_digits d (n mod 10 ^ d) \<noteq> []" if "d \<noteq> 0"
    using that pad_digits [of "n mod 10 ^ d" d] by auto
  show "list_all (\<lambda>c. is_decimal c \<or> c = CHR ''.'') (fixed_digits False d n)"
    using i(1) f(1) by (cases "d = 0") (auto simp: fixed_digits_def list_all_iff)
  show "fixed_digits False d n \<noteq> []" using i by (simp add: fixed_digits_def)
  show "is_decimal (hd (fixed_digits False d n))" using i by (auto simp: fixed_digits_def list_all_iff)
  show "is_decimal (last (fixed_digits False d n))" using i f by (cases "d = 0") (auto simp: fixed_digits_def list_all_iff)
qed

lemma fixed_digits_inject: "fixed_digits False d m = fixed_digits False d n \<longleftrightarrow> m = n"
proof
  assume "fixed_digits False d m = fixed_digits False d n"
  then have "Some (of_nat m / 10 ^ d) = Some (of_nat n / 10 ^ d :: rat)" by (metis unsigned_float_fixed)
  then show "m = n" by simp
qed simp

lemma no_comma: "CHR '','' \<notin> set s \<Longrightarrow> filter (\<lambda>c. c \<noteq> CHR '','') s = s"
  by (induction s) auto

lemma thousands_back: "CHR '','' \<notin> set s \<Longrightarrow> filter (\<lambda>c. c \<noteq> CHR '','') (thousands s) = s"
  by (induction s) auto

lemma fixed_digits_back: "filter (\<lambda>c. c \<noteq> CHR '','') (fixed_digits comma d n) = fixed_digits False d n"
proof -
  have "c \<noteq> CHR '',''" if "c \<in> set (fixed_digits False d n)" for c
    using that fixed_digits_chars(1) [of d n] by (auto simp: list_all_iff is_decimal_def)
  then have "CHR '','' \<notin> set (nat_digits (n div 10 ^ d))" and "d \<noteq> 0 \<Longrightarrow> CHR '','' \<notin> set (pad_digits d (n mod 10 ^ d))"
    by (auto simp: fixed_digits_def)
  then show ?thesis by (auto simp: fixed_digits_def thousands_back no_comma)
qed

lemma fixed_digits_inject_comma: "fixed_digits comma d m = fixed_digits comma d n \<longleftrightarrow> m = n"
  by (metis fixed_digits_back fixed_digits_inject)

text \<open>The words that mean no finite number begin with a letter.\<close>

lemma decimal_finite: "s \<noteq> [] \<Longrightarrow> is_decimal (hd s) \<Longrightarrow> \<not> nonfinite_word s"
  by (cases s) (auto simp: nonfinite_word_def lower_def is_decimal_def)

lemma float_of_fixed:
  assumes "of_nat n / 10 ^ d < float_limit"
  shows "py_float (fixed_digits False d n) = Inr (of_nat n / 10 ^ d)"
    and "py_float (CHR ''-'' # fixed_digits False d n) = Inr (- (of_nat n / 10 ^ d))"
proof -
  let ?s = "fixed_digits False d n"
  note chars = fixed_digits_chars [of d n]
  have "strip ?s = ?s" using chars decimal_plain by (intro strip_plain) auto
  moreover have "strip (CHR ''-'' # ?s) = CHR ''-'' # ?s" using chars decimal_plain
    by (intro strip_plain) (auto simp: is_space_def)
  moreover obtain c r where c: "?s = c # r" "is_decimal c" using chars by (cases ?s) auto
  moreover have "\<not> nonfinite_word ?s" using chars by (intro decimal_finite) auto
  ultimately show "py_float ?s = Inr (of_nat n / 10 ^ d)" and "py_float (CHR ''-'' # ?s) = Inr (- (of_nat n / 10 ^ d))"
    using unsigned_float_fixed [of d n] decimal_plain [of c] assms by (auto simp: py_float_def)
qed

text \<open>Reading a printed number gives the number rounded to the printed digits.\<close>

lemma float_of_fmt:
  assumes "\<bar>round_nd v d\<bar> < float_limit"
  shows "py_float (fmt_fixed False d v) = Inr (round_nd v d)"
proof -
  have n: "0 \<le> round_even (\<bar>v\<bar> * 10 ^ d)" by (simp add: round_even_nonneg)
  have r: "v < 0 \<Longrightarrow> round_nd v d = - round_nd \<bar>v\<bar> d" by (simp add: round_nd_def round_even_minus)
  then have "\<bar>round_nd v d\<bar> = \<bar>round_nd \<bar>v\<bar> d\<bar>" by (cases "v < 0") simp_all
  then have lim: "round_nd \<bar>v\<bar> d < float_limit" using assms by linarith
  have "round_nd \<bar>v\<bar> d = of_nat (nat (round_even (\<bar>v\<bar> * 10 ^ d))) / 10 ^ d" using n by (simp add: round_nd_def)
  then have "py_float (fixed_digits False d (nat (round_even (\<bar>v\<bar> * 10 ^ d)))) = Inr (round_nd \<bar>v\<bar> d)"
    and "py_float (CHR ''-'' # fixed_digits False d (nat (round_even (\<bar>v\<bar> * 10 ^ d)))) = Inr (- round_nd \<bar>v\<bar> d)"
    using lim float_of_fixed [of "nat (round_even (\<bar>v\<bar> * 10 ^ d))" d] by metis+
  then show ?thesis using r by (cases "v < 0") (simp_all add: fmt_fixed_def sign_def)
qed

section \<open>The formats of the page and of the script\<close>

lemma js_commas_thousands:
  "is_decimal c \<Longrightarrow> list_all is_decimal cs \<Longrightarrow> c # js_commas (Some c) cs = thousands (c # cs)"
proof (induction cs arbitrary: c)
  case (Cons b cs)
  then have "takeWhile is_decimal (b # cs) = b # cs" by (simp add: takeWhile_eq_all_conv list_all_iff)
  then have "threes_ahead (b # cs) \<longleftrightarrow> length (b # cs) mod 3 = 0" by (simp add: threes_ahead_def Let_def)
  then show ?case using Cons by (simp add: word_boundary_def is_word_def)
qed simp

lemma js_commas_digits:
  assumes "list_all is_decimal ds" and "ds \<noteq> []"
  shows "js_commas None (sign v @ ds) = sign v @ thousands ds"
proof -
  obtain c cs where c: "ds = c # cs" "is_decimal c" "list_all is_decimal cs" using assms by (cases ds) auto
  have "\<not> is_word (CHR ''-'')" "\<not> is_decimal (CHR ''-'')" by (auto simp: is_word_def is_decimal_def)
  then show ?thesis using c js_commas_thousands [of c cs]
    by (simp add: sign_def word_boundary_def is_word_def threes_ahead_def)
qed

lemma js_fmt_fixed:
  assumes "\<bar>v\<bar> < 10 ^ 21"
  shows "js_fmt num_str (d, comma) v = sign v @ fixed_digits comma d (nat (round_up (\<bar>v\<bar> * 10 ^ d)))"
proof -
  define n where "n = nat (round_up (\<bar>v\<bar> * 10 ^ d))"
  define i where "i = nat_digits (n div 10 ^ d)"
  have i: "list_all is_decimal i" "i \<noteq> []" using nat_digits_decimal by (auto simp: i_def)
  have no_dot: "CHR ''.'' \<notin> set (sign v @ i)" and pad: "d \<noteq> 0 \<Longrightarrow> CHR ''.'' \<notin> set (pad_digits d (n mod 10 ^ d))"
    using i pad_digits(3) [of "n mod 10 ^ d" d] by (auto simp: sign_def list_all_iff is_decimal_def)
  have "split_on (CHR ''.'') (sign v @ fixed_digits False d n) =
      (sign v @ i) # (if d = 0 then [] else [pad_digits d (n mod 10 ^ d)])"
    using split_on_snoc [OF no_dot, of "pad_digits d (n mod 10 ^ d)"] split_on_free [OF no_dot] pad
    by (auto simp: fixed_digits_def split_on_free simp flip: i_def)
  then show ?thesis using assms js_commas_digits [OF i, of v]
    by (auto simp: js_fmt_def to_fixed_def fixed_digits_def Let_def simp flip: n_def i_def)
qed

lemma js_fmt_eq_fmt_fixed:
  assumes "\<bar>v\<bar> < 10 ^ 21"
  shows "js_fmt num_str (d, comma) v = fmt_fixed comma d v \<longleftrightarrow>
    \<not> (\<bar>v\<bar> * 10 ^ d = of_int \<lfloor>\<bar>v\<bar> * 10 ^ d\<rfloor> + 1 / 2 \<and> even \<lfloor>\<bar>v\<bar> * 10 ^ d\<rfloor>)"
proof -
  have "0 \<le> round_up (\<bar>v\<bar> * 10 ^ d)" "0 \<le> round_even (\<bar>v\<bar> * 10 ^ d)"
    by (simp_all add: round_up_nonneg round_even_nonneg)
  then show ?thesis
    using round_up_even [of "\<bar>v\<bar> * 10 ^ d"]
    by (simp add: js_fmt_fixed [OF assms] fmt_fixed_def fixed_digits_inject_comma eq_nat_nat_iff)
qed

section \<open>Powers and logarithms of ten\<close>

text \<open>\<open>math.floor(math.log10(v))\<close> for a positive \<open>v\<close>, exactly.\<close>

function log10_up :: "rat \<Rightarrow> int" where
  "log10_up v = (if v < 10 then 0 else 1 + log10_up (v / 10))"
  by auto
termination
proof (relation "measure (\<lambda>v. nat \<lfloor>v\<rfloor>)")
  fix v :: rat
  assume "\<not> v < 10"
  then have "\<lfloor>v / 10\<rfloor> < \<lfloor>v\<rfloor>" by linarith
  then show "(v / 10, v) \<in> measure (\<lambda>v. nat \<lfloor>v\<rfloor>)" using \<open>\<not> v < 10\<close> by simp
qed simp

function log10_down :: "rat \<Rightarrow> int" where
  "log10_down v = (if v \<ge> 1 \<or> v \<le> 0 then 0 else log10_down (v * 10) - 1)"
  by auto
termination
proof (relation "measure (\<lambda>v. nat \<lfloor>1 / v\<rfloor>)")
  fix v :: rat
  assume v: "\<not> (v \<ge> 1 \<or> v \<le> 0)"
  have shrink: "\<lfloor>x / 10\<rfloor> < \<lfloor>x\<rfloor> \<and> 0 < \<lfloor>x\<rfloor>" if "x > 1" for x :: rat
  proof -
    have "1 \<le> \<lfloor>x\<rfloor>" using that by (simp add: le_floor_iff)
    moreover have "\<lfloor>x / 10\<rfloor> < \<lfloor>x\<rfloor>"
    proof (cases "x < 10")
      case True
      then have "\<lfloor>x / 10\<rfloor> = 0" using that by (simp add: floor_eq_iff)
      then show ?thesis using calculation by simp
    qed linarith
    ultimately show ?thesis by simp
  qed
  have "1 / v > 1" using v by (simp add: field_simps)
  from shrink [OF this] show "(v * 10, v) \<in> measure (\<lambda>v. nat \<lfloor>1 / v\<rfloor>)" by simp
qed simp

declare log10_up.simps [simp del] log10_down.simps [simp del]

definition floor_log10 :: "rat \<Rightarrow> int" where
  "floor_log10 v = (if v \<ge> 1 then log10_up v else log10_down v)"

lemma pow10_powi: "pow10 e = 10 powi e"
  by (simp add: pow10_def power_int_def field_simps)

lemma pow10_pos [simp]: "0 < pow10 e"
  by (simp add: pow10_powi)

lemma pow10_Suc: "pow10 (e + 1) = 10 * pow10 e"
  by (simp add: pow10_powi power_int_add)

lemma pow10_mono: "e \<le> e' \<Longrightarrow> pow10 e \<le> pow10 e'"
  by (simp add: pow10_powi power_int_increasing)

lemma log10_up_bounds: "1 \<le> v \<Longrightarrow> pow10 (log10_up v) \<le> v \<and> v < 10 * pow10 (log10_up v)"
proof (induction v rule: log10_up.induct)
  case (1 v)
  show ?case
  proof (cases "v < 10")
    case False
    then have "pow10 (log10_up (v / 10)) \<le> v / 10 \<and> v / 10 < 10 * pow10 (log10_up (v / 10))" using 1 by simp
    then show ?thesis using False by (simp add: log10_up.simps [of v] add.commute [of 1] pow10_Suc)
  qed (use 1 in \<open>simp add: log10_up.simps [of v] pow10_def\<close>)
qed

lemma log10_down_bounds: "0 < v \<Longrightarrow> v < 10 \<Longrightarrow> pow10 (log10_down v) \<le> v \<and> v < 10 * pow10 (log10_down v)"
proof (induction v rule: log10_down.induct)
  case (1 v)
  show ?case
  proof (cases "1 \<le> v")
    case False
    then have "pow10 (log10_down (v * 10)) \<le> v * 10 \<and> v * 10 < 10 * pow10 (log10_down (v * 10))" using 1 by simp
    moreover have "pow10 (log10_down (v * 10)) = 10 * pow10 (log10_down (v * 10) - 1)"
      using pow10_Suc [of "log10_down (v * 10) - 1"] by simp
    ultimately show ?thesis using False 1(2) by (simp add: log10_down.simps [of v])
  qed (use 1 in \<open>simp add: log10_down.simps [of v] pow10_def\<close>)
qed

lemma floor_log10_bounds:
  "0 < v \<Longrightarrow> pow10 (floor_log10 v) \<le> v \<and> v < 10 * pow10 (floor_log10 v)"
  using log10_up_bounds [of v] log10_down_bounds [of v] by (simp add: floor_log10_def)

text \<open>The recursion computes the floor of the logarithm.\<close>

lemma floor_log10_log: "0 < v \<Longrightarrow> floor_log10 v = \<lfloor>log 10 (of_rat v)\<rfloor>"
proof -
  assume v: "0 < v"
  have real: "of_rat (pow10 e) = (10 :: real) powr of_int e" for e
    by (simp add: pow10_def of_rat_power of_rat_divide powr_real_of_int inverse_eq_divide)
  have "of_rat (pow10 (floor_log10 v)) \<le> (of_rat v :: real)" "(of_rat v :: real) < of_rat (10 * pow10 (floor_log10 v))"
    using floor_log10_bounds [OF v] by (simp_all add: of_rat_less_eq of_rat_less)
  then have "10 powr of_int (floor_log10 v) \<le> (of_rat v :: real)" "(of_rat v :: real) < 10 powr (of_int (floor_log10 v) + 1)"
    by (simp_all add: real of_rat_mult powr_add)
  then have "\<lfloor>log 10 (of_rat v)\<rfloor> = floor_log10 v" using v by (subst floor_log_eq_powr_iff) auto
  then show ?thesis by simp
qed

end
