(* ===== verification/Hist.thy ===== *)
theory Hist
  imports PyNum "HOL-Library.Word" "HOL-Library.Multiset"
begin

text \<open>
  The latency histogram of the load generator (\<open>loadgen/main.go\<close>): 8000 buckets on a
  logarithmic scale, 64-bit counters, \<open>record\<close>, \<open>total\<close> and \<open>percentile\<close>. A latency is an
  exact rational number of microseconds; the lower end of a bucket, a power of ten with a
  fractional exponent, is a real number. \<open>int(math.Log10(us) * 1000)\<close> is computed exactly,
  as the floor of the logarithm of the thousandth power, and so is the rank \<open>p * total\<close>.
\<close>

section \<open>Definitions\<close>

definition decades :: nat where "decades = 8"
definition perDecade :: nat where "perDecade = 1000"
definition nbuckets :: nat where "nbuckets = decades * perDecade"

type_synonym hist = "64 word list"

definition new_hist :: hist where
  "new_hist = replicate nbuckets 0"

definition idxFor :: "rat \<Rightarrow> nat" where
  "idxFor us =
     (let u = (if us < 1 then 1 else us);
          i = nat (floor_log10 (u ^ perDecade))
      in if i \<ge> nbuckets then nbuckets - 1 else i)"

definition hist_record :: "rat \<Rightarrow> hist \<Rightarrow> hist" where
  "hist_record us h = h[idxFor us := h ! idxFor us + 1]"

definition valFor :: "nat \<Rightarrow> real" where
  "valFor i = 10 powr (of_nat i / of_nat perDecade)"

definition hist_total :: "hist \<Rightarrow> 64 word" where
  "hist_total h = foldl (+) 0 h"

fun scan_counts :: "64 word \<Rightarrow> 64 word \<Rightarrow> nat \<Rightarrow> 64 word list \<Rightarrow> nat" where
  "scan_counts target c i [] = nbuckets - 1"
| "scan_counts target c i (x # xs) =
     (if c + x \<ge> target then i else scan_counts target (c + x) (Suc i) xs)"

definition percentile :: "hist \<Rightarrow> rat \<Rightarrow> real" where
  "percentile h p =
     (if hist_total h = 0 then 0
      else
        let target = word_of_int \<lfloor>p * of_nat (unat (hist_total h))\<rfloor>
        in valFor (scan_counts target 0 0 h))"

section \<open>Buckets\<close>

lemma nbuckets_eq [simp]: "nbuckets = 8000"
  by (simp add: nbuckets_def decades_def perDecade_def)

lemma idxFor_less [simp]: "idxFor us < 8000"
  by (simp add: idxFor_def Let_def)

lemma length_new_hist [simp]: "length new_hist = 8000"
  by (simp add: new_hist_def)

lemma length_hist_record [simp]: "length (hist_record us h) = length h"
  by (simp add: hist_record_def)

lemma floor_log10_mono: "0 < u \<Longrightarrow> u \<le> v \<Longrightarrow> floor_log10 u \<le> floor_log10 v"
  by (simp add: floor_log10_log floor_mono of_rat_less_eq)

lemma idxFor_mono: "u \<le> v \<Longrightarrow> idxFor u \<le> idxFor v"
proof -
  assume "u \<le> v"
  define clip where "clip = (\<lambda>us :: rat. if us < 1 then 1 else us)"
  have "1 \<le> clip u" "clip u \<le> clip v" using \<open>u \<le> v\<close> by (auto simp: clip_def)
  then have "floor_log10 (clip u ^ perDecade) \<le> floor_log10 (clip v ^ perDecade)"
    by (intro floor_log10_mono power_mono) auto
  moreover have "idxFor w = min 7999 (nat (floor_log10 (clip w ^ perDecade)))" for w
    by (auto simp: idxFor_def Let_def clip_def)
  ultimately show ?thesis by (auto intro: min.mono)
qed

text \<open>Inside the range of the histogram a value lies in its bucket.\<close>

lemma idxFor_log:
  assumes "1 \<le> us" and "us < 10 ^ 8"
  shows "int (idxFor us) = \<lfloor>1000 * log 10 (of_rat us)\<rfloor>"
proof -
  have pos: "(0 :: real) < of_rat us" and one: "(1 :: real) \<le> of_rat us" using assms(1) by simp_all
  have log: "log 10 (of_rat (us ^ 1000)) = 1000 * log 10 (of_rat us)"
    using pos by (simp add: of_rat_power log_nat_power)
  have "0 < us ^ 1000" using assms(1) by simp
  then have i: "floor_log10 (us ^ 1000) = \<lfloor>1000 * log 10 (of_rat us)\<rfloor>" using floor_log10_log log by metis
  have "0 \<le> log 10 (of_rat us)" using one by simp
  then have nn: "0 \<le> \<lfloor>1000 * log 10 (of_rat us)\<rfloor>" by simp
  have "(of_rat us :: real) < 10 powr 8" using assms(2) of_rat_less [of us "10 ^ 8", where 'a = real] by (simp add: of_rat_power)
  then have "log 10 (of_rat us) < 8" using pos by (simp add: log_less_iff)
  then have "\<lfloor>1000 * log 10 (of_rat us :: real)\<rfloor> < 8000" by (simp add: floor_less_iff)
  then have "nat \<lfloor>1000 * log 10 (of_rat us :: real)\<rfloor> < 8000" using nn by linarith
  then show ?thesis using assms(1) i nn by (simp add: idxFor_def perDecade_def Let_def not_le)
qed

lemma bucket_bounds:
  assumes "1 \<le> us" and "us < 10 ^ 8"
  shows "valFor (idxFor us) \<le> of_rat us" and "of_rat us < valFor (idxFor us) * 10 powr (1 / 1000)"
proof -
  have pos: "(0 :: real) < of_rat us" using assms(1) by simp
  define e where "e = log 10 (of_rat us :: real)"
  have us: "of_rat us = 10 powr e" using pos by (simp add: e_def)
  have "of_int (int (idxFor us)) \<le> 1000 * e" "1000 * e < of_int (int (idxFor us)) + 1"
    unfolding idxFor_log [OF assms] e_def [symmetric] by linarith+
  then have "of_nat (idxFor us) / 1000 \<le> e" "e < of_nat (idxFor us) / 1000 + 1 / 1000" by simp_all
  then show "valFor (idxFor us) \<le> of_rat us" and "of_rat us < valFor (idxFor us) * 10 powr (1 / 1000)"
    unfolding us valFor_def perDecade_def by (simp_all flip: powr_add)
qed

section \<open>Counting\<close>

text \<open>
  A histogram of \<open>xs\<close>: every counter has the number of samples of its bucket, as long as
  there are fewer than \<open>2 ^ 64\<close> of them.
\<close>

definition counts_of :: "nat list \<Rightarrow> hist \<Rightarrow> bool" where
  "counts_of is h \<longleftrightarrow> length h = 8000 \<and> list_all (\<lambda>i. i < 8000) is \<and> length is < 2 ^ 64 \<and>
     (\<forall>i < 8000. unat (h ! i) = count_list is i)"

lemma counts_of_new: "counts_of [] new_hist"
  by (simp add: counts_of_def new_hist_def)

lemma count_list_le: "count_list xs x \<le> length xs"
  by (induction xs) auto

lemma counts_of_record:
  assumes "counts_of is h" and "length is + 1 < 2 ^ 64"
  shows "counts_of (is @ [idxFor us]) (hist_record us h)"
proof -
  have "unat (h ! idxFor us + 1) = count_list is (idxFor us) + 1"
  proof -
    have "unat (h ! idxFor us) = count_list is (idxFor us)" using assms(1) by (simp add: counts_of_def)
    moreover have "count_list is (idxFor us) + 1 < 2 ^ 64" using count_list_le [of "is" "idxFor us"] assms(2) by linarith
    ultimately show ?thesis by (simp add: unat_word_ariths)
  qed
  then show ?thesis using assms by (auto simp: counts_of_def hist_record_def nth_list_update)
qed

lemma counts_of_samples:
  "length xs < 2 ^ 64 \<Longrightarrow> counts_of (map idxFor xs) (fold hist_record xs new_hist)"
proof (induction xs rule: rev_induct)
  case (snoc x xs)
  then show ?case using counts_of_record [of "map idxFor xs" _ x] by simp
qed (simp add: counts_of_new)

lemma count_less_Suc: "length (filter (\<lambda>x. x < Suc i) xs) = length (filter (\<lambda>x. x < i) xs) + count_list xs i"
  by (induction xs) auto

text \<open>The running sum over the first buckets is the number of samples in them.\<close>

lemma partial_sums:
  assumes "counts_of is h" and "i \<le> 8000"
  shows "unat (foldl (+) 0 (take i h)) = length (filter (\<lambda>x. x < i) is)"
  using assms(2)
proof (induction i)
  case (Suc i)
  have h: "unat (h ! i) = count_list is i" using assms(1) Suc.prems by (simp add: counts_of_def)
  have "length (filter (\<lambda>x. x < i) is) + count_list is i \<le> length is"
    unfolding count_less_Suc [symmetric] by (rule length_filter_le)
  also have "\<dots> < 2 ^ 64" using assms(1) by (simp add: counts_of_def)
  finally have "unat (foldl (+) 0 (take i h) + h ! i) = length (filter (\<lambda>x. x < Suc i) is)"
    unfolding count_less_Suc using Suc h by (simp add: unat_word_ariths)
  then show ?case using assms(1) Suc.prems by (simp add: take_Suc_conv_app_nth counts_of_def)
qed simp

lemma hist_total_samples: "counts_of is h \<Longrightarrow> unat (hist_total h) = length is"
proof -
  assume c: "counts_of is h"
  then have "filter (\<lambda>x. x < 8000) is = is" by (simp add: counts_of_def filter_id_conv list_all_iff)
  then show ?thesis using partial_sums [OF c, of 8000] c by (simp add: hist_total_def counts_of_def)
qed

text \<open>The scan stops at the first bucket up to which there are enough samples.\<close>

lemma scan_counts_first:
  assumes "i \<le> j" and "j < length h" and "target \<le> foldl (+) 0 (take (Suc j) h)"
    and "\<And>k. i \<le> k \<Longrightarrow> k < j \<Longrightarrow> \<not> target \<le> foldl (+) 0 (take (Suc k) h)"
  shows "scan_counts target (foldl (+) 0 (take i h)) i (drop i h) = j"
  using assms
proof (induction "j - i" arbitrary: i)
  case 0
  then have "i = j" by simp
  then show ?case using 0 by (simp add: Cons_nth_drop_Suc [symmetric] take_Suc_conv_app_nth)
next
  case (Suc n)
  then have i: "i < j" "i < length h" by auto
  have "drop i h = h ! i # drop (Suc i) h" using i by (simp add: Cons_nth_drop_Suc)
  moreover have "foldl (+) 0 (take i h) + h ! i = foldl (+) 0 (take (Suc i) h)" using i by (simp add: take_Suc_conv_app_nth)
  moreover have "\<not> target \<le> foldl (+) 0 (take (Suc i) h)" using Suc.prems(4) i by simp
  moreover have "scan_counts target (foldl (+) 0 (take (Suc i) h)) (Suc i) (drop (Suc i) h) = j"
    using Suc.hyps(2) Suc.prems i by (intro Suc.hyps(1)) auto
  ultimately show ?case by simp
qed

section \<open>Percentiles\<close>

text \<open>In a sorted list at least \<open>k\<close> elements are below \<open>i\<close> exactly when the \<open>k\<close>-th is.\<close>

lemma sorted_rank:
  assumes "sorted xs" and "1 \<le> k" and "k \<le> length xs"
  shows "k \<le> length (filter (\<lambda>x. x < i) xs) \<longleftrightarrow> xs ! (k - 1) < (i :: nat)"
proof -
  have card: "length (filter (\<lambda>x. x < i) xs) = card {j. j < length xs \<and> xs ! j < i}" by (rule length_filter_conv_card)
  show ?thesis
  proof (cases "xs ! (k - 1) < i")
    case True
    have "xs ! j < i" if "j < k" for j
      using that True assms sorted_nth_mono [of xs j "k - 1"] by fastforce
    then have "{..< k} \<subseteq> {j. j < length xs \<and> xs ! j < i}" using assms(3) by auto
    from card_mono [OF _ this] show ?thesis using True card by simp
  next
    case False
    have "j < k - 1" if "j < length xs" "xs ! j < i" for j
      using that False assms sorted_nth_mono [of xs "k - 1" j] by (cases "j < k - 1") auto
    then have "{j. j < length xs \<and> xs ! j < i} \<subseteq> {..< k - 1}" by auto
    from card_mono [OF _ this] show ?thesis using False card assms(2) by simp
  qed
qed

lemma sort_map_mono: "(\<And>x y. x \<le> y \<Longrightarrow> f x \<le> f y) \<Longrightarrow> sort (map f xs) = map f (sort xs)"
  for f :: "rat \<Rightarrow> nat"
  by (intro properties_for_sort) (auto simp: sorted_map intro: sorted_wrt_mono_rel [OF _ sorted_sort])

text \<open>The bucket a percentile is read from: that of the sample of that rank, or the first.\<close>

lemma percentile_bucket:
  assumes "length xs < 2 ^ 64" and "xs \<noteq> []" and "0 \<le> p" and "p \<le> 1"
    and "k = nat \<lfloor>p * of_nat (length xs)\<rfloor>"
  shows "percentile (fold hist_record xs new_hist) p =
    valFor (if k = 0 then 0 else idxFor (sort xs ! (k - 1)))"
proof -
  define h where "h = fold hist_record xs new_hist"
  have c: "counts_of (map idxFor xs) h" unfolding h_def by (rule counts_of_samples [OF assms(1)])
  have total: "unat (hist_total h) = length xs" using hist_total_samples [OF c] by simp
  then have nz: "hist_total h \<noteq> 0" using assms(2) by (metis length_0_conv unat_0)
  have "p * of_nat (length xs) \<le> of_nat (length xs)" using assms(3,4) by (simp add: mult_left_le_one_le)
  then have kle: "k \<le> length xs" using assms(5) by (simp add: nat_le_iff floor_le_iff)
  have kint: "\<lfloor>p * of_nat (length xs)\<rfloor> = int k" using assms(3,5) by simp
  have target: "unat (word_of_int (int k) :: 64 word) = k" using kle assms(1) by (simp add: unat_of_nat take_bit_nat_eq_self)
  have enough: "word_of_int (int k) \<le> foldl (+) 0 (take i h) \<longleftrightarrow> k \<le> length (filter (\<lambda>x. x < i) (map idxFor xs))" if "i \<le> 8000" for i
    unfolding word_le_nat_alt target partial_sums [OF c that] ..
  have len: "length h = 8000" using c by (simp add: counts_of_def)
  define j where "j = (if k = 0 then 0 else idxFor (sort xs ! (k - 1)))"
  have rank: "k \<le> length (filter (\<lambda>x. x < i) (map idxFor xs)) \<longleftrightarrow> idxFor (sort xs ! (k - 1)) < i" if "k \<noteq> 0" for i
  proof -
    have "length (filter (\<lambda>x. x < i) (map idxFor xs)) = length (filter (\<lambda>x. x < i) (sort (map idxFor xs)))"
      by (metis mset_filter mset_sort size_mset)
    moreover have "k \<le> length (filter (\<lambda>x. x < i) (sort (map idxFor xs))) \<longleftrightarrow> sort (map idxFor xs) ! (k - 1) < i"
      using that kle by (intro sorted_rank) auto
    moreover have "sort (map idxFor xs) ! (k - 1) = idxFor (sort xs ! (k - 1))"
      using that kle sort_map_mono [of idxFor xs] idxFor_mono by simp
    ultimately show ?thesis by simp
  qed
  have "scan_counts (word_of_int (int k)) (foldl (+) 0 (take 0 h)) 0 (drop 0 h) = j"
  proof (rule scan_counts_first)
    show "j < length h" unfolding j_def len by simp
    then have jb: "Suc j \<le> 8000" using len by simp
    have "k \<le> length (filter (\<lambda>x. x < Suc j) (map idxFor xs))"
      using rank [of "Suc j"] by (cases "k = 0") (simp_all add: j_def)
    then show "word_of_int (int k) \<le> foldl (+) 0 (take (Suc j) h)" using enough [OF jb] by blast
    show "\<not> word_of_int (int k) \<le> foldl (+) 0 (take (Suc i) h)" if "0 \<le> i" "i < j" for i
    proof -
      have ib: "Suc i \<le> 8000" using that \<open>j < length h\<close> len by simp
      have "\<not> k \<le> length (filter (\<lambda>x. x < Suc i) (map idxFor xs))"
        using rank [of "Suc i"] that by (cases "k = 0") (simp_all add: j_def)
      then show ?thesis using enough [OF ib] by blast
    qed
  qed simp
  then show ?thesis using nz total kint by (simp add: percentile_def Let_def j_def flip: h_def)
qed

lemma bucket_width: "(10 :: real) powr (1 / 1000) < 1253 / 1250"
proof -
  define a :: real where "a = 1253 / 1250"
  have a_pos: "0 < a" by (simp add: a_def)
  have hundred: "x ^ 100 = (x ^ 10) ^ 10" and thousand: "x ^ 1000 = (x ^ 100) ^ 10" for x :: real
    using power_mult [of x 10 10] power_mult [of x 100 10] by simp_all
  have "1024 / 1000 \<le> a ^ 10" by (simp add: a_def power_divide)
  then have "(1024 / 1000) ^ 10 \<le> a ^ 100" unfolding hundred by (intro power_mono) auto
  moreover have "(126 / 100 :: real) \<le> (1024 / 1000) ^ 10" by (simp add: power_divide)
  ultimately have "126 / 100 \<le> a ^ 100" by linarith
  then have "(126 / 100) ^ 10 \<le> a ^ 1000" unfolding thousand by (intro power_mono) auto
  moreover have "(10 :: real) < (126 / 100) ^ 10" by (simp add: power_divide)
  ultimately have "10 < a ^ 1000" by linarith
  also have "a ^ 1000 = a powr 1000" using powr_realpow [OF a_pos, of 1000] by simp
  finally have "10 powr (1 / 1000) < (a powr 1000) powr (1 / 1000)" by (intro powr_less_mono2) auto
  also have "(a powr 1000) powr (1 / 1000) = a" using a_pos by (simp only: powr_powr) simp
  finally show ?thesis by (simp only: a_def)
qed

text \<open>C10: A percentile is accurate to a quarter of a percent. Of \<open>n\<close> recorded latencies let \<open>x\<close>
  be the one of rank \<open>\<lfloor>p n\<rfloor>\<close>, at least 1 and below \<open>10 ^ 8\<close> microseconds. Then the value
  reported for \<open>p\<close> is not above \<open>x\<close>, and \<open>x\<close> is less than 0.24 percent above it.\<close>

theorem percentile_accuracy:
  assumes "length xs < 2 ^ 64" and "0 \<le> p" and "p \<le> 1" and "k = nat \<lfloor>p * of_nat (length xs)\<rfloor>" and "1 \<le> k"
    and "1 \<le> sort xs ! (k - 1)" and "sort xs ! (k - 1) < 10 ^ 8"
  shows "percentile (fold hist_record xs new_hist) p \<le> of_rat (sort xs ! (k - 1)) \<and>
    of_rat (sort xs ! (k - 1)) < percentile (fold hist_record xs new_hist) p * (1253 / 1250)"
proof -
  have "xs \<noteq> []" using assms(4,5) by auto
  then have v: "percentile (fold hist_record xs new_hist) p = valFor (idxFor (sort xs ! (k - 1)))"
    using percentile_bucket [OF assms(1) _ assms(2-4)] assms(5) by simp
  note b = bucket_bounds [OF assms(6,7)]
  have "0 < valFor (idxFor (sort xs ! (k - 1)))" by (simp add: valFor_def)
  then have "valFor (idxFor (sort xs ! (k - 1))) * 10 powr (1 / 1000) < valFor (idxFor (sort xs ! (k - 1))) * (1253 / 1250)"
    using bucket_width by simp
  then show ?thesis unfolding v using b by linarith
qed

theorem percentile_accuracy_witness:
  "percentile (fold hist_record [7, 5] new_hist) (1 / 2) \<le> 5 \<and> 5 < percentile (fold hist_record [7, 5] new_hist) (1 / 2) * (1253 / 1250)"
  using percentile_accuracy [of "[7, 5]" "1 / 2" 1] by simp

text \<open>
  A rank below one has no sample: whatever was recorded, the reported percentile is then
  the lower end of the first bucket, one microsecond.
\<close>

lemma percentile_of_few:
  assumes "length xs < 2 ^ 64" and "xs \<noteq> []" and "0 \<le> p" and "p * of_nat (length xs) < 1"
  shows "percentile (fold hist_record xs new_hist) p = 1"
proof -
  have "p \<le> 1"
  proof (rule ccontr)
    assume "\<not> p \<le> 1"
    moreover have "1 \<le> (of_nat (length xs) :: rat)" using assms(2) by (cases xs) auto
    ultimately have "1 * 1 \<le> p * of_nat (length xs)" by (intro mult_mono) auto
    then show False using assms(4) by simp
  qed
  moreover have "nat \<lfloor>p * of_nat (length xs)\<rfloor> = 0" using assms(4) by (simp add: floor_le_iff)
  ultimately show ?thesis using percentile_bucket [OF assms(1,2,3) _ refl] by (simp add: valFor_def)
qed

lemma percentile_empty: "percentile new_hist p = 0"
  using hist_total_samples [OF counts_of_new] by (simp add: percentile_def unat_eq_0)

lemma percentile_range:
  assumes "length xs < 2 ^ 64" and "0 \<le> p" and "p \<le> 1"
  shows "0 \<le> percentile (fold hist_record xs new_hist) p" and "percentile (fold hist_record xs new_hist) p < 10 ^ 8"
proof -
  have "0 < valFor i" for i by (simp add: valFor_def)
  moreover have "valFor i < 10 ^ 8" if "i < 8000" for i
  proof -
    have "valFor i < 10 powr 8" using that unfolding valFor_def perDecade_def by (intro powr_less_mono) auto
    then show ?thesis by simp
  qed
  ultimately show "0 \<le> percentile (fold hist_record xs new_hist) p" "percentile (fold hist_record xs new_hist) p < 10 ^ 8"
    using percentile_bucket [OF assms(1) _ assms(2,3) refl] percentile_empty
    by (cases "xs = []"; force simp: less_imp_le)+
qed

end
