(* ===== verification/Loadgen_Run.thy ===== *)
theory Loadgen_Run
  imports Loadgen Hist "HOL-Library.Signed_Division"
begin

text \<open>
  What one connection of the load generator measures (\<open>loadgen/main.go\<close>): the sender with
  its ring of 256 send times, the reader that turns an acknowledged sequence number into a
  latency, the per-second windows, and \<open>stabilityStats\<close>. Times are nanoseconds; clock
  readings are arguments. The counters are 64 bits wide and wrap, the sequence number 32.
\<close>

section \<open>Definitions\<close>

definition ring :: nat where "ring = 256"
definition windowMS :: int where "windowMS = 1000"

record lg_globals =
  movesSent :: "64 word"
  movesMeasured :: "64 word"
  snapsRecv :: "64 word"
  measured :: "64 word"
  lg_hist :: hist
  windows :: "hist list"

record lg_conn =
  my_id :: int
  lg_seq :: int
  sendAt :: "int list"
  sending :: bool

definition new_globals :: "int \<Rightarrow> lg_globals" where
  "new_globals dur =
     (let n = (dur sdiv 1000000) sdiv windowMS; nWin = (if n < 1 then 1 else n)
      in \<lparr>movesSent = 0, movesMeasured = 0, snapsRecv = 0, measured = 0, lg_hist = new_hist,
          windows = replicate (nat nWin) new_hist\<rparr>)"

definition new_lg_conn :: "int \<Rightarrow> lg_conn" where
  "new_lg_conn myID = \<lparr>my_id = myID, lg_seq = 0, sendAt = replicate ring 0, sending = True\<rparr>"

definition recordWindow :: "int \<Rightarrow> int \<Rightarrow> rat \<Rightarrow> hist list \<Rightarrow> hist list" where
  "recordWindow sinceStart warm us ws =
     (let w = ((sinceStart - warm) sdiv 1000000) sdiv windowMS
      in if w \<ge> 0 \<and> w < int (length ws) then ws[nat w := hist_record us (ws ! nat w)] else ws)"

text \<open>Waiting for JOINED: the id and what is left of the stream, the connection closed before, or a panic.\<close>

datatype join_result = Joined int bytes | ConnLost | Panicked

function wait_joined :: "bytes \<Rightarrow> join_result" where
  "wait_joined s =
     (case readFrame s of
        None \<Rightarrow> ConnLost
      | Some (p, r) \<Rightarrow>
          (case readJoined p of
             None \<Rightarrow> Panicked
           | Some None \<Rightarrow> wait_joined r
           | Some (Some i) \<Rightarrow> Joined i r))"
  by auto
termination by (relation "measure length") (auto simp: readFrame_def Let_def split: if_splits)

declare wait_joined.simps [simp del]

text \<open>The atomic additions to the shared counters; \<open>AddWindow\<close> has the time since the start.\<close>

datatype add = AddSnap | AddHist rat | AddWindow int rat | AddMeasured | AddSent | AddMoved

fun apply_add :: "int \<Rightarrow> add \<Rightarrow> lg_globals \<Rightarrow> lg_globals" where
  "apply_add warm AddSnap g = g\<lparr>snapsRecv := snapsRecv g + 1\<rparr>"
| "apply_add warm (AddHist us) g = g\<lparr>lg_hist := hist_record us (lg_hist g)\<rparr>"
| "apply_add warm (AddWindow since us) g = g\<lparr>windows := recordWindow since warm us (windows g)\<rparr>"
| "apply_add warm AddMeasured g = g\<lparr>measured := measured g + 1\<rparr>"
| "apply_add warm AddSent g = g\<lparr>movesSent := movesSent g + 1\<rparr>"
| "apply_add warm AddMoved g = g\<lparr>movesMeasured := movesMeasured g + 1\<rparr>"

text \<open>
  One turn of the sender: \<open>now\<close> is the tick of the ticker, \<open>stamp\<close> the clock read before the
  write, \<open>sent\<close> whether the write succeeded. It gives the additions it makes afterwards.
\<close>

definition stamp_send :: "int \<Rightarrow> lg_conn \<Rightarrow> lg_conn" where
  "stamp_send stamp c =
     (let q = (lg_seq c + 1) mod 2 ^ 32
      in c\<lparr>lg_seq := q, sendAt := (sendAt c)[nat q mod ring := stamp]\<rparr>)"

definition send_turn :: "int \<Rightarrow> int \<Rightarrow> int \<Rightarrow> int \<Rightarrow> int \<Rightarrow> bool \<Rightarrow> lg_conn \<Rightarrow> lg_conn \<times> add list" where
  "send_turn start warm dur now stamp sent c =
     (if now > start + (warm + dur) then (c\<lparr>sending := False\<rparr>, [])
      else
        let c' = stamp_send stamp c
        in if \<not> sent then (c'\<lparr>sending := False\<rparr>, [])
           else (c', AddSent # (if now - start > warm then [AddMoved] else [])))"

text \<open>The frame the sender writes in that turn.\<close>

definition move_frame :: "lg_conn \<Rightarrow> bytes" where
  "move_frame c = writeFrame (movePayload (lg_seq c) 1 0)"

text \<open>What the reader does with the sequence number in its own entry; \<open>now\<close> and \<open>since\<close> are its two clock readings.\<close>

definition sample_adds :: "int \<Rightarrow> int \<Rightarrow> int \<Rightarrow> int \<Rightarrow> lg_conn \<Rightarrow> add list" where
  "sample_adds warm now since lastSeq c =
     (if lastSeq \<noteq> 0 then
        let st = sendAt c ! (nat lastSeq mod ring)
        in if st \<noteq> 0 then
             let us = of_int (now - st) / 1000
             in if us > 0 \<and> since > warm then [AddHist us, AddWindow since us, AddMeasured] else []
           else []
      else [])"

text \<open>One frame in the reader; \<open>None\<close> is a panic on a frame that is too short.\<close>

definition reader_adds :: "int \<Rightarrow> int \<Rightarrow> int \<Rightarrow> bytes \<Rightarrow> lg_conn \<Rightarrow> add list option" where
  "reader_adds warm now since p c =
     (case p of
        [] \<Rightarrow> None
      | t # _ \<Rightarrow>
          if t \<noteq> msgSnapshot then Some []
          else
            (case readSnapshot p (my_id c) of
               None \<Rightarrow> None
             | Some None \<Rightarrow> Some [AddSnap]
             | Some (Some lastSeq) \<Rightarrow> Some (AddSnap # sample_adds warm now since lastSeq c)))"

definition reader_frame :: "int \<Rightarrow> int \<Rightarrow> int \<Rightarrow> bytes \<Rightarrow> lg_conn \<Rightarrow> lg_globals \<Rightarrow> lg_globals option" where
  "reader_frame warm now since p c g = map_option (\<lambda>as. fold (apply_add warm) as g) (reader_adds warm now since p c)"

definition stabilityStats :: "real list \<Rightarrow> real \<times> real" where
  "stabilityStats xs =
     (if xs = [] then (0, 0)
      else
        let worst = fold (\<lambda>x w. if x > w then x else w) xs 0;
            mean = sum_list xs / of_nat (length xs)
        in if length xs < 2 \<or> mean = 0 then (worst, 0)
           else (worst, sqrt (sum_list (map (\<lambda>x. (x - mean) * (x - mean)) xs) / of_nat (length xs - 1)) / mean))"

definition selfCPUCores :: "real \<Rightarrow> (rat \<times> rat) option \<Rightarrow> real" where
  "selfCPUCores wall usage =
     (case usage of None \<Rightarrow> 0 | Some (utime, stime) \<Rightarrow> if wall \<le> 0 then 0 else of_rat (utime + stime) / wall)"

text \<open>The room of connection \<open>i\<close>; Go panics when the room size is 0.\<close>

definition room_for :: "int \<Rightarrow> int \<Rightarrow> int option" where
  "room_for roomSize i = (if roomSize = 0 then None else Some ((i sdiv roomSize) mod 2 ^ 32))"

text \<open>
  The period of the sender's ticker in nanoseconds: integer division by zero panics, and so
  does a ticker with a period that is not positive.
\<close>

definition ticker_period :: "int \<Rightarrow> int option" where
  "ticker_period rate = (if rate = 0 \<or> 1000000000 sdiv rate \<le> 0 then None else Some (1000000000 sdiv rate))"

section \<open>Connecting\<close>

lemma sdiv_nonneg: "0 \<le> a \<Longrightarrow> 0 < b \<Longrightarrow> a sdiv b = a div (b :: int)"
  by (cases "a = 0") (simp_all add: signed_divide_int_def)

lemma wait_joined_skips:
  assumes "\<forall>p \<in> set ps. payload_ok p \<and> hd p \<noteq> msgJoined"
  shows "wait_joined (concat (map frame ps) @ s) = wait_joined s"
  using assms
proof (induction ps)
  case (Cons p ps)
  then obtain t r where p: "p = t # r" "t \<noteq> msgJoined" by (cases p) (auto simp: payload_ok_def)
  have "readFrame (concat (map frame (p # ps)) @ s) = Some (p, concat (map frame ps) @ s)"
    using readFrame_frame [of p "concat (map frame ps) @ s"] Cons.prems by simp
  then show ?case using Cons p by (subst wait_joined.simps) (simp add: readJoined_def)
qed simp

text \<open>Snapshots that overtake the reply to JOIN do not keep the client from its id.\<close>

lemma client_finds_its_id:
  assumes "\<forall>p \<in> set ps. payload_ok p \<and> hd p \<noteq> msgJoined" and "in_range FI pid" and "in_range FI rid"
  shows "wait_joined (concat (map frame ps) @ frame (MSG_JOINED # enc [FI, FI] [pid, rid]) @ s) = Joined pid s"
proof -
  let ?p = "MSG_JOINED # enc [FI, FI] [pid, rid]"
  have "readFrame (frame ?p @ s) = Some (?p, s)" by (rule readFrame_frame [OF joined_frame_ok(2) [OF assms(2,3)]])
  moreover have "readJoined ?p = Some (Some pid)"
    using u32_at_mid [OF assms(2), of "[MSG_JOINED]" "be_bytes 4 rid"] by (simp add: readJoined_def msg_agree)
  ultimately show ?thesis unfolding wait_joined_skips [OF assms(1)] by (subst wait_joined.simps) simp
qed

text \<open>The rooms are filled one after the other: room \<open>r\<close> gets the next \<open>room-size\<close> connections.\<close>

lemma rooms_filled_in_order:
  assumes "0 < rs" and "n \<le> 2 ^ 32" and "0 \<le> r"
  shows "{i. 0 \<le> i \<and> i < n \<and> room_for rs i = Some r} = {r * rs ..< min n ((r + 1) * rs)}"
proof -
  have "room_for rs i = Some r \<longleftrightarrow> r * rs \<le> i \<and> i < (r + 1) * rs" if i: "0 \<le> i" "i < n" for i
  proof -
    have q: "i sdiv rs = i div rs" using i(1) assms(1) by (rule sdiv_nonneg)
    have "i div rs \<le> i" using zdiv_mono2 [of i 1 rs] i(1) assms(1) by simp
    then have "i div rs < 2 ^ 32" using i assms(2) by linarith
    moreover have "0 \<le> i div rs" using i(1) assms(1) by (simp add: pos_imp_zdiv_nonneg_iff)
    ultimately have "room_for rs i = Some (i div rs)" using assms(1) q by (simp add: room_for_def)
    then have "room_for rs i = Some r \<longleftrightarrow> i div rs = r" by simp
    also have "\<dots> \<longleftrightarrow> r * rs \<le> i \<and> i < (r + 1) * rs"
    proof
      assume "i div rs = r"
      then have "i = r * rs + i mod rs" using div_mult_mod_eq [of i rs] by simp
      then show "r * rs \<le> i \<and> i < (r + 1) * rs"
        using pos_mod_bound [OF assms(1), of i] pos_mod_sign [OF assms(1), of i] by (simp add: distrib_right)
    next
      assume "r * rs \<le> i \<and> i < (r + 1) * rs"
      then show "i div rs = r" by (intro int_div_pos_eq [of i rs r "i - r * rs"]) (simp_all add: algebra_simps)
    qed
    finally show ?thesis .
  qed
  moreover have "0 \<le> r * rs" using assms by simp
  ultimately show ?thesis by fastforce
qed

lemma ticker_period_some: "(\<exists>d. ticker_period rate = Some d) \<longleftrightarrow> 1 \<le> rate \<and> rate \<le> 1000000000"
proof (cases "0 < rate")
  case True
  then have "1000000000 sdiv rate = 1000000000 div rate" by (simp add: sdiv_nonneg)
  moreover have "1000000000 div rate \<le> 0 \<longleftrightarrow> 1000000000 < rate"
    using True pos_imp_zdiv_pos_iff [of rate 1000000000] by linarith
  ultimately show ?thesis using True by (auto simp: ticker_period_def)
next
  case False
  then have "1000000000 sdiv rate \<le> 0"
    by (auto simp: signed_divide_int_def sgn_if pos_imp_zdiv_nonneg_iff)
  then show ?thesis using False by (simp add: ticker_period_def)
qed

section \<open>The ring of send times\<close>

definition send_stamps :: "int list \<Rightarrow> lg_conn \<Rightarrow> lg_conn" where
  "send_stamps = fold stamp_send"

lemma send_stamps_snoc: "send_stamps (ts @ [t]) c0 = stamp_send t (send_stamps ts c0)"
  by (simp add: send_stamps_def)

lemma send_turn_stamp:
  "now \<le> start + (warm + dur) \<Longrightarrow> fst (send_turn start warm dur now stamp True c) = send_stamps [stamp] c"
  by (simp add: send_turn_def send_stamps_def Let_def)

text \<open>After \<open>n\<close> sends slot \<open>k mod 256\<close> has the time of the last send that used it.\<close>

lemma ring_slots:
  assumes "length ts < 2 ^ 32"
  shows "lg_seq (send_stamps ts (new_lg_conn i)) = int (length ts) \<and> length (sendAt (send_stamps ts (new_lg_conn i))) = 256 \<and>
    my_id (send_stamps ts (new_lg_conn i)) = i \<and>
    (\<forall>k. 1 \<le> k \<and> k \<le> length ts \<longrightarrow>
       sendAt (send_stamps ts (new_lg_conn i)) ! (k mod 256) = ts ! (k - 1 + 256 * ((length ts - k) div 256)))"
  using assms
proof (induction ts rule: rev_induct)
  case (snoc t ts)
  define c where "c = send_stamps ts (new_lg_conn i)"
  define n where "n = length ts"
  have IH: "lg_seq c = int n" "length (sendAt c) = 256" "my_id c = i"
    "\<And>k. 1 \<le> k \<Longrightarrow> k \<le> n \<Longrightarrow> sendAt c ! (k mod 256) = ts ! (k - 1 + 256 * ((n - k) div 256))"
    using snoc by (auto simp: c_def n_def)
  have q: "(lg_seq c + 1) mod 2 ^ 32 = int (Suc n)" using IH(1) snoc.prems by (simp add: n_def)
  have step: "send_stamps (ts @ [t]) (new_lg_conn i) = c\<lparr>lg_seq := int (Suc n), sendAt := (sendAt c)[Suc n mod 256 := t]\<rparr>"
    unfolding send_stamps_snoc c_def [symmetric] stamp_send_def Let_def q ring_def by (simp only: nat_int)
  have "sendAt (send_stamps (ts @ [t]) (new_lg_conn i)) ! (k mod 256) = (ts @ [t]) ! (k - 1 + 256 * ((Suc n - k) div 256))"
    if k: "1 \<le> k" "k \<le> Suc n" for k
  proof (cases "k mod 256 = Suc n mod 256")
    case True
    then have "256 dvd Suc n - k" using k(2) by (metis mod_eq_dvd_iff_nat)
    then have "k - 1 + 256 * ((Suc n - k) div 256) = n" using k by simp
    then show ?thesis using True IH(2) by (simp add: step n_def)
  next
    case False
    then have kn: "k \<le> n" using k(2) by (cases "k = Suc n") auto
    then have "\<not> 256 dvd Suc (n - k)" using False mod_eq_dvd_iff_nat [of k "Suc n" 256] by (simp add: Suc_diff_le)
    then have "(Suc n - k) div 256 = (n - k) div 256" using kn by (simp add: Suc_diff_le div_Suc dvd_eq_mod_eq_0)
    moreover have "k - 1 + 256 * ((n - k) div 256) < n"
    proof -
      have "256 * ((n - k) div 256) \<le> n - k" by simp
      then show ?thesis using k kn by linarith
    qed
    ultimately show ?thesis using False IH(2) IH(4) [OF k(1) kn] by (simp add: step nth_append n_def)
  qed
  then show ?case using IH by (simp add: step n_def)
qed (simp add: send_stamps_def new_lg_conn_def ring_def)

text \<open>The latency taken for an acknowledged sequence number: from the last send that used its slot.\<close>

lemma sample_adds_slot:
  assumes "length ts < 2 ^ 32" and "1 \<le> k" and "k \<le> length ts"
    and "st = ts ! (k - 1 + 256 * ((length ts - k) div 256))" and "0 < st" and "st < now" and "warm < since"
  shows "sample_adds warm now since (int k) (send_stamps ts (new_lg_conn i)) =
    (let us = of_int (now - st) / 1000 in [AddHist us, AddWindow since us, AddMeasured])"
proof -
  have "sendAt (send_stamps ts (new_lg_conn i)) ! (k mod 256) = st" using ring_slots [OF assms(1), of i] assms(2-4) by simp
  then show ?thesis using assms(2,5-7) by (simp add: sample_adds_def ring_def Let_def)
qed

text \<open>With 256 or more later sends the recorded latency is below the real one.\<close>

lemma late_ack_underestimates:
  assumes "length ts < 2 ^ 32" and "sorted_wrt (<) ts" and "1 \<le> k" and "k + 256 \<le> length ts"
    and "0 < hd ts" and "last ts < now" and "warm < since"
  shows "\<exists>us. sample_adds warm now since (int k) (send_stamps ts (new_lg_conn i)) = [AddHist us, AddWindow since us, AddMeasured]
    \<and> us < of_int (now - ts ! (k - 1)) / 1000"
proof -
  let ?j = "k - 1 + 256 * ((length ts - k) div 256)"
  have "1 \<le> (length ts - k) div 256" using assms(4) by (simp add: Suc_le_eq div_greater_zero_iff)
  then have lo: "k - 1 < ?j" by simp
  have "256 * ((length ts - k) div 256) \<le> length ts - k" by simp
  then have hi: "?j < length ts" using assms(3,4) by linarith
  have lt: "ts ! (k - 1) < ts ! ?j" by (rule sorted_wrt_nth_less [OF assms(2) lo hi])
  have le: "ts ! x \<le> ts ! y" if "x \<le> y" "y < length ts" for x y
    using that sorted_wrt_nth_less [OF assms(2), of x y] by (cases "x = y") simp_all
  have ne: "ts \<noteq> []" using hi by auto
  then have "ts ! 0 = hd ts" "ts ! (length ts - 1) = last ts" by (simp_all add: hd_conv_nth last_conv_nth)
  then have "0 < ts ! ?j" "ts ! ?j < now"
    using le [of 0 ?j] le [of ?j "length ts - 1"] hi assms(5,6) by linarith+
  then have "sample_adds warm now since (int k) (send_stamps ts (new_lg_conn i)) =
      (let us = of_int (now - ts ! ?j) / 1000 in [AddHist us, AddWindow since us, AddMeasured])"
    using assms(4) by (intro sample_adds_slot [OF assms(1,3) _ refl _ _ assms(7)]) simp_all
  then show ?thesis using lt by (intro exI [of _ "of_int (now - ts ! ?j) / 1000"]) (simp add: Let_def)
qed

section \<open>The round trip\<close>

lemma reader_adds_ack:
  "readSnapshot p (my_id c) = Some (Some sq) \<Longrightarrow> reader_adds warm now since p c = Some (AddSnap # sample_adds warm now since sq c)"
  by (auto simp: readSnapshot_def reader_adds_def split: list.splits if_splits)

lemma send_stamps_append: "send_stamps us (send_stamps ts c) = send_stamps (ts @ us) c"
  by (simp add: send_stamps_def)

text \<open>C2: End to end. A client that has joined sends one MOVE at time \<open>stamp\<close>; at the next tick of
  its room the server sends it, whatever the other players do, at least one whole frame
  more. When the client's reader gets that frame at time \<open>now\<close>, after the warm-up and
  fewer than 256 sends later, it counts one snapshot and one measurement, and the latency it
  records, in the histogram and in the window of that second, is exactly \<open>now - stamp\<close>.\<close>

theorem round_trip_is_measured:
  assumes "int (rx_bytes es) < 9 * 2 ^ 32" and "w = run (init_server tk) es"
    and "handlers w c = Some cs" and "pc cs = AwaitHeader" and "inbuf cs = []" and "c_room cs = Some a"
    and "healthy (writers w c)"
    and "lc = send_stamps ts (new_lg_conn (my_pid cs))" and "length ts + length later < 2 ^ 32 - 1"
    and "tm \<le> start + (warm + dur)" and "lc' = fst (send_turn start warm dur tm stamp True lc)"
    and "w' = fire (Recv c (move_frame lc')) w" and "snapshot_ok (tick_room (heap w' ! a))"
    and "length later < 256" and "0 < stamp" and "stamp < now" and "warm < since" and "us = of_int (now - stamp) / 1000"
  shows "\<exists>k p. w_out (snd (snd (step (heap w' ! a) (writers w'))) c) = w_out (writers w c) @ concat (replicate (Suc k) (writeFrame p))
    \<and> (\<forall>rest. readFrame (writeFrame p @ rest) = Some (p, rest))
    \<and> reader_frame warm now since p (send_stamps later lc') g =
        Some (g\<lparr>snapsRecv := snapsRecv g + 1, lg_hist := hist_record us (lg_hist g),
                windows := recordWindow since warm us (windows g), measured := measured g + 1\<rparr>)"
proof -
  let ?n = "length ts" and ?all = "ts @ stamp # later"
  have lc': "lc' = send_stamps (ts @ [stamp]) (new_lg_conn (my_pid cs))"
    using assms(8,10,11) send_turn_stamp by (simp add: send_stamps_append)
  then have sq: "lg_seq lc' = int (Suc ?n)" using ring_slots [of "ts @ [stamp]" "my_pid cs"] assms(9) by simp
  have rd: "send_stamps later lc' = send_stamps ?all (new_lg_conn (my_pid cs))"
    unfolding lc' send_stamps_append by simp
  then have id: "my_id (send_stamps later lc') = my_pid cs" using ring_slots [of ?all "my_pid cs"] assms(9) by simp
  have r: "in_range FI (lg_seq lc')" "in_range Fh 1" "in_range Fh 0" using sq assms(9) by (simp_all add: in_range_def)
  obtain k p where kp: "w_out (snd (snd (step (heap w' ! a) (writers w'))) c) = w_out (writers w c) @ concat (replicate (Suc k) (writeFrame p))"
    "\<forall>rest. readFrame (writeFrame p @ rest) = Some (p, rest)" "readSnapshot p (my_pid cs) = Some (Some (lg_seq lc'))"
    using move_is_acknowledged [OF assms(1-7) r assms(12) [unfolded move_frame_def] assms(13)] by blast
  have "sample_adds warm now since (int (Suc ?n)) (send_stamps later lc') = [AddHist us, AddWindow since us, AddMeasured]"
    using sample_adds_slot [of ?all "Suc ?n" stamp now warm since "my_pid cs"] assms(9,14-18) rd by (simp add: Let_def)
  then have "reader_adds warm now since p (send_stamps later lc') = Some [AddSnap, AddHist us, AddWindow since us, AddMeasured]"
    using reader_adds_ack [of p "send_stamps later lc'"] kp(3) id sq by simp
  then have "reader_frame warm now since p (send_stamps later lc') g =
        Some (g\<lparr>snapsRecv := snapsRecv g + 1, lg_hist := hist_record us (lg_hist g),
                windows := recordWindow since warm us (windows g), measured := measured g + 1\<rparr>)"
    by (simp add: reader_frame_def)
  with kp(1,2) show ?thesis by blast
qed

theorem round_trip_is_measured_witness:
  "let w = run (init_server (1 / 30)) demo_events; lc = fst (send_turn 100 0 1000000 200 250 True (new_lg_conn 1));
       w' = fire (Recv 0 (move_frame lc)) w; g = new_globals 1000000 in
    \<exists>k p. w_out (snd (snd (step (heap w' ! 0) (writers w'))) 0) = w_out (writers w 0) @ concat (replicate (Suc k) (writeFrame p))
      \<and> reader_frame 0 6250 6151 p lc g =
          Some (g\<lparr>snapsRecv := snapsRecv g + 1, lg_hist := hist_record 6 (lg_hist g),
                  windows := recordWindow 6151 0 6 (windows g), measured := measured g + 1\<rparr>)"
proof -
  let ?w = "run (init_server (1 / 30)) demo_events"
  let ?cs = "\<lparr>inbuf = [], pc = AwaitHeader, c_room = Some 0, my_pid = 1, nodelay = True\<rparr>"
  let ?lc = "fst (send_turn 100 0 1000000 200 250 True (new_lg_conn 1))"
  let ?w' = "fire (Recv 0 (move_frame ?lc)) ?w"
  have b: "int (rx_bytes demo_events) < 9 * 2 ^ 32" by (simp add: demo_events_def)
  have cs: "handlers ?w 0 = Some ?cs" "healthy (writers ?w 0)" by (simp_all add: demo_run new_writer_def)
  have q: "lg_seq ?lc = 1" by (simp add: send_turn_def stamp_send_def new_lg_conn_def Let_def)
  have r: "in_range FI 1" "in_range Fh 1" "in_range Fh 0" by (simp_all add: in_range_def)
  have "?w' = put_handler 0 (?cs, upd_room 0 (room_move (my_pid ?cs) 1 1 0) ?w)"
    unfolding move_frame_def q by (rule recv_move [OF cs(1) _ _ _ r]) simp_all
  then have "snapshot_ok (tick_room (heap ?w' ! 0))"
    by (simp add: put_handler_def upd_room_def demo_run room_move_def Player_def snapshot_ok_def advance_def in_range_def)
  from round_trip_is_measured [OF b refl cs(1) _ _ _ cs(2), of 0 "new_lg_conn 1" "[]" "[]" 200 100 0 1000000 ?lc 250 ?w' 6250 6151 6
      "new_globals 1000000"] this
  show ?thesis unfolding Let_def by (fastforce simp: send_stamps_def)
qed

section \<open>The stability of the windows\<close>

definition variation :: "real list \<Rightarrow> real" where
  "variation xs = sum_list (map (\<lambda>x. (x - sum_list xs / of_nat (length xs)) * (x - sum_list xs / of_nat (length xs))) xs)"

lemma stabilityStats_eq:
  "stabilityStats xs =
     (fold max xs 0,
      if length xs < 2 \<or> sum_list xs = 0 then 0
      else sqrt (variation xs / of_nat (length xs - 1)) / (sum_list xs / of_nat (length xs)))"
proof -
  have "(\<lambda>x w. if x > w then x else w) = (max :: real \<Rightarrow> real \<Rightarrow> real)" by (auto simp: fun_eq_iff max_def)
  then show ?thesis by (cases xs) (auto simp: stabilityStats_def Let_def variation_def)
qed

lemma fold_max_scale: "0 < c \<Longrightarrow> fold max (map ((*) c) xs) (c * w) = c * fold max xs (w :: real)"
proof (induction xs arbitrary: w)
  case (Cons x xs)
  have "max (c * x) (c * w) = c * max x w" using Cons.prems by (simp add: max_def)
  then show ?case using Cons by simp
qed simp

lemma fold_max_Max:
  assumes "xs \<noteq> []" and "\<forall>x \<in> set xs. (0 :: real) \<le> x"
  shows "fold max xs 0 = Max (set xs)"
proof -
  have "Max (set (0 # xs)) = fold max xs 0" by (rule Max.set_eq_fold)
  moreover have "Max (set (0 # xs)) = max 0 (Max (set xs))" using assms(1) by simp
  moreover have "0 \<le> Max (set xs)" using assms by (meson List.finite_set Max_in set_empty)
  ultimately show ?thesis by simp
qed

lemma variation_scale: "variation (map ((*) c) xs) = c * c * variation xs"
proof -
  have sum: "sum_list (map ((*) c) ys) = c * sum_list ys" for ys :: "real list" by (simp add: sum_list_const_mult)
  have "(c * x - c * m) * (c * x - c * m) = c * c * ((x - m) * (x - m))" for x m :: real by (simp add: algebra_simps)
  then show ?thesis by (simp add: variation_def sum comp_def sum_list_const_mult flip: times_divide_eq_right)
qed

lemma variation_nonneg: "0 \<le> variation xs"
  unfolding variation_def by (intro sum_list_nonneg) auto

lemma variation_zero: "variation xs = 0 \<longleftrightarrow> (\<forall>x \<in> set xs. x = sum_list xs / of_nat (length xs))"
  unfolding variation_def by (subst sum_list_nonneg_eq_0_iff) auto

text \<open>C35: The steadiness score of the windows. For latencies that are not negative the first number
  is the worst window; scaling every window by the same factor scales it and leaves the
  second number, the coefficient of variation, as it is; that number is never negative, and
  with two windows or more it is 0 exactly when all windows are equal.\<close>

theorem stability_is_scale_free:
  assumes "xs \<noteq> []" and "\<forall>x \<in> set xs. 0 \<le> x" and "0 < c"
  shows "fst (stabilityStats xs) = Max (set xs)
    \<and> stabilityStats (map ((*) c) xs) = (c * fst (stabilityStats xs), snd (stabilityStats xs))
    \<and> 0 \<le> snd (stabilityStats xs)
    \<and> (2 \<le> length xs \<longrightarrow> snd (stabilityStats xs) = 0 \<longleftrightarrow> (\<forall>x \<in> set xs. x = hd xs))"
proof -
  let ?n = "real (length xs)" and ?S = "sum_list xs"
  have S: "0 \<le> ?S" using assms(2) by (intro sum_list_nonneg) auto
  have Sc: "sum_list (map ((*) c) xs) = c * ?S" by (simp add: sum_list_const_mult)
  have "sqrt (c * c * v) = c * sqrt v" for v using assms(3) by (simp add: real_sqrt_mult)
  then have "sqrt (c * c * v / m) / (c * ?S / ?n) = sqrt (v / m) / (?S / ?n)" for v m
    using assms(3) by (simp add: real_sqrt_divide)
  then have scale: "stabilityStats (map ((*) c) xs) = (c * fst (stabilityStats xs), snd (stabilityStats xs))"
    using fold_max_scale [OF assms(3), of xs 0] assms(3) by (simp add: stabilityStats_eq variation_scale Sc)
  have zero: "snd (stabilityStats xs) = 0 \<longleftrightarrow> (\<forall>x \<in> set xs. x = hd xs)" if n: "2 \<le> length xs"
  proof (cases "?S = 0")
    case True
    then have "\<forall>x \<in> set xs. x = 0" using assms(2) by (subst (asm) sum_list_nonneg_eq_0_iff) auto
    then have "\<forall>x \<in> set xs. x = hd xs" using hd_in_set [OF assms(1)] by metis
    then show ?thesis using True by (simp add: stabilityStats_eq)
  next
    case False
    then have "snd (stabilityStats xs) = 0 \<longleftrightarrow> variation xs = 0" using n assms(1) by (simp add: stabilityStats_eq)
    also have "\<dots> \<longleftrightarrow> (\<forall>x \<in> set xs. x = hd xs)"
    proof
      assume "variation xs = 0"
      then show "\<forall>x \<in> set xs. x = hd xs" using hd_in_set [OF assms(1)] by (metis variation_zero)
    next
      assume "\<forall>x \<in> set xs. x = hd xs"
      then have "xs = replicate (length xs) (hd xs)" by (metis replicate_length_same)
      then have "?S = ?n * hd xs" by (metis sum_list_replicate)
      then show "variation xs = 0" using \<open>\<forall>x \<in> set xs. x = hd xs\<close> assms(1) by (simp add: variation_zero)
    qed
    finally show ?thesis .
  qed
  have "0 \<le> snd (stabilityStats xs)" using S by (simp add: stabilityStats_eq variation_nonneg)
  then show ?thesis using scale zero fold_max_Max [OF assms(1,2)] by (simp add: stabilityStats_eq)
qed

theorem stability_is_scale_free_witness:
  "stabilityStats [2, 4, 6] = (6, 1 / 2) \<and> stabilityStats (map ((*) 3) [2, 4, 6]) = (18, 1 / 2)"
proof -
  have "stabilityStats [2, 4, 6] = (6, 1 / 2)" by (simp add: stabilityStats_def)
  then show ?thesis using stability_is_scale_free [of "[2, 4, 6]" 3] by simp
qed

end
