(* ===== verification/Loadgen_Shared.thy ===== *)
theory Loadgen_Shared
  imports Loadgen_Run
begin

text \<open>
  All connections of the load generator together (\<open>loadgen/main.go\<close>): every connection has a
  sender and a reader goroutine, and they share the counters, the histogram and the windows,
  which they change by atomic additions only. The scheduler is an arbitrary sequence of
  events; between two additions of one goroutine any other may run, so the additions a turn
  still has to make are part of the state. A panic in any goroutine ends the program.
\<close>

section \<open>Definitions\<close>

record lg_state =
  glob :: lg_globals
  lg_conns :: "lg_conn list"
  r_todo :: "add list list"
  s_todo :: "add list list"
  crashed :: bool

definition lg_init :: "int \<Rightarrow> int list \<Rightarrow> lg_state" where
  "lg_init dur ids = \<lparr>glob = new_globals dur, lg_conns = map new_lg_conn ids,
     r_todo = map (\<lambda>_. []) ids, s_todo = map (\<lambda>_. []) ids, crashed = False\<rparr>"

datatype lg_event =
    SenderTick nat int int bool
  | SenderAdd nat
  | ReaderFrame nat bytes int int
  | ReaderAdd nat

fun lg_step :: "int \<Rightarrow> int \<Rightarrow> int \<Rightarrow> lg_event \<Rightarrow> lg_state \<Rightarrow> lg_state" where
  "lg_step start warm dur (SenderTick i now stamp sent) s =
     (if i < length (lg_conns s) \<and> sending (lg_conns s ! i) \<and> s_todo s ! i = []
      then let (c, as) = send_turn start warm dur now stamp sent (lg_conns s ! i)
           in s\<lparr>lg_conns := (lg_conns s)[i := c], s_todo := (s_todo s)[i := as]\<rparr>
      else s)"
| "lg_step start warm dur (SenderAdd i) s =
     (if i < length (lg_conns s)
      then case s_todo s ! i of
             [] \<Rightarrow> s
           | x # as \<Rightarrow> s\<lparr>glob := apply_add warm x (glob s), s_todo := (s_todo s)[i := as]\<rparr>
      else s)"
| "lg_step start warm dur (ReaderFrame i p now since) s =
     (if i < length (lg_conns s) \<and> r_todo s ! i = []
      then case reader_adds warm now since p (lg_conns s ! i) of
             None \<Rightarrow> s\<lparr>crashed := True\<rparr>
           | Some as \<Rightarrow> s\<lparr>r_todo := (r_todo s)[i := as]\<rparr>
      else s)"
| "lg_step start warm dur (ReaderAdd i) s =
     (if i < length (lg_conns s)
      then case r_todo s ! i of
             [] \<Rightarrow> s
           | x # as \<Rightarrow> s\<lparr>glob := apply_add warm x (glob s), r_todo := (r_todo s)[i := as]\<rparr>
      else s)"

fun lg_run :: "int \<Rightarrow> int \<Rightarrow> int \<Rightarrow> lg_event list \<Rightarrow> lg_state \<Rightarrow> lg_state" where
  "lg_run start warm dur [] s = s"
| "lg_run start warm dur (e # es) s =
     (if crashed s then s else lg_run start warm dur es (lg_step start warm dur e s))"

text \<open>A reader between the addition to the histogram and the one to \<open>measured\<close>.\<close>

fun mid_sample :: "add list \<Rightarrow> bool" where
  "mid_sample (AddWindow _ _ # _) = True"
| "mid_sample (AddMeasured # _) = True"
| "mid_sample _ = False"

text \<open>The time a frame was handled at, against the end of the last window.\<close>

fun in_windows :: "int \<Rightarrow> int \<Rightarrow> lg_event \<Rightarrow> bool" where
  "in_windows warm n (ReaderFrame i p now since) = (since < warm + n * 1000000000)"
| "in_windows warm n _ = True"

definition window_total :: "nat \<Rightarrow> hist list \<Rightarrow> 64 word" where
  "window_total b ws = sum_list (map (\<lambda>h. h ! b) ws)"

section \<open>Counting\<close>

lemma count_update:
  "i < length xs \<Longrightarrow>
     (of_nat (length (filter P (xs[i := y]))) :: 'a :: comm_ring_1) =
     of_nat (length (filter P xs)) - of_bool (P (xs ! i)) + of_bool (P y)"
  by (induction xs arbitrary: i) (auto split: nat.splits simp: nth_Cons')

lemma sum_list_update_plus:
  "i < length xs \<Longrightarrow> sum_list (xs[i := xs ! i + d]) = sum_list xs + (d :: 'a :: comm_ring_1)"
  by (induction xs arbitrary: i) (auto split: nat.splits simp: nth_Cons' algebra_simps)

lemma hist_total_sum: "hist_total h = sum_list h"
proof -
  have "foldl (+) a xs = a + sum_list xs" for a :: "64 word" and xs by (induction xs arbitrary: a) (simp_all add: add.assoc)
  then show ?thesis by (simp add: hist_total_def)
qed

lemma hist_total_record: "length h = 8000 \<Longrightarrow> hist_total (hist_record us h) = hist_total h + 1"
  by (simp add: hist_total_sum hist_record_def sum_list_update_plus)

lemma window_total_record:
  assumes "warm < since" and "since < warm + int (length ws) * 1000000000" and "\<forall>h \<in> set ws. length h = 8000"
  shows "window_total b (recordWindow since warm us ws) = window_total b ws + of_bool (idxFor us = b)"
proof -
  let ?w = "((since - warm) sdiv 1000000) sdiv windowMS"
  have w: "?w = (since - warm) div 1000000000"
    using assms(1) by (simp add: windowMS_def sdiv_nonneg pos_imp_zdiv_nonneg_iff zdiv_zmult2_eq [symmetric])
  have "0 \<le> ?w" unfolding w using assms(1) by simp
  moreover have "?w < int (length ws)" unfolding w using assms(2) by (simp add: div_less_iff_less_mult mult.commute)
  ultimately have r: "recordWindow since warm us ws = ws[nat ?w := hist_record us (ws ! nat ?w)]" and n: "nat ?w < length ws"
    by (simp_all add: recordWindow_def Let_def)
  have "map (\<lambda>h. h ! b) (ws[nat ?w := hist_record us (ws ! nat ?w)]) =
      (map (\<lambda>h. h ! b) ws)[nat ?w := map (\<lambda>h. h ! b) ws ! nat ?w + of_bool (idxFor us = b)]"
    using n assms(3) by (simp add: map_update hist_record_def nth_list_update)
  then show ?thesis
    using sum_list_update_plus [of "nat ?w" "map (\<lambda>h. h ! b) ws" "of_bool (idxFor us = b)"] n
    unfolding r window_total_def by simp
qed

section \<open>Invariants\<close>

text \<open>What a reader can still have to add; \<open>P\<close> holds of the time of its sample.\<close>

definition reader_todo :: "(int \<Rightarrow> bool) \<Rightarrow> add list \<Rightarrow> bool" where
  "reader_todo P as \<longleftrightarrow> as = [] \<or> as = [AddSnap] \<or> as = [AddMeasured] \<or>
     (\<exists>since us. P since \<and> (as = [AddSnap, AddHist us, AddWindow since us, AddMeasured] \<or>
        as = [AddHist us, AddWindow since us, AddMeasured] \<or> as = [AddWindow since us, AddMeasured]))"

definition sender_todo :: "add list \<Rightarrow> bool" where
  "sender_todo as \<longleftrightarrow> as = [] \<or> as = [AddSent] \<or> as = [AddSent, AddMoved] \<or> as = [AddMoved]"

lemma reader_todo_new:
  "reader_adds warm now since p c = Some as \<Longrightarrow> (warm < since \<Longrightarrow> P since) \<Longrightarrow> reader_todo P as \<and> \<not> mid_sample as"
  by (auto simp: reader_adds_def sample_adds_def reader_todo_def Let_def split: list.splits if_splits option.splits)

lemma sender_todo_new: "sender_todo (snd (send_turn start warm dur now stamp sent c)) \<and> snd (send_turn start warm dur now stamp sent c) \<noteq> [AddMoved]"
  by (simp add: send_turn_def sender_todo_def Let_def)

text \<open>The window addition a reader has made to the histogram but not yet to its window.\<close>

fun owes_window :: "nat \<Rightarrow> add list \<Rightarrow> bool" where
  "owes_window b (AddWindow _ us # _) = (idxFor us = b)"
| "owes_window b _ = False"

definition shape_inv :: "(int \<Rightarrow> bool) \<Rightarrow> nat \<Rightarrow> lg_state \<Rightarrow> bool" where
  "shape_inv P n s \<longleftrightarrow>
     length (r_todo s) = length (lg_conns s) \<and> length (s_todo s) = length (lg_conns s)
   \<and> list_all (reader_todo P) (r_todo s) \<and> list_all sender_todo (s_todo s)
   \<and> length (lg_hist (glob s)) = 8000 \<and> length (windows (glob s)) = n \<and> list_all (\<lambda>h. length h = 8000) (windows (glob s))"

definition samples_inv :: "lg_state \<Rightarrow> bool" where
  "samples_inv s \<longleftrightarrow> hist_total (lg_hist (glob s)) = measured (glob s) + of_nat (length (filter mid_sample (r_todo s)))"

definition windows_inv :: "lg_state \<Rightarrow> bool" where
  "windows_inv s \<longleftrightarrow>
     (\<forall>b < 8000. lg_hist (glob s) ! b = window_total b (windows (glob s)) + of_nat (length (filter (owes_window b) (r_todo s))))"

definition moves_inv :: "nat \<Rightarrow> lg_state \<Rightarrow> bool" where
  "moves_inv m s \<longleftrightarrow> (\<exists>x y. movesSent (glob s) = of_nat x \<and> movesMeasured (glob s) = of_nat y
     \<and> y + length (filter (\<lambda>as. as = [AddMoved]) (s_todo s)) \<le> x \<and> x \<le> m)"

lemma list_all_update: "list_all P xs \<Longrightarrow> P y \<Longrightarrow> list_all P (xs[i := y])"
  by (metis list_all_length length_list_update nth_list_update_eq nth_list_update_neq)

lemma record_shape: "list_all (\<lambda>h. length h = 8000) ws \<Longrightarrow>
    list_all (\<lambda>h. length h = 8000) (recordWindow since warm us ws) \<and> length (recordWindow since warm us ws) = length ws"
  by (auto simp: recordWindow_def Let_def intro!: list_all_update) (simp add: list_all_length nat_less_iff)

lemma apply_add_shape:
  "length (lg_hist g) = 8000 \<Longrightarrow> list_all (\<lambda>h. length h = 8000) (windows g) \<Longrightarrow>
     length (lg_hist (apply_add warm x g)) = 8000 \<and> length (windows (apply_add warm x g)) = length (windows g)
   \<and> list_all (\<lambda>h. length h = 8000) (windows (apply_add warm x g))"
  by (cases x) (simp_all add: record_shape)

lemma reader_todo_rest: "reader_todo P (x # as) \<Longrightarrow> reader_todo P as"
  by (auto simp: reader_todo_def)

lemma sender_todo_rest: "sender_todo (x # as) \<Longrightarrow> sender_todo as"
  by (auto simp: sender_todo_def)

lemma todo_nth: "list_all P xs \<Longrightarrow> i < length xs \<Longrightarrow> P (xs ! i)"
  by (simp add: list_all_length)

lemma shape_step:
  assumes "shape_inv P n s" and "\<And>i p now since. e = ReaderFrame i p now since \<Longrightarrow> warm < since \<Longrightarrow> P since"
  shows "shape_inv P n (lg_step start warm dur e s)"
proof (cases e)
  case (SenderTick i now stamp sent)
  have "sender_todo (snd (send_turn start warm dur now stamp sent c))" for c using sender_todo_new by blast
  then show ?thesis using assms(1) SenderTick by (auto simp: shape_inv_def split_def Let_def intro!: list_all_update)
next
  case (SenderAdd i)
  then show ?thesis using assms(1) todo_nth [of sender_todo "s_todo s" i]
    by (auto simp: shape_inv_def apply_add_shape split: list.splits intro!: list_all_update dest: sender_todo_rest)
next
  case (ReaderFrame i p now since)
  then show ?thesis using assms(1) reader_todo_new [of warm now since p "lg_conns s ! i" _ P] assms(2)
    by (auto simp: shape_inv_def split: option.splits intro!: list_all_update)
next
  case (ReaderAdd i)
  then show ?thesis using assms(1) todo_nth [of "reader_todo P" "r_todo s" i]
    by (auto simp: shape_inv_def apply_add_shape split: list.splits intro!: list_all_update dest: reader_todo_rest)
qed

text \<open>What a sender's step leaves alone, and what a reader's step is.\<close>

lemma sender_step_frame:
  assumes "shape_inv P n s" and "e = SenderTick i now stamp sent \<or> e = SenderAdd i"
  shows "lg_hist (glob (lg_step start warm dur e s)) = lg_hist (glob s) \<and> windows (glob (lg_step start warm dur e s)) = windows (glob s)
    \<and> measured (glob (lg_step start warm dur e s)) = measured (glob s) \<and> r_todo (lg_step start warm dur e s) = r_todo s"
  using assms(2)
proof
  assume "e = SenderTick i now stamp sent"
  then show ?thesis by (simp add: split_def Let_def)
next
  assume e: "e = SenderAdd i"
  have "x = AddSent \<or> x = AddMoved" if "i < length (lg_conns s)" "s_todo s ! i = x # as" for x as
    using that assms(1) todo_nth [of sender_todo "s_todo s" i] by (auto simp: shape_inv_def sender_todo_def)
  then show ?thesis using e by (auto split: list.splits)
qed

lemma reader_frame_step:
  assumes "shape_inv P n s"
  obtains "glob (lg_step start warm dur (ReaderFrame i p now since) s) = glob s"
      and "r_todo (lg_step start warm dur (ReaderFrame i p now since) s) = r_todo s"
    | as where "i < length (r_todo s)" and "r_todo s ! i = []" and "\<not> mid_sample as"
      and "glob (lg_step start warm dur (ReaderFrame i p now since) s) = glob s"
      and "r_todo (lg_step start warm dur (ReaderFrame i p now since) s) = (r_todo s)[i := as]"
proof (cases "i < length (lg_conns s) \<and> r_todo s ! i = []")
  case busy: True
  have len: "length (r_todo s) = length (lg_conns s)" using assms by (simp add: shape_inv_def)
  show thesis
  proof (cases "reader_adds warm now since p (lg_conns s ! i)")
    case (Some as)
    then show thesis using busy len reader_todo_new [OF Some, of "\<lambda>_. True"] by (intro that(2) [of as]) simp_all
  next
    case None
    then show thesis using busy by (intro that(1)) simp_all
  qed
next
  case False
  then show thesis by (intro that(1)) auto
qed

lemma reader_add_step:
  assumes "shape_inv P n s"
  obtains "lg_step start warm dur (ReaderAdd i) s = s"
    | x as where "i < length (r_todo s)" and "r_todo s ! i = x # as" and "reader_todo P (x # as)"
      and "glob (lg_step start warm dur (ReaderAdd i) s) = apply_add warm x (glob s)"
      and "r_todo (lg_step start warm dur (ReaderAdd i) s) = (r_todo s)[i := as]"
proof (cases "i < length (lg_conns s)")
  case i: True
  then have len: "i < length (r_todo s)" "reader_todo P (r_todo s ! i)"
    using assms todo_nth [of "reader_todo P" "r_todo s" i] by (simp_all add: shape_inv_def)
  show thesis
  proof (cases "r_todo s ! i")
    case (Cons x as)
    then show thesis using i len by (intro that(2) [of x as]) simp_all
  next
    case Nil
    then show thesis using i by (intro that(1)) simp
  qed
next
  case False
  then show thesis by (intro that(1)) simp
qed

lemma samples_step:
  assumes "shape_inv P n s" and "samples_inv s"
  shows "samples_inv (lg_step start warm dur e s)"
proof (cases e)
  case (ReaderFrame i p now since)
  show ?thesis using reader_frame_step [OF assms(1), of start warm dur i p now since] assms(2) unfolding ReaderFrame samples_inv_def
    by (cases) (simp_all add: count_update del: lg_step.simps)
next
  case (ReaderAdd i)
  show ?thesis using reader_add_step [OF assms(1), of start warm dur i]
  proof cases
    case (2 x as)
    have "length (lg_hist (glob s)) = 8000" using assms(1) by (simp add: shape_inv_def)
    then show ?thesis using 2(3) assms(2) unfolding ReaderAdd samples_inv_def 2(4,5) reader_todo_def
      by (auto simp: count_update 2(1,2) hist_total_record)
  qed (use assms(2) ReaderAdd in simp)
next
  case (SenderTick i now stamp sent)
  then show ?thesis using sender_step_frame [OF assms(1), of e] assms(2) by (auto simp: samples_inv_def simp del: lg_step.simps)
next
  case (SenderAdd i)
  then show ?thesis using sender_step_frame [OF assms(1), of e] assms(2) by (auto simp: samples_inv_def simp del: lg_step.simps)
qed

lemma owes_mid: "owes_window b as \<Longrightarrow> mid_sample as"
  by (cases "(b, as)" rule: owes_window.cases) simp_all

lemma windows_step:
  assumes "shape_inv (\<lambda>t. warm < t \<and> t < warm + int n * 1000000000) n s" and "windows_inv s"
  shows "windows_inv (lg_step start warm dur e s)"
proof (cases e)
  case (ReaderFrame i p now since)
  show ?thesis using reader_frame_step [OF assms(1), of start warm dur i p now since] assms(2) unfolding ReaderFrame windows_inv_def
    by (cases) (auto simp: count_update dest: owes_mid simp del: lg_step.simps)
next
  case (ReaderAdd i)
  show ?thesis using reader_add_step [OF assms(1), of start warm dur i]
  proof cases
    case (2 x as)
    have sh: "length (lg_hist (glob s)) = 8000" "length (windows (glob s)) = n" "\<forall>h \<in> set (windows (glob s)). length h = 8000"
      using assms(1) by (simp_all add: shape_inv_def list_all_iff)
    then have "hist_record us (lg_hist (glob s)) ! b = lg_hist (glob s) ! b + of_bool (idxFor us = b)" for us b
      by (simp add: hist_record_def nth_list_update)
    then show ?thesis using 2(3) assms(2) sh unfolding ReaderAdd windows_inv_def 2(4,5) reader_todo_def
      by (auto simp: count_update 2(1,2) window_total_record)
  qed (use assms(2) ReaderAdd in simp)
next
  case (SenderTick i now stamp sent)
  then show ?thesis using sender_step_frame [OF assms(1), of e] assms(2) by (auto simp: windows_inv_def simp del: lg_step.simps)
next
  case (SenderAdd i)
  then show ?thesis using sender_step_frame [OF assms(1), of e] assms(2) by (auto simp: windows_inv_def simp del: lg_step.simps)
qed

lemma moves_step_reader:
  assumes "shape_inv P n s" and "e = ReaderFrame i p now since \<or> e = ReaderAdd i"
  shows "movesSent (glob (lg_step start warm dur e s)) = movesSent (glob s)
    \<and> movesMeasured (glob (lg_step start warm dur e s)) = movesMeasured (glob s) \<and> s_todo (lg_step start warm dur e s) = s_todo s"
  using assms(2)
proof
  assume "e = ReaderFrame i p now since"
  then show ?thesis by (simp split: option.split)
next
  assume e: "e = ReaderAdd i"
  have "movesSent (apply_add warm x (glob s)) = movesSent (glob s) \<and> movesMeasured (apply_add warm x (glob s)) = movesMeasured (glob s)"
    if "i < length (lg_conns s)" "r_todo s ! i = x # as" for x as
    using that assms(1) todo_nth [of "reader_todo P" "r_todo s" i] by (auto simp: shape_inv_def reader_todo_def)
  then show ?thesis using e by (auto split: list.splits)
qed

lemma count_moved_update:
  "i < length xs \<Longrightarrow> length (filter (\<lambda>as. as = [AddMoved]) (xs[i := y])) + of_bool (xs ! i = [AddMoved]) =
     length (filter (\<lambda>as. as = [AddMoved]) xs) + of_bool (y = [AddMoved])"
  using count_update [of i xs "\<lambda>as. as = [AddMoved]" y, where 'a = int] by (cases "xs ! i = [AddMoved]"; cases "y = [AddMoved]") simp_all

lemma moves_step:
  assumes "shape_inv P n s" and "moves_inv m s"
  shows "moves_inv (Suc m) (lg_step start warm dur e s)"
proof -
  let ?c = "\<lambda>xs. length (filter (\<lambda>as. as = [AddMoved]) xs)"
  obtain x y where xy: "movesSent (glob s) = of_nat x" "movesMeasured (glob s) = of_nat y" "y + ?c (s_todo s) \<le> x" "x \<le> m"
    using assms(2) by (auto simp: moves_inv_def)
  have len: "length (s_todo s) = length (lg_conns s)" using assms(1) by (simp add: shape_inv_def)
  have same: "moves_inv (Suc m) t"
    if "movesSent (glob t) = movesSent (glob s)" "movesMeasured (glob t) = movesMeasured (glob s)" "?c (s_todo t) = ?c (s_todo s)" for t
    unfolding moves_inv_def that using xy by (intro exI [of _ x] exI [of _ y]) simp
  show ?thesis
  proof (cases e)
    case (SenderTick i now stamp sent)
    show ?thesis
    proof (cases "i < length (lg_conns s) \<and> sending (lg_conns s ! i) \<and> s_todo s ! i = []")
      case True
      then show ?thesis
        using SenderTick count_moved_update [of i "s_todo s"] len sender_todo_new [of start warm dur now stamp sent "lg_conns s ! i"]
        by (intro same) (simp_all add: split_def Let_def)
    qed (use SenderTick same [of s] in auto)
  next
    case (SenderAdd i)
    show ?thesis
    proof (cases "i < length (lg_conns s) \<and> s_todo s ! i \<noteq> []")
      case True
      then obtain z as where z: "s_todo s ! i = z # as" "sender_todo (z # as)"
        using todo_nth [of sender_todo "s_todo s" i] assms(1) by (cases "s_todo s ! i") (auto simp: shape_inv_def)
      note c = count_moved_update [of i "s_todo s" as]
      have st: "lg_step start warm dur e s = s\<lparr>glob := apply_add warm z (glob s), s_todo := (s_todo s)[i := as]\<rparr>"
        using SenderAdd True z(1) by simp
      consider "z = AddSent" | "z = AddMoved" "as = []" using z(2) by (auto simp: sender_todo_def)
      then show ?thesis
      proof cases
        case 1
        then show ?thesis using c z xy True len unfolding moves_inv_def st
          by (intro exI [of _ "Suc x"] exI [of _ y]) (auto simp: of_bool_def split: if_splits)
      next
        case 2
        then show ?thesis using c z xy True len unfolding moves_inv_def st
          by (intro exI [of _ x] exI [of _ "Suc y"]) simp
      qed
    qed (use SenderAdd same [of s] in auto)
  next
    case (ReaderFrame i p now since)
    then show ?thesis using moves_step_reader [OF assms(1), of e] by (intro same) (auto simp del: lg_step.simps)
  next
    case (ReaderAdd i)
    then show ?thesis using moves_step_reader [OF assms(1), of e] by (intro same) (auto simp del: lg_step.simps)
  qed
qed

lemma new_globals_shape:
  "length (lg_hist (new_globals dur)) = 8000" "list_all (\<lambda>h. length h = 8000) (windows (new_globals dur))"
  by (simp_all add: new_globals_def Let_def list_all_length)

lemma lg_init_inv:
  "shape_inv P (length (windows (new_globals dur))) (lg_init dur ids)" "samples_inv (lg_init dur ids)"
  "windows_inv (lg_init dur ids)" "moves_inv 0 (lg_init dur ids)"
proof -
  have none: "filter Q (map (\<lambda>_. []) ids) = []" if "\<not> Q []" for Q :: "add list \<Rightarrow> bool" using that by (induction ids) simp_all
  show "shape_inv P (length (windows (new_globals dur))) (lg_init dur ids)"
    using new_globals_shape [of dur] by (simp add: shape_inv_def lg_init_def list.pred_map comp_def reader_todo_def sender_todo_def list.pred_True)
  show "samples_inv (lg_init dur ids)"
    by (simp add: samples_inv_def lg_init_def none new_globals_def Let_def hist_total_sum new_hist_def sum_list_replicate)
  show "windows_inv (lg_init dur ids)"
    by (simp add: windows_inv_def lg_init_def none new_globals_def Let_def window_total_def new_hist_def map_replicate_const sum_list_replicate)
  show "moves_inv 0 (lg_init dur ids)"
    unfolding moves_inv_def by (intro exI [of _ 0]) (simp add: lg_init_def none new_globals_def Let_def)
qed

text \<open>What every event keeps, every run keeps.\<close>

locale run_invariant =
  fixes start warm dur :: int and ok :: "lg_event \<Rightarrow> bool" and I :: "lg_state \<Rightarrow> bool"
  assumes keeps: "ok e \<Longrightarrow> I s \<Longrightarrow> I (lg_step start warm dur e s)"
begin

lemma run_keeps: "list_all ok es \<Longrightarrow> I s \<Longrightarrow> I (lg_run start warm dur es s)"
  by (induction es arbitrary: s) (simp_all add: keeps)

end

interpretation sample_count: run_invariant start warm dur "\<lambda>_. True" "\<lambda>s. shape_inv (\<lambda>_. True) n s \<and> samples_inv s"
  for start warm dur :: int and n :: nat
  by unfold_locales (auto simp del: lg_step.simps intro!: shape_step intro: samples_step)

lemma in_windows_frame: "in_windows warm k e \<Longrightarrow> e = ReaderFrame i p now since \<Longrightarrow> since < warm + k * 1000000000"
  by simp

interpretation window_sums: run_invariant start warm dur "in_windows warm (int n)"
    "\<lambda>s. shape_inv (\<lambda>t. warm < t \<and> t < warm + int n * 1000000000) n s \<and> windows_inv s"
  for start warm dur :: int and n :: nat
  by unfold_locales (auto simp del: lg_step.simps in_windows.simps intro!: shape_step windows_step dest: in_windows_frame)

lemma lg_run_moves:
  assumes "shape_inv (\<lambda>_. True) n s" and "moves_inv m s"
  shows "moves_inv (m + length es) (lg_run start warm dur es s)"
  using assms
proof (induction es arbitrary: s m)
  case (Cons e es)
  have "moves_inv (m + length (e # es)) s" using Cons.prems(2) unfolding moves_inv_def by (meson le_add1 le_trans)
  then show ?case using Cons.IH [OF shape_step [OF Cons.prems(1)] moves_step [OF Cons.prems]] by simp
qed simp


definition demo_lg_events :: "lg_event list" where
  "demo_lg_events =
     [SenderTick 0 200 250 True, SenderAdd 0, SenderAdd 0,
      ReaderFrame 0 (snapshot_payload 1 [(Player 1)\<lparr>last_seq := 1\<rparr>]) 6250 6150,
      ReaderAdd 0, ReaderAdd 0, ReaderAdd 0, ReaderAdd 0]"

lemma sending_new: "sending (new_lg_conn i)"
  by (simp add: new_lg_conn_def)

lemma demo_lg_adds:
  "reader_adds 0 6250 6150 (snapshot_payload 1 [(Player 1)\<lparr>last_seq := 1\<rparr>]) (stamp_send 250 (new_lg_conn 1)) =
     Some [AddSnap, AddHist 6, AddWindow 6150 6, AddMeasured]"
proof -
  have c: "my_id (stamp_send 250 (new_lg_conn 1)) = 1" "sendAt (stamp_send 250 (new_lg_conn 1)) ! 1 = 250"
    by (simp_all add: stamp_send_def new_lg_conn_def Let_def ring_def)
  have "readSnapshot (snapshot_payload 1 [(Player 1)\<lparr>last_seq := 1\<rparr>]) 1 = Some (Some 1)"
    by (subst readSnapshot_payload) (simp_all add: Player_def in_range_def)
  then show ?thesis using reader_adds_ack [of _ "stamp_send 250 (new_lg_conn 1)" 1 0 6250 6150] c
    by (simp add: sample_adds_def ring_def)
qed


end
