(* ===== verification/Specs.thy ===== *)
theory Specs
  imports PyStr
begin

text \<open>
  The first part of the benchmark runner: the core lists (\<open>cpuspec\<close>, \<open>parse_cores\<close>), the
  launch plan of each server (\<open>spec_*\<close>), the table \<open>SERVERS\<close> and the pinning prefix. What
  the module reads from its machine when it is imported (\<open>ROOT\<close>, the interpreter, the
  presence of \<open>taskset\<close>, the clock tick, the processor count, the environment) is a record.
\<close>

section \<open>Definitions\<close>

type_synonym env = "(string, string) dict"
type_synonym launch = "string list \<times> env \<times> string"

record host =
  h_root :: string
  h_python :: string
  h_taskset :: bool
  h_clk :: int
  h_ncpu :: int
  h_environ :: env

type_synonym spec = "host \<Rightarrow> int \<Rightarrow> int \<Rightarrow> int list \<Rightarrow> launch list"

record server_entry =
  s_build :: "(string list \<times> string) option"
  s_spec :: spec

definition PORT :: int where
  "PORT = 9100"

definition cpuspec :: "int list \<Rightarrow> string" where
  "cpuspec cores = join '','' (map py_str cores)"

definition addr_arg :: "int \<Rightarrow> string" where
  "addr_arg port = '':'' @ py_str port"

definition spec_go :: spec where
  "spec_go h port tick cores =
     (let exe = path_join (h_root h) ''servers/go/gosrv'';
          env = [(''GOMAXPROCS'', py_str (int (length cores)))];
          argv = [exe, ''-addr'', addr_arg port, ''-tick'', py_str tick]
      in [(argv, env, cpuspec cores)])"

definition spec_go_pool :: spec where
  "spec_go_pool h port tick cores =
     (let exe = path_join (h_root h) ''servers/go-pool/gosrv-pool'';
          env = [(''GOMAXPROCS'', py_str (int (length cores)))];
          argv = [exe, ''-addr'', addr_arg port, ''-tick'', py_str tick]
      in [(argv, env, cpuspec cores)])"

definition spec_go_epoll :: spec where
  "spec_go_epoll h port tick cores =
     (let exe = path_join (h_root h) ''servers/go-epoll/gosrv-epoll'';
          env = [(''GOMAXPROCS'', py_str (int (length cores)))];
          argv = [exe, ''-addr'', addr_arg port, ''-tick'', py_str tick, ''-workers'', py_str (int (length cores))]
      in [(argv, env, cpuspec cores)])"

definition spec_rust :: spec where
  "spec_rust h port tick cores =
     (let exe = path_join (h_root h) ''servers/rust/target/release/server-rust'';
          env = [(''TOKIO_WORKER_THREADS'', py_str (int (length cores)))];
          argv = [exe, ''-addr'', addr_arg port, ''-tick'', py_str tick]
      in [(argv, env, cpuspec cores)])"

definition spec_ocaml :: spec where
  "spec_ocaml h port tick cores =
     (let exe = path_join (h_root h) ''servers/ocaml/_build/default/main.exe'';
          env = [];
          argv = [exe, ''-addr'', addr_arg port, ''-tick'', py_str tick, ''-domains'', py_str (int (length cores))]
      in [(argv, env, cpuspec cores)])"

definition spec_odin :: spec where
  "spec_odin h port tick cores =
     (let exe = path_join (h_root h) ''servers/odin/server-odin'';
          env = [];
          argv = [exe, ''-addr'', addr_arg port, ''-tick'', py_str tick, ''-workers'', py_str (int (length cores))]
      in [(argv, env, cpuspec cores)])"

definition spec_zig :: spec where
  "spec_zig h port tick cores =
     (let exe = path_join (h_root h) ''servers/zig/server-zig'';
          env = [];
          argv = [exe, ''-addr'', addr_arg port, ''-tick'', py_str tick, ''-workers'', py_str (int (length cores))]
      in [(argv, env, cpuspec cores)])"

definition spec_dart :: spec where
  "spec_dart h port tick cores =
     (let exe = path_join (h_root h) ''servers/dart/server-dart'';
          env = [];
          argv = [exe, ''-addr'', addr_arg port, ''-tick'', py_str tick, ''-workers'', py_str (int (length cores))]
      in [(argv, env, cpuspec cores)])"

definition spec_dart_pool :: spec where
  "spec_dart_pool h port tick cores =
     (let exe = path_join (h_root h) ''servers/dart-pool/server-dart-pool'';
          env = [];
          argv = [exe, ''-addr'', addr_arg port, ''-tick'', py_str tick, ''-workers'', py_str (int (length cores))]
      in [(argv, env, cpuspec cores)])"

definition spec_swift :: spec where
  "spec_swift h port tick cores =
     (let exe = path_join (h_root h) ''servers/swift/.build/release/server-swift'';
          env = [];
          argv = [exe, ''-addr'', addr_arg port, ''-tick'', py_str tick, ''-workers'', py_str (int (length cores))]
      in [(argv, env, cpuspec cores)])"

definition spec_clojure :: spec where
  "spec_clojure h port tick cores =
     (let script = path_join (h_root h) ''servers/clojure/server.clj'';
          n = int (length cores);
          env = [(''JAVA_CMD'', ''/usr/lib/jvm/java-26-openjdk/bin/java'')];
          argv = [''clojure'', ''-J-Djdk.virtualThreadScheduler.parallelism='' @ py_str n, ''-M'', script,
                  ''-addr'', addr_arg port, ''-tick'', py_str tick, ''-workers'', py_str n]
      in [(argv, env, cpuspec cores)])"

definition spec_elixir :: spec where
  "spec_elixir h port tick cores =
     (let script = path_join (h_root h) ''servers/elixir/server.exs'';
          n = int (length cores);
          argv = [''elixir'', ''--erl'', ''+S '' @ py_str n @ '':'' @ py_str n, script,
                  ''-addr'', addr_arg port, ''-tick'', py_str tick]
      in [(argv, [], cpuspec cores)])"

definition spec_python :: spec where
  "spec_python h port tick cores =
     (let script = path_join (h_root h) ''servers/python/server.py''
      in map (\<lambda>c. ([h_python h, script, ''-addr'', addr_arg port, ''-tick'', py_str tick], [], py_str c)) cores)"

definition spec_lua :: spec where
  "spec_lua h port tick cores =
     (let script = path_join (h_root h) ''servers/lua/server.lua''
      in map (\<lambda>c. ([''luajit'', script, ''-addr'', addr_arg port, ''-tick'', py_str tick], [], py_str c)) cores)"

definition SERVERS :: "(string, server_entry) dict" where
  "SERVERS =
     [(''go'', \<lparr>s_build = Some ([''go'', ''build'', ''-o'', ''gosrv'', ''.''], ''servers/go''), s_spec = spec_go\<rparr>),
      (''go-pool'', \<lparr>s_build = Some ([''go'', ''build'', ''-o'', ''gosrv-pool'', ''.''], ''servers/go-pool''), s_spec = spec_go_pool\<rparr>),
      (''go-epoll'', \<lparr>s_build = Some ([''go'', ''build'', ''-o'', ''gosrv-epoll'', ''.''], ''servers/go-epoll''), s_spec = spec_go_epoll\<rparr>),
      (''rust'', \<lparr>s_build = Some ([''cargo'', ''build'', ''--release''], ''servers/rust''), s_spec = spec_rust\<rparr>),
      (''ocaml'', \<lparr>s_build = Some ([''opam'', ''exec'', ''--'', ''dune'', ''build'', ''--profile'', ''release''], ''servers/ocaml''), s_spec = spec_ocaml\<rparr>),
      (''odin'', \<lparr>s_build = Some ([''odin'', ''build'', ''.'', ''-out:server-odin'', ''-o:speed''], ''servers/odin''), s_spec = spec_odin\<rparr>),
      (''zig'', \<lparr>s_build = Some ([''zig'', ''build-exe'', ''server.zig'', ''-O'', ''ReleaseFast'', ''-femit-bin=server-zig''], ''servers/zig''), s_spec = spec_zig\<rparr>),
      (''dart'', \<lparr>s_build = Some ([''dart'', ''compile'', ''exe'', ''server.dart'', ''-o'', ''server-dart''], ''servers/dart''), s_spec = spec_dart\<rparr>),
      (''dart-pool'', \<lparr>s_build = Some ([''dart'', ''compile'', ''exe'', ''server.dart'', ''-o'', ''server-dart-pool''], ''servers/dart-pool''), s_spec = spec_dart_pool\<rparr>),
      (''swift'', \<lparr>s_build = Some ([''swift'', ''build'', ''-c'', ''release''], ''servers/swift''), s_spec = spec_swift\<rparr>),
      (''clojure'', \<lparr>s_build = None, s_spec = spec_clojure\<rparr>),
      (''elixir'', \<lparr>s_build = None, s_spec = spec_elixir\<rparr>),
      (''python'', \<lparr>s_build = None, s_spec = spec_python\<rparr>),
      (''lua'', \<lparr>s_build = None, s_spec = spec_lua\<rparr>)]"

text \<open>One part of a core list: \<open>a, b = part.split("-")\<close> raises unless there are exactly two pieces.\<close>

definition parse_part :: "string \<Rightarrow> int list py" where
  "parse_part part =
     (if CHR ''-'' \<in> set part then
        (case split_on (CHR ''-'') part of
           [a, b] \<Rightarrow> bindE (py_int a) (\<lambda>lo. bindE (py_int b) (\<lambda>hi. Inr [lo .. hi]))
         | _ \<Rightarrow> Inl ValueError)
      else bindE (py_int part) (\<lambda>n. Inr [n]))"

definition parse_cores :: "string \<Rightarrow> int list \<Rightarrow> int list py" where
  "parse_cores s dflt =
     (if s = [] then Inr dflt
      else bindE (mapE parse_part (split_on (CHR '','') s)) (\<lambda>parts. Inr (concat parts)))"

definition taskset_wrap :: "host \<Rightarrow> string list \<Rightarrow> string \<Rightarrow> string list" where
  "taskset_wrap h argv cpu = (if h_taskset h then [''taskset'', ''-c'', cpu] @ argv else argv)"

text \<open>The core lists \<open>main\<close> uses when none are given: the lower and the upper half of the processors.\<close>

definition default_server_cores :: "host \<Rightarrow> int list" where
  "default_server_cores h = [0 .. h_ncpu h div 2 - 1]"

definition default_client_cores :: "host \<Rightarrow> int list" where
  "default_client_cores h = [h_ncpu h div 2 .. h_ncpu h - 1]"

text \<open>What the user may write in a core list, for the statement of what \<open>parse_cores\<close> reads.\<close>

datatype part = Core int | Span int int

fun part_text :: "part \<Rightarrow> string" where
  "part_text (Core n) = py_str n"
| "part_text (Span a b) = py_str a @ ''-'' @ py_str b"

fun part_cores :: "part \<Rightarrow> int list" where
  "part_cores (Core n) = [n]"
| "part_cores (Span a b) = [a .. b]"

fun part_ok :: "part \<Rightarrow> bool" where
  "part_ok (Core n) \<longleftrightarrow> 0 \<le> n"
| "part_ok (Span a b) \<longleftrightarrow> 0 \<le> a \<and> 0 \<le> b"

section \<open>Core lists\<close>

lemma py_str_free:
  assumes "0 \<le> n"
  shows "CHR '','' \<notin> set (py_str n)" and "CHR ''-'' \<notin> set (py_str n)"
  using py_str_shape [OF assms] by (auto simp: list_all_iff dest: decimal_plain)

lemma parse_part_str: "0 \<le> n \<Longrightarrow> parse_part (py_str n) = Inr [n]"
  by (simp add: parse_part_def py_str_free int_of_str)

lemma parse_part_range:
  assumes "0 \<le> a" and "0 \<le> b"
  shows "parse_part (py_str a @ ''-'' @ py_str b) = Inr [a .. b]"
proof -
  have "split_on (CHR ''-'') (py_str a @ CHR ''-'' # py_str b) = [py_str a, py_str b]"
    using py_str_free(2) assms by (simp add: split_on_snoc split_on_free)
  then show ?thesis by (simp add: parse_part_def int_of_str)
qed

lemma part_text_free:
  assumes "part_ok p"
  shows "CHR '','' \<notin> set (part_text p)" and "part_text p \<noteq> []" and "parse_part (part_text p) = Inr (part_cores p)"
  using assms py_str_free(1) py_str_shape parse_part_range parse_part_str by (cases p; force)+

lemma parse_parts:
  assumes "ps \<noteq> []" and "\<forall>p \<in> set ps. part_ok p"
  shows "parse_cores (join '','' (map part_text ps)) d = Inr (concat (map part_cores ps))"
proof -
  obtain p qs where p: "ps = p # qs" using assms(1) by (cases ps) auto
  have "join '','' (map part_text ps) \<noteq> []"
    using part_text_free(2) [of p] p assms(2) by (cases qs) auto
  moreover have "split_on (CHR '','') (join '','' (map part_text ps)) = map part_text ps"
    using assms part_text_free(1) by (intro split_join) auto
  moreover have "mapE parse_part (map part_text ps) = Inr (map part_cores ps)"
    using assms(2) by (induction ps) (auto simp: part_text_free)
  ultimately show ?thesis by (simp add: parse_cores_def)
qed

lemma parse_cpuspec:
  assumes "cores \<noteq> []" and "\<forall>c \<in> set cores. 0 \<le> c"
  shows "parse_cores (cpuspec cores) d = Inr cores"
  using parse_parts [of "map Core cores" d] assms by (simp add: cpuspec_def comp_def)

lemma parse_one_core: "0 \<le> c \<Longrightarrow> parse_cores (py_str c) d = Inr [c]"
  using parse_cpuspec [of "[c]" d] by (simp add: cpuspec_def)

section \<open>Launch plans\<close>

text \<open>The two shapes a plan has: one process on all cores, or one process per core.\<close>

definition one_process :: "spec \<Rightarrow> bool" where
  "one_process f \<longleftrightarrow> (\<forall>h port tick cores. \<exists>argv env. f h port tick cores = [(argv, env, cpuspec cores)]
     \<and> (\<exists>pre suf. argv = pre @ [''-addr'', addr_arg port, ''-tick'', py_str tick] @ suf))"

definition process_per_core :: "spec \<Rightarrow> bool" where
  "process_per_core f \<longleftrightarrow> (\<forall>h port tick cores. \<exists>argv. f h port tick cores = map (\<lambda>c. (argv, [], py_str c)) cores
     \<and> (\<exists>pre suf. argv = pre @ [''-addr'', addr_arg port, ''-tick'', py_str tick] @ suf))"

lemma options_shape:
  "\<exists>pre suf. [x, ''-addr'', a, ''-tick'', t] = pre @ [''-addr'', a, ''-tick'', t] @ suf"
  "\<exists>pre suf. [x, ''-addr'', a, ''-tick'', t, y, z] = pre @ [''-addr'', a, ''-tick'', t] @ suf"
  "\<exists>pre suf. [x, y, ''-addr'', a, ''-tick'', t] = pre @ [''-addr'', a, ''-tick'', t] @ suf"
  "\<exists>pre suf. [x, y, z, u, ''-addr'', a, ''-tick'', t] = pre @ [''-addr'', a, ''-tick'', t] @ suf"
  "\<exists>pre suf. [x, y, z, u, ''-addr'', a, ''-tick'', t, v, w] = pre @ [''-addr'', a, ''-tick'', t] @ suf"
  by (rule exI [of _ "[x]"], rule exI [of _ "[]"], simp,
      rule exI [of _ "[x]"], rule exI [of _ "[y, z]"], simp,
      rule exI [of _ "[x, y]"], rule exI [of _ "[]"], simp,
      rule exI [of _ "[x, y, z, u]"], rule exI [of _ "[]"], simp,
      rule exI [of _ "[x, y, z, u]"], rule exI [of _ "[v, w]"], simp)

lemmas spec_defs = spec_go_def spec_go_pool_def spec_go_epoll_def spec_rust_def spec_ocaml_def spec_odin_def
  spec_zig_def spec_dart_def spec_dart_pool_def spec_swift_def spec_clojure_def spec_elixir_def

lemma specs_one_process:
  "\<forall>f \<in> {spec_go, spec_go_pool, spec_go_epoll, spec_rust, spec_ocaml, spec_odin, spec_zig, spec_dart,
     spec_dart_pool, spec_swift, spec_clojure, spec_elixir}. one_process f"
  unfolding one_process_def spec_defs Let_def by (simp add: options_shape del: append.simps)

lemma specs_process_per_core: "process_per_core spec_python" "process_per_core spec_lua"
  unfolding process_per_core_def spec_python_def spec_lua_def Let_def
  using options_shape(3) by blast+

lemma SERVERS_shapes: "(name, s) \<in> set SERVERS \<Longrightarrow> one_process (s_spec s) \<or> process_per_core (s_spec s)"
  using specs_one_process specs_process_per_core by (auto simp: SERVERS_def)

lemma pinned_cores:
  assumes "one_process f \<or> process_per_core f" and "cores \<noteq> []" and "\<forall>c \<in> set cores. 0 \<le> c"
  shows "\<exists>css. mapE (\<lambda>(argv, env, cpu). parse_cores cpu []) (f h port tick cores) = Inr css \<and> concat css = cores"
  using assms(1)
proof
  assume "one_process f"
  then obtain argv env where "f h port tick cores = [(argv, env, cpuspec cores)]"
    unfolding one_process_def by meson
  then show ?thesis using parse_cpuspec [OF assms(2,3)] by simp
next
  assume "process_per_core f"
  then obtain argv where f: "f h port tick cores = map (\<lambda>c. (argv, [], py_str c)) cores"
    unfolding process_per_core_def by meson
  have "mapE (\<lambda>(argv, env, cpu). parse_cores cpu []) (f h port tick cores) = Inr (map (\<lambda>c. [c]) cores)"
    unfolding f using assms(3) by (induction cores) (auto simp: parse_one_core)
  then show ?thesis by simp
qed

section \<open>Properties\<close>

text \<open>\<open>parse_cores\<close> reads what the usage line documents: a comma-separated list of cores
  and inclusive ranges of cores, in order.\<close>

theorem parse_cores_reads_lists:
  assumes "ps \<noteq> []" and "\<forall>p \<in> set ps. part_ok p"
  shows "parse_cores (join '','' (map part_text ps)) d = Inr (concat (map part_cores ps))"
  using assms by (rule parse_parts)

theorem parse_cores_reads_lists_witness: "parse_cores ''0-3,8'' [] = Inr [0, 1, 2, 3, 8]"
proof -
  have "parse_cores (join '','' (map part_text [Span 0 3, Core 8])) [] = Inr [0, 1, 2, 3, 8]"
    using parse_cores_reads_lists [of "[Span 0 3, Core 8]" "[]"] by (simp add: upto.simps)
  then show ?thesis by (simp add: str_eval)
qed

text \<open>C28: The core budget of a run. Whatever the server, the cores its launch plan pins its
  processes to are, read back from the arguments of \<open>taskset\<close>, exactly the server cores,
  each of them once, and every process is told the port and the tick rate.\<close>

theorem plan_pins_the_core_budget:
  assumes "(name, s) \<in> set SERVERS" and "cores \<noteq> []" and "\<forall>c \<in> set cores. 0 \<le> c"
  shows "(\<exists>css. mapE (\<lambda>(argv, env, cpu). parse_cores cpu []) (s_spec s h port tick cores) = Inr css
      \<and> concat css = cores)
    \<and> (\<forall>(argv, env, cpu) \<in> set (s_spec s h port tick cores).
        \<exists>pre suf. argv = pre @ [''-addr'', addr_arg port, ''-tick'', py_str tick] @ suf)"
proof
  note shape = SERVERS_shapes [OF assms(1)]
  show "\<exists>css. mapE (\<lambda>(argv, env, cpu). parse_cores cpu []) (s_spec s h port tick cores) = Inr css
      \<and> concat css = cores"
    by (rule pinned_cores [OF shape assms(2,3)])
  show "\<forall>(argv, env, cpu) \<in> set (s_spec s h port tick cores).
      \<exists>pre suf. argv = pre @ [''-addr'', addr_arg port, ''-tick'', py_str tick] @ suf"
    using shape
  proof
    assume "one_process (s_spec s)"
    then obtain argv env where "s_spec s h port tick cores = [(argv, env, cpuspec cores)]"
      "\<exists>pre suf. argv = pre @ [''-addr'', addr_arg port, ''-tick'', py_str tick] @ suf"
      unfolding one_process_def by meson
    then show ?thesis by auto
  next
    assume "process_per_core (s_spec s)"
    then obtain argv where "s_spec s h port tick cores = map (\<lambda>c. (argv, [], py_str c)) cores"
      "\<exists>pre suf. argv = pre @ [''-addr'', addr_arg port, ''-tick'', py_str tick] @ suf"
      unfolding process_per_core_def by meson
    then show ?thesis by auto
  qed
qed

theorem plan_pins_the_core_budget_witness:
  "\<exists>css. mapE (\<lambda>(argv, env, cpu). parse_cores cpu [])
      (spec_python \<lparr>h_root = ''/bench'', h_python = ''python3'', h_taskset = True, h_clk = 100, h_ncpu = 8,
        h_environ = []\<rparr> 9100 30 [0, 1, 2, 3]) = Inr css \<and> concat css = [0, 1, 2, 3]"
  using plan_pins_the_core_budget [of "''python''" "\<lparr>s_build = None, s_spec = spec_python\<rparr>" "[0, 1, 2, 3]"
      "\<lparr>h_root = ''/bench'', h_python = ''python3'', h_taskset = True, h_clk = 100, h_ncpu = 8, h_environ = []\<rparr>"
      9100 30]
  by (simp add: SERVERS_def)

lemma default_cores_split:
  "set (default_server_cores h) \<inter> set (default_client_cores h) = {}"
  "0 \<le> h_ncpu h \<Longrightarrow> set (default_server_cores h) \<union> set (default_client_cores h) = {0 ..< h_ncpu h}"
  by (auto simp: default_server_cores_def default_client_cores_def)

end
