(* ===== verification/Proc.thy ===== *)
theory Proc
  imports PyStr
begin

text \<open>
  Sampling of the server processes from \<open>/proc\<close>: \<open>pids_in_groups\<close>, \<open>sample_cpu_ticks\<close>,
  \<open>sample_rss_kb\<close> and the thread \<open>Sampler\<close>. What a call sees of \<open>/proc\<close> is a view: the
  listing, and for each entry the text of its two files or the exception that reading them
  raises. Views may differ from call to call. The thread is a state machine that does one
  such call per step, so that the main thread can set the stop flag and read the results
  between any two of them.
\<close>

section \<open>Reading /proc\<close>

record proc_view =
  listing :: "string list"
  stat_file :: "string \<Rightarrow> string py"
  status_file :: "string \<Rightarrow> string py"

definition py_nth :: "'a list \<Rightarrow> nat \<Rightarrow> 'a py" where
  "py_nth xs k = (if k < length xs then Inr (xs ! k) else Inl IndexError)"

text \<open>The fields after the command name, which is in parentheses and may itself hold any character.\<close>

definition stat_fields :: "string \<Rightarrow> string list" where
  "stat_fields data = str_words (str_slice_from data (rfind data (CHR '')'') + 2))"

definition pgrp_of :: "string \<Rightarrow> int py" where
  "pgrp_of data = bindE (py_nth (stat_fields data) 2) py_int"

definition ticks_of :: "string \<Rightarrow> int py" where
  "ticks_of data =
     (let fields = stat_fields data
      in bindE (bindE (py_nth fields 11) py_int)
           (\<lambda>u. bindE (bindE (py_nth fields 12) py_int) (\<lambda>s. Inr (u + s))))"

definition skipped :: "py_error \<Rightarrow> bool" where
  "skipped e \<longleftrightarrow> e \<in> {FileNotFoundError, ProcessLookupError, IndexError, ValueError}"

fun pids_loop :: "proc_view \<Rightarrow> int list \<Rightarrow> string list \<Rightarrow> int list \<Rightarrow> int list py" where
  "pids_loop v pgids [] out = Inr out"
| "pids_loop v pgids (entry # es) out =
     (if \<not> isdigit entry then pids_loop v pgids es out
      else case bindE (stat_file v entry) (\<lambda>data. bindE (pgrp_of data)
                  (\<lambda>g. if g \<in> set pgids then bindE (py_int entry) (\<lambda>n. Inr (out @ [n])) else Inr out)) of
             Inr out' \<Rightarrow> pids_loop v pgids es out'
           | Inl e \<Rightarrow> if skipped e then pids_loop v pgids es out else Inl e)"

definition pids_in_groups :: "proc_view \<Rightarrow> int list \<Rightarrow> int list py" where
  "pids_in_groups v pgids = pids_loop v pgids (listing v) []"

fun cpu_loop :: "proc_view \<Rightarrow> int list \<Rightarrow> int \<Rightarrow> int py" where
  "cpu_loop v [] tot = Inr tot"
| "cpu_loop v (pid # pids) tot =
     (case bindE (stat_file v (py_str pid)) ticks_of of
        Inr t \<Rightarrow> cpu_loop v pids (tot + t)
      | Inl e \<Rightarrow> if skipped e then cpu_loop v pids tot else Inl e)"

definition sample_cpu_ticks :: "proc_view \<Rightarrow> int list \<Rightarrow> int py" where
  "sample_cpu_ticks v pids = cpu_loop v pids 0"

fun rss_of :: "string list \<Rightarrow> int py" where
  "rss_of [] = Inr 0"
| "rss_of (line # ls) =
     (if startswith line ''VmRSS:'' then bindE (py_nth (str_words line) 1) py_int else rss_of ls)"

fun rss_loop :: "proc_view \<Rightarrow> int list \<Rightarrow> int \<Rightarrow> int py" where
  "rss_loop v [] tot = Inr tot"
| "rss_loop v (pid # pids) tot =
     (case bindE (status_file v (py_str pid)) (\<lambda>data. rss_of (file_lines data)) of
        Inr r \<Rightarrow> rss_loop v pids (tot + r)
      | Inl e \<Rightarrow> if e = FileNotFoundError \<or> e = ProcessLookupError then rss_loop v pids tot else Inl e)"

definition sample_rss_kb :: "proc_view \<Rightarrow> int list \<Rightarrow> int py" where
  "sample_rss_kb v pids = rss_loop v pids 0"

section \<open>The sampler thread\<close>

text \<open>Where the thread is: before each of its calls, in front of the loop test, ended, or dead of an exception.\<close>

datatype sampler_pc =
    AtPids | AtCpuStart "int list" | AtRssFirst "int list"
  | AtTest | AtRss "int list" | AtCpuEnd "int list"
  | Ended | Crashed py_error

record sampler =
  sm_pgids :: "int list"
  stop_flag :: bool
  rss_peak_kb :: int
  rss_first_kb :: int
  cpu_start :: "int option"
  cpu_end :: "int option"
  sm_pc :: sampler_pc

definition new_sampler :: "int list \<Rightarrow> sampler" where
  "new_sampler pgids = \<lparr>sm_pgids = pgids, stop_flag = False, rss_peak_kb = 0, rss_first_kb = 0,
     cpu_start = None, cpu_end = None, sm_pc = AtPids\<rparr>"

text \<open>One call of the thread on the view it gets, or the main thread setting the flag.\<close>

datatype samp_event = Look proc_view | Stop

definition or_crash :: "sampler \<Rightarrow> 'a py \<Rightarrow> ('a \<Rightarrow> sampler) \<Rightarrow> sampler" where
  "or_crash s m k = (case m of Inl e \<Rightarrow> s\<lparr>sm_pc := Crashed e\<rparr> | Inr a \<Rightarrow> k a)"

fun sampler_step :: "sampler \<Rightarrow> samp_event \<Rightarrow> sampler" where
  "sampler_step s Stop = s\<lparr>stop_flag := True\<rparr>"
| "sampler_step s (Look v) =
     (case sm_pc s of
        AtPids \<Rightarrow> or_crash s (pids_in_groups v (sm_pgids s)) (\<lambda>pids. s\<lparr>sm_pc := AtCpuStart pids\<rparr>)
      | AtCpuStart pids \<Rightarrow>
          or_crash s (sample_cpu_ticks v pids) (\<lambda>t. s\<lparr>cpu_start := Some t, sm_pc := AtRssFirst pids\<rparr>)
      | AtRssFirst pids \<Rightarrow>
          or_crash s (sample_rss_kb v pids) (\<lambda>r. s\<lparr>rss_first_kb := r, sm_pc := AtTest\<rparr>)
      | AtTest \<Rightarrow>
          if stop_flag s then s\<lparr>sm_pc := Ended\<rparr>
          else or_crash s (pids_in_groups v (sm_pgids s)) (\<lambda>pids. s\<lparr>sm_pc := AtRss pids\<rparr>)
      | AtRss pids \<Rightarrow>
          or_crash s (sample_rss_kb v pids)
            (\<lambda>rss. s\<lparr>rss_peak_kb := (if rss > rss_peak_kb s then rss else rss_peak_kb s), sm_pc := AtCpuEnd pids\<rparr>)
      | AtCpuEnd pids \<Rightarrow>
          or_crash s (sample_cpu_ticks v pids) (\<lambda>t. s\<lparr>cpu_end := Some t, sm_pc := AtTest\<rparr>)
      | Ended \<Rightarrow> s
      | Crashed e \<Rightarrow> s)"

fun sampler_run :: "sampler \<Rightarrow> samp_event list \<Rightarrow> sampler" where
  "sampler_run s [] = s"
| "sampler_run s (ev # evs) = sampler_run (sampler_step s ev) evs"

section \<open>What the kernel shows\<close>

text \<open>
  The contents of the two files as proc(5) documents them, from a process table: an
  arbitrary command name, the fields after it, and the lines of \<open>status\<close> before and after
  the resident-set line, which kernel threads and zombies lack. Processes may be gone by
  the time their files are read.
\<close>

record proc =
  k_comm :: string
  k_state :: char
  k_ppid :: int
  k_pgrp :: int
  k_mid :: "int list"
  k_utime :: int
  k_stime :: int
  k_rest :: "int list"
  k_head :: "string list"
  k_rss :: "int option"
  k_tail :: "string list"

definition stat_line :: "int \<Rightarrow> string \<Rightarrow> string list \<Rightarrow> string" where
  "stat_line pid comm fs = py_str pid @ '' ('' @ comm @ '') '' @ join '' '' fs @ [CHR 0x0A]"

definition kernel_fields :: "proc \<Rightarrow> string list" where
  "kernel_fields p = [k_state p] # map py_str ([k_ppid p, k_pgrp p] @ k_mid p @ [k_utime p, k_stime p] @ k_rest p)"

definition status_text :: "proc \<Rightarrow> string" where
  "status_text p =
     concat (map (\<lambda>l. l @ [CHR 0x0A])
       (k_head p @ (case k_rss p of None \<Rightarrow> [] | Some r \<Rightarrow> [''VmRSS: '' @ py_str r @ '' kB'']) @ k_tail p))"

definition proc_ok :: "proc \<Rightarrow> bool" where
  "proc_ok p \<longleftrightarrow> \<not> is_space (k_state p) \<and> k_state p \<noteq> CHR '')'' \<and> length (k_mid p) = 8
     \<and> list_all (\<lambda>l. CHR 0x0A \<notin> set l \<and> \<not> startswith l ''VmRSS:'') (k_head p @ k_tail p)"

definition kernel_view :: "(int \<times> proc) list \<Rightarrow> (int \<Rightarrow> bool) \<Rightarrow> string list \<Rightarrow> proc_view" where
  "kernel_view ps gone others =
     (let look = (\<lambda>f e. case find (\<lambda>(pid, p). py_str pid = e) ps of
                          None \<Rightarrow> Inl FileNotFoundError
                        | Some (pid, p) \<Rightarrow> if gone pid then Inl ProcessLookupError else Inr (f pid p))
      in \<lparr>listing = others @ map (\<lambda>(pid, p). py_str pid) ps,
          stat_file = look (\<lambda>pid p. stat_line pid (k_comm p) (kernel_fields p)),
          status_file = look (\<lambda>pid p. status_text p)\<rparr>)"

definition table_ok :: "(int \<times> proc) list \<Rightarrow> bool" where
  "table_ok ps \<longleftrightarrow> distinct (map fst ps) \<and> (\<forall>(pid, p) \<in> set ps. 0 \<le> pid \<and> proc_ok p)"

section \<open>Parsing what the kernel shows\<close>

lemma py_str_chars: "c \<in> set (py_str n) \<Longrightarrow> is_decimal c \<or> c = CHR ''-''"
  using nat_digits_decimal by (auto simp: py_str_def list_all_iff split: if_splits)

lemma py_str_word: "py_str n \<noteq> [] \<and> list_all (\<lambda>c. \<not> is_space c) (py_str n) \<and> CHR '')'' \<notin> set (py_str n)"
proof -
  have "py_str n \<noteq> []" using nat_digits_decimal by (simp add: py_str_def)
  moreover have "\<not> is_space c \<and> c \<noteq> CHR '')''" if "c \<in> set (py_str n)" for c
    using py_str_chars [OF that] decimal_plain [of c] by (auto simp: is_space_def)
  ultimately show ?thesis by (auto simp: list_all_iff)
qed

lemma py_str_inj: "py_str a = py_str b \<Longrightarrow> a = b"
  using int_of_str by (metis sum.inject(2))

lemma isdigit_py_str: "0 \<le> n \<Longrightarrow> isdigit (py_str n)"
  using py_str_shape [of n] unfolding isdigit_def by (simp add: list_all_iff)

lemma set_join: "set (join sep fs) \<subseteq> set sep \<union> \<Union> (set ` set fs)"
  by (induction sep fs rule: join.induct) auto

lemma stat_fields_line:
  assumes "\<forall>f \<in> set fs. f \<noteq> [] \<and> list_all (\<lambda>c. \<not> is_space c) f \<and> CHR '')'' \<notin> set f"
  shows "stat_fields (stat_line pid comm fs) = fs"
proof -
  let ?a = "py_str pid @ '' ('' @ comm"
  let ?b = "'' '' @ join '' '' fs @ [CHR 0x0A]"
  have line: "stat_line pid comm fs = ?a @ CHR '')'' # ?b" by (simp add: stat_line_def)
  have "CHR '')'' \<notin> set ?b" using set_join [of "'' ''" fs] assms by auto
  then have "rfind (stat_line pid comm fs) (CHR '')'') = int (length ?a)" unfolding line by (rule rfind_last)
  then have "stat_fields (stat_line pid comm fs) = str_words (drop (length ?a + 2) (?a @ CHR '')'' # ?b))"
    unfolding stat_fields_def line by (simp add: str_slice_from_def nat_add_distrib)
  also have "drop (length ?a + 2) (?a @ CHR '')'' # ?b) = join '' '' fs @ [CHR 0x0A]"
    unfolding drop_append by simp
  also have "str_words (join '' '' fs @ [CHR 0x0A]) = fs"
    using assms by (intro words_join) (auto simp: is_space_def)
  finally show ?thesis .
qed

lemma kernel_stat_fields: "proc_ok p \<Longrightarrow> stat_fields (stat_line pid comm (kernel_fields p)) = kernel_fields p"
  by (rule stat_fields_line) (auto simp: kernel_fields_def proc_ok_def py_str_word)

lemma pgrp_of_kernel: "proc_ok p \<Longrightarrow> pgrp_of (stat_line pid comm (kernel_fields p)) = Inr (k_pgrp p)"
  by (simp add: pgrp_of_def kernel_stat_fields py_nth_def int_of_str) (simp add: kernel_fields_def int_of_str)

lemma ticks_of_kernel: "proc_ok p \<Longrightarrow> ticks_of (stat_line pid comm (kernel_fields p)) = Inr (k_utime p + k_stime p)"
proof -
  assume p: "proc_ok p"
  have f: "kernel_fields p ! 11 = py_str (k_utime p)" "kernel_fields p ! 12 = py_str (k_stime p)"
    "12 < length (kernel_fields p)"
    using p by (simp_all add: kernel_fields_def proc_ok_def nth_append nth_Cons')
  then show ?thesis using p by (simp add: ticks_of_def kernel_stat_fields py_nth_def int_of_str Let_def)
qed

lemma file_lines_line: "CHR 0x0A \<notin> set l \<Longrightarrow> file_lines (l @ CHR 0x0A # s) = (l @ [CHR 0x0A]) # file_lines s"
proof (induction l)
  case (Cons c l)
  have "char_of (10 :: nat) = CHR 0x0A" by (simp add: char_of_def bit_0)
  then have "ord c \<noteq> 10" using Cons.prems by (metis char_of_char list.set_intros(1))
  then show ?case using Cons by simp
qed simp

lemma file_lines_lines:
  "\<forall>l \<in> set ls. CHR 0x0A \<notin> set l \<Longrightarrow> file_lines (concat (map (\<lambda>l. l @ [CHR 0x0A]) ls)) = map (\<lambda>l. l @ [CHR 0x0A]) ls"
  by (induction ls) (auto simp: file_lines_line)


lemma rss_of_skip: "\<forall>l \<in> set ls. \<not> startswith l ''VmRSS:'' \<Longrightarrow> rss_of (ls @ rest) = rss_of rest"
  by (induction ls) auto

lemma startswith_snoc: "length p \<le> length l \<or> c \<notin> set p \<Longrightarrow> startswith (l @ [c]) p = startswith l p"
proof (cases "length p \<le> length l")
  case True
  then show ?thesis by (simp add: startswith_def)
next
  case False
  assume "length p \<le> length l \<or> c \<notin> set p"
  then have "c \<notin> set p" using False by simp
  then have "l @ [c] \<noteq> p" by auto
  then show ?thesis using False by (auto simp: startswith_def)
qed

lemma startswith_newline: "startswith (l @ [CHR 0x0A]) ''VmRSS:'' = startswith l ''VmRSS:''"
  by (rule startswith_snoc) simp

lemma rss_line: "bindE (py_nth (str_words ((''VmRSS: '' @ py_str r @ '' kB'') @ [CHR 0x0A])) 1) py_int = Inr r"
proof -
  have "str_words (join '' '' [''VmRSS:'', py_str r, ''kB''] @ [CHR 0x0A]) = [''VmRSS:'', py_str r, ''kB'']"
    using py_str_word [of r] by (intro words_join) (auto simp: is_space_def)
  then have "str_words ((''VmRSS: '' @ py_str r @ '' kB'') @ [CHR 0x0A]) = [''VmRSS:'', py_str r, ''kB'']" by simp
  then show ?thesis by (simp add: py_nth_def int_of_str)
qed

lemma rss_of_kernel:
  assumes "proc_ok p"
  shows "rss_of (file_lines (status_text p)) = Inr (case k_rss p of None \<Rightarrow> 0 | Some r \<Rightarrow> r)"
proof -
  let ?nl = "\<lambda>l. l @ [CHR 0x0A]"
  let ?m = "case k_rss p of None \<Rightarrow> [] | Some r \<Rightarrow> [''VmRSS: '' @ py_str r @ '' kB'']"
  have nl: "CHR 0x0A \<notin> set (py_str r)" for r
    using py_str_word [of r] by (auto simp: list_all_iff is_space_def)
  have ok: "\<forall>l \<in> set (k_head p @ k_tail p). CHR 0x0A \<notin> set l \<and> \<not> startswith l ''VmRSS:''"
    using assms by (auto simp: proc_ok_def list_all_iff)
  then have "file_lines (status_text p) = map ?nl (k_head p @ ?m @ k_tail p)"
    unfolding status_text_def using nl by (intro file_lines_lines) (auto split: option.split)
  then have "rss_of (file_lines (status_text p)) = rss_of (map ?nl ?m @ map ?nl (k_tail p))"
    using ok rss_of_skip [of "map ?nl (k_head p)"] by (auto simp: startswith_newline)
  also have "\<dots> = Inr (case k_rss p of None \<Rightarrow> 0 | Some r \<Rightarrow> r)"
  proof (cases "k_rss p")
    case None
    then show ?thesis using ok rss_of_skip [of "map ?nl (k_tail p)" "[]"] by (auto simp: startswith_newline)
  next
    case (Some r)
    have "startswith (?nl (''VmRSS: '' @ py_str r @ '' kB'')) ''VmRSS:''" by (simp add: startswith_def)
    then show ?thesis using Some rss_line [of r] by simp
  qed
  finally show ?thesis .
qed

section \<open>Sampling a process table\<close>

lemma find_pid:
  "distinct (map fst ps) \<Longrightarrow> (pid, p) \<in> set ps \<Longrightarrow> find (\<lambda>(q, p). py_str q = py_str pid) ps = Some (pid, p)"
proof (induction ps)
  case (Cons a ps)
  obtain q r where a: "a = (q, r)" by (cases a)
  show ?case
  proof (cases "q = pid")
    case True
    then show ?thesis using Cons.prems a by force
  next
    case False
    then show ?thesis using Cons a py_str_inj [of q pid] by auto
  qed
qed simp

lemma kernel_files:
  assumes "table_ok ps" and "(pid, p) \<in> set ps"
  shows "stat_file (kernel_view ps gone others) (py_str pid) =
      (if gone pid then Inl ProcessLookupError else Inr (stat_line pid (k_comm p) (kernel_fields p)))"
    and "status_file (kernel_view ps gone others) (py_str pid) =
      (if gone pid then Inl ProcessLookupError else Inr (status_text p))"
  using find_pid [OF _ assms(2)] assms(1) by (auto simp: kernel_view_def table_ok_def Let_def)

definition members :: "(int \<times> proc) list \<Rightarrow> (int \<Rightarrow> bool) \<Rightarrow> int list \<Rightarrow> (int \<times> proc) list" where
  "members ps gone pgids = filter (\<lambda>(pid, p). \<not> gone pid \<and> k_pgrp p \<in> set pgids) ps"

lemma pids_loop_table:
  assumes "table_ok ps" and "set qs \<subseteq> set ps"
  shows "pids_loop (kernel_view ps gone others) pgids (map (\<lambda>(pid, p). py_str pid) qs) out =
    Inr (out @ map fst (members qs gone pgids))"
  using assms(2)
proof (induction qs arbitrary: out)
  case (Cons a qs)
  obtain pid p where a: "a = (pid, p)" by (cases a)
  then have m: "(pid, p) \<in> set ps" and ok: "0 \<le> pid" "proc_ok p"
    using Cons.prems assms(1) by (auto simp: table_ok_def)
  show ?case
    using Cons a kernel_files(1) [OF assms(1) m] isdigit_py_str [OF ok(1)] pgrp_of_kernel [OF ok(2)]
    by (simp add: members_def skipped_def int_of_str)
qed (simp add: members_def)

lemma pids_loop_others:
  "\<forall>e \<in> set es. \<not> isdigit e \<Longrightarrow> pids_loop v pgids (es @ rest) out = pids_loop v pgids rest out"
  by (induction es) auto

lemma pids_table:
  assumes "table_ok ps" and "\<forall>e \<in> set others. \<not> isdigit e"
  shows "pids_in_groups (kernel_view ps gone others) pgids = Inr (map fst (members ps gone pgids))"
proof -
  have "listing (kernel_view ps gone others) = others @ map (\<lambda>(pid, p). py_str pid) ps"
    by (simp add: kernel_view_def Let_def)
  then show ?thesis
    using pids_loop_others [OF assms(2)] pids_loop_table [OF assms(1) subset_refl, of gone others pgids "[]"]
    by (simp add: pids_in_groups_def)
qed

definition present :: "(int \<times> proc) list \<Rightarrow> (int \<Rightarrow> bool) \<Rightarrow> (proc \<Rightarrow> int) \<Rightarrow> int" where
  "present qs gone f = sum_list (map (\<lambda>(pid, p). if gone pid then 0 else f p) qs)"

lemma cpu_loop_table:
  assumes "table_ok ps" and "set qs \<subseteq> set ps"
  shows "cpu_loop (kernel_view ps gone others) (map fst qs) t =
    Inr (t + present qs gone (\<lambda>p. k_utime p + k_stime p))"
  using assms(2)
proof (induction qs arbitrary: t)
  case (Cons a qs)
  obtain pid p where a: "a = (pid, p)" by (cases a)
  then have m: "(pid, p) \<in> set ps" and ok: "proc_ok p"
    using Cons.prems assms(1) by (auto simp: table_ok_def)
  show ?case
    using Cons a kernel_files(1) [OF assms(1) m] ticks_of_kernel [OF ok] by (simp add: present_def skipped_def)
qed (simp add: present_def)

lemma rss_loop_table:
  assumes "table_ok ps" and "set qs \<subseteq> set ps"
  shows "rss_loop (kernel_view ps gone others) (map fst qs) t =
    Inr (t + present qs gone (\<lambda>p. case k_rss p of None \<Rightarrow> 0 | Some r \<Rightarrow> r))"
  using assms(2)
proof (induction qs arbitrary: t)
  case (Cons a qs)
  obtain pid p where a: "a = (pid, p)" by (cases a)
  then have m: "(pid, p) \<in> set ps" and ok: "proc_ok p"
    using Cons.prems assms(1) by (auto simp: table_ok_def)
  show ?case
    using Cons a kernel_files(2) [OF assms(1) m] rss_of_kernel [OF ok] by (simp add: present_def)
qed (simp add: present_def)

section \<open>The sampler thread, step by step\<close>

text \<open>The resident-set samples the loop takes in an execution, in order.\<close>

definition rss_sample :: "sampler \<Rightarrow> samp_event \<Rightarrow> int list" where
  "rss_sample s ev =
     (case (sm_pc s, ev) of
        (AtRss pids, Look v) \<Rightarrow> (case sample_rss_kb v pids of Inr r \<Rightarrow> [r] | Inl e \<Rightarrow> [])
      | _ \<Rightarrow> [])"

fun rss_samples :: "sampler \<Rightarrow> samp_event list \<Rightarrow> int list" where
  "rss_samples s [] = []"
| "rss_samples s (ev # evs) = rss_sample s ev @ rss_samples (sampler_step s ev) evs"

definition started :: "sampler \<Rightarrow> bool" where
  "started s \<longleftrightarrow> (case sm_pc s of
     AtPids \<Rightarrow> cpu_end s = None | AtCpuStart pids \<Rightarrow> cpu_end s = None | Crashed e \<Rightarrow> cpu_start s = None \<longrightarrow> cpu_end s = None
   | _ \<Rightarrow> cpu_start s \<noteq> None)"

lemma started_step: "started s \<Longrightarrow> started (sampler_step s ev)"
  by (cases ev; cases "sm_pc s") (auto simp: started_def or_crash_def split: sum.split)

lemma started_run: "started s \<Longrightarrow> started (sampler_run s evs)"
  by (induction evs arbitrary: s) (auto simp: started_step)

lemma peak_step: "rss_peak_kb (sampler_step s ev) = foldl max (rss_peak_kb s) (rss_sample s ev)"
  by (cases ev; cases "sm_pc s") (auto simp: rss_sample_def or_crash_def split: sum.split)

lemma peak_run: "rss_peak_kb (sampler_run s evs) = foldl max (rss_peak_kb s) (rss_samples s evs)"
  by (induction evs arbitrary: s) (auto simp: peak_step)

text \<open>How many more calls the thread makes at most once the flag is set.\<close>

fun calls_left :: "sampler_pc \<Rightarrow> nat" where
  "calls_left AtPids = 4" | "calls_left (AtCpuStart pids) = 3" | "calls_left (AtRssFirst pids) = 2"
| "calls_left AtTest = 1" | "calls_left (AtRss pids) = 3" | "calls_left (AtCpuEnd pids) = 2"
| "calls_left Ended = 0" | "calls_left (Crashed e) = 0"

lemma calls_left_step:
  "stop_flag s \<Longrightarrow> stop_flag (sampler_step s ev) \<and>
    calls_left (sm_pc (sampler_step s ev)) \<le> calls_left (sm_pc s) - (if ev = Stop then 0 else 1)"
  by (cases ev; cases "sm_pc s") (auto simp: or_crash_def split: sum.split)

lemma calls_left_run:
  "stop_flag s \<Longrightarrow> calls_left (sm_pc (sampler_run s evs)) \<le> calls_left (sm_pc s) - length (filter (\<lambda>e. e \<noteq> Stop) evs)"
proof (induction evs arbitrary: s)
  case (Cons ev evs)
  note st = calls_left_step [OF Cons.prems, of ev]
  then have "calls_left (sm_pc (sampler_run s (ev # evs))) \<le>
      calls_left (sm_pc (sampler_step s ev)) - length (filter (\<lambda>e. e \<noteq> Stop) evs)"
    using Cons.IH [of "sampler_step s ev"] by simp
  then show ?case using st
    by (cases "ev = Stop") (simp_all del: sampler_step.simps sampler_run.simps, linarith+)
qed simp

lemma calls_left_le: "calls_left p \<le> 4"
  by (cases p) auto

lemma calls_left_zero: "calls_left p = 0 \<Longrightarrow> p = Ended \<or> (\<exists>e. p = Crashed e)"
  by (cases p) auto

section \<open>Properties\<close>


definition demo_proc :: proc where
  "demo_proc = \<lparr>k_comm = ''my (odd) name) 1 2'', k_state = CHR ''S'', k_ppid = 1, k_pgrp = 41, k_mid = [0, 0, - 1, 0, 0, 0, 0, 0],
     k_utime = 700, k_stime = 30, k_rest = [0, 0], k_head = [''Name: x''], k_rss = Some 2048, k_tail = [''Threads: 1'']\<rparr>"


text \<open>C38: The results of the sampler can be read at any moment: at every point of every
  interleaving with the main thread, the peak is the maximum of 0 and all samples the
  loop has taken, and if there is a final CPU reading there is a first one, so the
  subtraction in \<open>main\<close> never meets \<open>None\<close>.\<close>

theorem sampler_results_are_consistent:
  "rss_peak_kb (sampler_run (new_sampler pgids) evs) = Max (insert 0 (set (rss_samples (new_sampler pgids) evs)))
    \<and> \<not> (cpu_end (sampler_run (new_sampler pgids) evs) \<noteq> None \<and> cpu_start (sampler_run (new_sampler pgids) evs) = None)"
proof -
  let ?s = "sampler_run (new_sampler pgids) evs"
  have fm: "foldl max a xs = Max (insert a (set xs))" for a :: int and xs
  proof (induction xs arbitrary: a)
    case (Cons x xs)
    then show ?case by (cases "xs = []") (auto simp: max.assoc insert_commute [of a x] max.left_commute)
  qed simp
  have "started (new_sampler pgids)" by (simp add: started_def new_sampler_def)
  then have "started ?s" by (rule started_run)
  then have "cpu_end ?s \<noteq> None \<longrightarrow> cpu_start ?s \<noteq> None"
    by (cases "sm_pc ?s") (auto simp: started_def)
  then show ?thesis using peak_run [of "new_sampler pgids" evs] fm by (auto simp: new_sampler_def)
qed

text \<open>The sampler stops. Once the flag is set, four more calls are enough for the thread to
  be over, wherever it is.\<close>

theorem sampler_stops:
  assumes "4 \<le> length (filter (\<lambda>e. e \<noteq> Stop) evs)"
  shows "let p = sm_pc (sampler_run (sampler_step s Stop) evs) in p = Ended \<or> (\<exists>e. p = Crashed e)"
proof -
  have "calls_left (sm_pc (sampler_run (sampler_step s Stop) evs)) = 0"
    using calls_left_run [of "sampler_step s Stop" evs] calls_left_le [of "sm_pc (sampler_step s Stop)"] assms by simp
  then show ?thesis using calls_left_zero by (simp add: Let_def)
qed

theorem sampler_stops_witness:
  "let v = kernel_view [(41, demo_proc)] (\<lambda>_. False) [];
       p = sm_pc (sampler_run (sampler_step (new_sampler [41]) Stop) [Look v, Look v, Look v, Look v])
   in p = Ended \<or> (\<exists>e. p = Crashed e)"
  using sampler_stops [of "replicate 4 (Look (kernel_view [(41, demo_proc)] (\<lambda>_. False) []))" "new_sampler [41]"]
  unfolding Let_def by (simp add: numeral_eq_Suc del: sampler_run.simps sampler_step.simps)

end
