(* ===== verification/World.thy ===== *)
theory World
  imports Specs Proc
begin

text \<open>
  The operating system as the benchmark runner sees it. A world answers each external call
  (starting a process, looking up a process group, sending a signal, connecting, running a
  command to its end) by an arbitrary function of the number of calls made so far, keeps
  the clock, and logs what was done. The only law built in is the documented one of
  \<open>time.sleep\<close> and of a clock that does not run backwards: a call takes no negative time, and
  sleeping takes at least the time asked for.
\<close>

section \<open>State\<close>

datatype sig = SIGTERM | SIGKILL

datatype warning =
    Overlap | UnknownServer string | BuildFailed string | NotReady string int
  | NoJson | ClientSaturated int | SenderBehind int

text \<open>JSON values, as \<open>json.loads\<close> returns them, and the cells of a CSV row.\<close>

datatype json = JNull | JBool bool | JNum rat | JStr string | JArr "json list" | JObj "(string \<times> json) list"

datatype cell = CStr string | CInt int | CNum rat | CJson json

datatype act =
    ATrial string int int
  | APopen int "string list" env
  | ASignal sig int
  | AReap int
  | AConnect int bool
  | ARun "string list" string
  | ASleep rat
  | AMakedirs string
  | AOpen string
  | ARow "(string \<times> cell) list"
  | ATimeline "(string \<times> cell) list"
  | AWarn warning

record world =
  clock :: rat
  now :: nat
  log :: "act list"
  o_dur :: "nat \<Rightarrow> rat"
  o_popen :: "nat \<Rightarrow> int py"
  o_getpgid :: "nat \<Rightarrow> int \<Rightarrow> int py"
  o_killpg :: "nat \<Rightarrow> int \<Rightarrow> sig \<Rightarrow> unit py"
  o_wait :: "nat \<Rightarrow> int \<Rightarrow> unit py"
  o_connect :: "nat \<Rightarrow> bool"
  o_run :: "nat \<Rightarrow> (int \<times> string \<times> string) py"
  o_file :: "nat \<Rightarrow> unit py"
  o_samples :: "nat \<Rightarrow> samp_event list"

type_synonym 'a io = "world \<Rightarrow> 'a py \<times> world"

section \<open>Sequencing\<close>

definition ret :: "'a \<Rightarrow> 'a io" where
  "ret a w = (Inr a, w)"

definition raiseIO :: "py_error \<Rightarrow> 'a io" where
  "raiseIO e w = (Inl e, w)"

definition bindIO :: "'a io \<Rightarrow> ('a \<Rightarrow> 'b io) \<Rightarrow> 'b io" where
  "bindIO m f w = (case m w of (Inl e, w1) \<Rightarrow> (Inl e, w1) | (Inr a, w1) \<Rightarrow> f a w1)"

definition pureIO :: "'a py \<Rightarrow> 'a io" where
  "pureIO m w = (m, w)"

definition catchIO :: "(py_error \<Rightarrow> bool) \<Rightarrow> unit io \<Rightarrow> unit io" where
  "catchIO p m w = (case m w of (Inl e, w1) \<Rightarrow> if p e then (Inr (), w1) else (Inl e, w1) | r \<Rightarrow> r)"

fun forIO :: "('a \<Rightarrow> unit io) \<Rightarrow> 'a list \<Rightarrow> unit io" where
  "forIO f [] = ret ()"
| "forIO f (a # as) = bindIO (f a) (\<lambda>_. forIO f as)"

text \<open>The classes below \<open>OSError\<close>.\<close>

definition is_oserror :: "py_error \<Rightarrow> bool" where
  "is_oserror e \<longleftrightarrow> e \<in> {OSError, FileNotFoundError, ProcessLookupError, PermissionError, ConnectionError}"

section \<open>Calls\<close>

definition elapse :: "rat \<Rightarrow> act list \<Rightarrow> world \<Rightarrow> world" where
  "elapse d as w = w\<lparr>clock := clock w + d + max 0 (o_dur w (now w)), now := Suc (now w), log := log w @ as\<rparr>"

definition sleep :: "rat \<Rightarrow> unit io" where
  "sleep d w = (Inr (), elapse (max 0 d) [ASleep d] w)"

definition warn :: "warning \<Rightarrow> unit io" where
  "warn x w = (Inr (), w\<lparr>log := log w @ [AWarn x]\<rparr>)"

definition put_log :: "act \<Rightarrow> unit io" where
  "put_log a w = (Inr (), w\<lparr>log := log w @ [a]\<rparr>)"

definition popen :: "string list \<Rightarrow> env \<Rightarrow> int io" where
  "popen argv env w =
     (case o_popen w (now w) of
        Inl e \<Rightarrow> (Inl e, elapse 0 [] w)
      | Inr pid \<Rightarrow> (Inr pid, elapse 0 [APopen pid argv env] w))"

definition getpgid :: "int \<Rightarrow> int io" where
  "getpgid pid w = (o_getpgid w (now w) pid, elapse 0 [] w)"

text \<open>\<open>os.killpg(os.getpgid(p.pid), sig)\<close>, logged as an attempt to signal the group of \<open>p\<close>.\<close>

definition killpg :: "sig \<Rightarrow> int \<Rightarrow> unit io" where
  "killpg s pid =
     bindIO (\<lambda>w. (Inr (), w\<lparr>log := log w @ [ASignal s pid]\<rparr>)) (\<lambda>_.
     bindIO (getpgid pid) (\<lambda>g w. (o_killpg w (now w) g s, elapse 0 [] w)))"

definition wait_for :: "int \<Rightarrow> unit io" where
  "wait_for pid w = (o_wait w (now w) pid, elapse 0 [AReap pid] w)"

definition create_connection :: "int \<Rightarrow> world \<Rightarrow> bool \<times> world" where
  "create_connection port w = (o_connect w (now w), elapse 0 [AConnect port (o_connect w (now w))] w)"

definition run_command :: "string list \<Rightarrow> string \<Rightarrow> (int \<times> string \<times> string) io" where
  "run_command argv cwd w = (o_run w (now w), elapse 0 [ARun argv cwd] w)"

definition file_call :: "act \<Rightarrow> unit io" where
  "file_call a w = (o_file w (now w), elapse 0 [a] w)"

section \<open>Rules\<close>

lemma ret_eq [simp]: "ret a w = (Inr a, w)"
  by (simp add: ret_def)

lemma pureIO_eq [simp]: "pureIO m w = (m, w)"
  by (simp add: pureIO_def)

lemma raiseIO_eq [simp]: "raiseIO e w = (Inl e, w)"
  by (simp add: raiseIO_def)

lemma elapse_fields [simp]:
  "log (elapse d as w) = log w @ as" "now (elapse d as w) = Suc (now w)"
  "clock (elapse d as w) = clock w + d + max 0 (o_dur w (now w))"
  by (simp_all add: elapse_def)

text \<open>
  Reasoning about the log of a computation: \<open>emits P m\<close> says that whatever the world, \<open>m\<close>
  appends to the log, ends normally or with an exception, and relates the two by \<open>P\<close>. The
  rules compose such facts along the program.
\<close>

definition emits :: "('a py \<Rightarrow> act list \<Rightarrow> bool) \<Rightarrow> 'a io \<Rightarrow> bool" where
  "emits P m \<longleftrightarrow> (\<forall>w. \<exists>as. log (snd (m w)) = log w @ as \<and> P (fst (m w)) as)"

lemma emitsI: "(\<And>w. \<exists>as. log (snd (m w)) = log w @ as \<and> P (fst (m w)) as) \<Longrightarrow> emits P m"
  by (simp add: emits_def)

lemma emits_obtain:
  assumes "emits P m"
  obtains as where "log (snd (m w)) = log w @ as" "P (fst (m w)) as"
  using assms by (auto simp: emits_def)

lemma emits_mono: "emits P m \<Longrightarrow> (\<And>r as. P r as \<Longrightarrow> Q r as) \<Longrightarrow> emits Q m"
  unfolding emits_def by meson

lemma emits_conj: "emits P m \<Longrightarrow> emits Q m \<Longrightarrow> emits (\<lambda>r as. P r as \<and> Q r as) m"
  unfolding emits_def by (metis same_append_eq)

lemma emits_ret: "P (Inr a) [] \<Longrightarrow> emits P (ret a)"
  by (simp add: emits_def)

lemma emits_raise: "P (Inl e) [] \<Longrightarrow> emits P (raiseIO e)"
  by (simp add: emits_def)

lemma emits_pure: "P m [] \<Longrightarrow> emits P (pureIO m)"
  by (simp add: emits_def)

lemma emits_bind:
  assumes "emits P m" and "\<And>e as. P (Inl e) as \<Longrightarrow> R (Inl e) as"
    and "\<And>a as. P (Inr a) as \<Longrightarrow> emits (\<lambda>r bs. R r (as @ bs)) (f a)"
  shows "emits R (bindIO m f)"
proof (rule emitsI)
  fix w
  obtain r w1 where m: "m w = (r, w1)" by fastforce
  obtain as where as: "log w1 = log w @ as" "P r as" using emits_obtain [OF assms(1), of w] m by auto
  show "\<exists>as. log (snd (bindIO m f w)) = log w @ as \<and> R (fst (bindIO m f w)) as"
  proof (cases r)
    case (Inl e)
    then show ?thesis using m as assms(2) by (simp add: bindIO_def)
  next
    case (Inr a)
    then obtain bs where "log (snd (f a w1)) = log w1 @ bs" "R (fst (f a w1)) (as @ bs)"
      using emits_obtain [OF assms(3), of a as w1] as by metis
    then show ?thesis using m as Inr by (simp add: bindIO_def)
  qed
qed

lemma emits_catch:
  assumes "emits P m" and "\<And>as. P (Inr ()) as \<Longrightarrow> R (Inr ()) as"
    and "\<And>e as. P (Inl e) as \<Longrightarrow> q e \<Longrightarrow> R (Inr ()) as" and "\<And>e as. P (Inl e) as \<Longrightarrow> \<not> q e \<Longrightarrow> R (Inl e) as"
  shows "emits R (catchIO q m)"
proof (rule emitsI)
  fix w
  obtain r w1 where m: "m w = (r, w1)" by fastforce
  obtain as where "log w1 = log w @ as" "P r as" using emits_obtain [OF assms(1), of w] m by auto
  then show "\<exists>as. log (snd (catchIO q m w)) = log w @ as \<and> R (fst (catchIO q m w)) as"
    using m assms(2-4) by (cases r) (auto simp: catchIO_def)
qed

lemma emits_calls:
  "emits (\<lambda>r as. as = [ASleep d] \<and> r = Inr ()) (sleep d)"
  "emits (\<lambda>r as. as = [AWarn x] \<and> r = Inr ()) (warn x)"
  "emits (\<lambda>r as. case r of Inl e \<Rightarrow> as = [] | Inr pid \<Rightarrow> as = [APopen pid argv env]) (popen argv env)"
  "emits (\<lambda>r as. as = []) (getpgid pid)"
  "emits (\<lambda>r as. as = [AReap pid]) (wait_for pid)"
  "emits (\<lambda>r as. as = [ARun argv cwd]) (run_command argv cwd)"
  "emits (\<lambda>r as. as = [a]) (file_call a)"
  "emits (\<lambda>r as. as = [a] \<and> r = Inr ()) (put_log a)"
  by (auto simp: emits_def sleep_def warn_def popen_def getpgid_def wait_for_def run_command_def file_call_def put_log_def split: sum.split)

lemma emits_killpg: "emits (\<lambda>r as. as = [ASignal s pid]) (killpg s pid)"
  by (auto simp: emits_def killpg_def bindIO_def getpgid_def split: sum.split prod.split)

end
