(* ===== verification/Lifecycle.thy ===== *)
theory Lifecycle
  imports World
begin

text \<open>
  The life of one server run: \<open>start_server\<close>, \<open>wait_ready\<close>, \<open>stop_server\<close>, \<open>run_loadgen\<close>
  and \<open>build\<close> of the runner. \<open>json.loads\<close> is a parameter, \<open>None\<close> standing for
  \<open>JSONDecodeError\<close>.
\<close>

section \<open>Definitions\<close>

definition dict_update_all :: "('k, 'v) dict \<Rightarrow> ('k, 'v) dict \<Rightarrow> ('k, 'v) dict" where
  "dict_update_all d e = fold (\<lambda>(k, v). dict_set k v) e d"

definition child_env :: "host \<Rightarrow> env \<Rightarrow> env" where
  "child_env h env_over =
     dict_set ''ULIMIT_HINT'' ''raise nofile via the parent shell'' (dict_update_all (h_environ h) env_over)"

fun start_loop :: "host \<Rightarrow> launch list \<Rightarrow> int list \<Rightarrow> int list \<Rightarrow> (int list \<times> int list) io" where
  "start_loop h [] procs pgids = ret (procs, pgids)"
| "start_loop h ((argv, env_over, cpu) # plan) procs pgids =
     bindIO (popen (taskset_wrap h argv cpu) (child_env h env_over)) (\<lambda>p.
     bindIO (getpgid p) (\<lambda>g. start_loop h plan (procs @ [p]) (pgids @ [g])))"

definition start_server :: "host \<Rightarrow> launch list \<Rightarrow> (int list \<times> int list) io" where
  "start_server h plan = start_loop h plan [] []"

text \<open>
  The readiness loop: it connects while the clock is before the deadline and sleeps a
  tenth of a second after each refusal, so it ends.
\<close>

function wait_loop :: "int \<Rightarrow> rat \<Rightarrow> world \<Rightarrow> bool \<times> world" where
  "wait_loop port deadline w =
     (if clock w < deadline then
        (let (ok, w1) = create_connection port w
         in if ok then (True, w1) else wait_loop port deadline (snd (sleep (1 / 10) w1)))
      else (False, w))"
  by auto
termination
proof (relation "measure (\<lambda>(port, deadline, w). nat \<lceil>(deadline - clock w) * 10\<rceil>)")
  fix port deadline and w :: world and p ok w1
  assume "clock w < deadline" and "p = create_connection port w" and "(ok, w1) = p"
  then have c: "clock w \<le> clock w1" by (auto simp: create_connection_def)
  let ?w2 = "snd (sleep (1 / 10) w1)"
  have "clock w1 + 1 / 10 \<le> clock ?w2" by (simp add: sleep_def)
  then have "(deadline - clock ?w2) * 10 \<le> (deadline - clock w) * 10 - 1" using c by simp
  then have "\<lceil>(deadline - clock ?w2) * 10\<rceil> \<le> \<lceil>(deadline - clock w) * 10 - 1\<rceil>" by (rule ceiling_mono)
  moreover have "\<lceil>(deadline - clock w) * 10 - 1\<rceil> = \<lceil>(deadline - clock w) * 10\<rceil> - 1" by simp
  moreover have "0 < \<lceil>(deadline - clock w) * 10\<rceil>" using \<open>clock w < deadline\<close> by simp
  ultimately show "((port, deadline, ?w2), (port, deadline, w)) \<in> measure (\<lambda>(port, deadline, w). nat \<lceil>(deadline - clock w) * 10\<rceil>)"
    by simp
qed simp

declare wait_loop.simps [simp del]

definition wait_ready :: "int \<Rightarrow> rat \<Rightarrow> bool io" where
  "wait_ready port timeout w = (let (ok, w1) = wait_loop port (clock w + timeout) w in (Inr ok, w1))"

definition stop_server :: "int list \<Rightarrow> unit io" where
  "stop_server procs =
     bindIO (forIO (\<lambda>p. catchIO is_oserror (killpg SIGTERM p)) procs) (\<lambda>_.
     bindIO (sleep (2 / 5)) (\<lambda>_.
     forIO (\<lambda>p. bindIO (catchIO is_oserror (killpg SIGKILL p)) (\<lambda>_.
                 catchIO (\<lambda>e. e = TimeoutExpired) (wait_for p))) procs))"

definition last_line :: "string \<Rightarrow> string" where
  "last_line out = (if strip out \<noteq> [] then last (splitlines (strip out)) else [])"

definition loadgen_argv :: "string \<Rightarrow> int \<Rightarrow> int \<Rightarrow> int \<Rightarrow> int \<Rightarrow> int \<Rightarrow> int \<Rightarrow> string list \<Rightarrow> string list" where
  "loadgen_argv loadgen port conns room_size rate warmup dur extra =
     [loadgen, ''-addr'', ''127.0.0.1:'' @ py_str port, ''-conns'', py_str conns,
      ''-room-size'', py_str room_size, ''-rate'', py_str rate,
      ''-warmup'', py_str warmup @ ''s'', ''-dur'', py_str dur @ ''s'', ''-json''] @ extra"

definition run_loadgen :: "(string \<Rightarrow> json option) \<Rightarrow> host \<Rightarrow> string list \<Rightarrow> int list \<Rightarrow> json option io" where
  "run_loadgen loads h argv client_cores =
     bindIO (run_command (taskset_wrap h argv (cpuspec client_cores)) []) (\<lambda>(rc, out, err).
       case loads (last_line out) of
         Some j \<Rightarrow> ret (if j = JNull then None else Some j)
       | None \<Rightarrow> bindIO (warn NoJson) (\<lambda>_. ret None))"

definition build :: "host \<Rightarrow> (string list \<times> string) option \<Rightarrow> string \<Rightarrow> bool io" where
  "build h cmd_cwd label =
     (case cmd_cwd of
        None \<Rightarrow> ret True
      | Some (cmd, rel) \<Rightarrow>
          bindIO (run_command cmd (path_join (h_root h) rel)) (\<lambda>(rc, out, err).
            if rc \<noteq> 0 then bindIO (warn (BuildFailed label)) (\<lambda>_. ret False) else ret True))"

section \<open>Which processes are left\<close>

text \<open>
  The processes a log has started and not yet tried to kill, and the discipline that a new
  trial only begins when there are none.
\<close>

fun leftover :: "int list \<Rightarrow> act list \<Rightarrow> int list" where
  "leftover live [] = live"
| "leftover live (APopen pid argv env # as) = leftover (live @ [pid]) as"
| "leftover live (ASignal SIGKILL pid # as) = leftover (removeAll pid live) as"
| "leftover live (a # as) = leftover live as"

fun one_at_a_time :: "int list \<Rightarrow> act list \<Rightarrow> bool" where
  "one_at_a_time live [] = True"
| "one_at_a_time live (ATrial name conns trial # as) \<longleftrightarrow> live = [] \<and> one_at_a_time live as"
| "one_at_a_time live (APopen pid argv env # as) = one_at_a_time (live @ [pid]) as"
| "one_at_a_time live (ASignal SIGKILL pid # as) = one_at_a_time (removeAll pid live) as"
| "one_at_a_time live (a # as) = one_at_a_time live as"

lemma leftover_append [simp]: "leftover live (as @ bs) = leftover (leftover live as) bs"
  by (induction live as rule: leftover.induct) auto

lemma one_at_a_time_append [simp]:
  "one_at_a_time live (as @ bs) \<longleftrightarrow> one_at_a_time live as \<and> one_at_a_time (leftover live as) bs"
  by (induction live as rule: one_at_a_time.induct) auto

text \<open>Log entries that neither start, kill nor begin anything.\<close>

fun neutral :: "act \<Rightarrow> bool" where
  "neutral (ATrial name conns trial) = False"
| "neutral (APopen pid argv env) = False"
| "neutral (ASignal s pid) \<longleftrightarrow> s = SIGTERM"
| "neutral a = True"

lemma neutral_log:
  "list_all neutral as \<Longrightarrow> leftover live as = live \<and> one_at_a_time live as"
  by (induction live as rule: one_at_a_time.induct) auto

section \<open>Starting\<close>

fun popen_pid :: "act \<Rightarrow> int option" where
  "popen_pid (APopen pid argv env) = Some pid"
| "popen_pid a = None"

lemma popen_pid_Some: "popen_pid a = Some pid \<longleftrightarrow> (\<exists>argv env. a = APopen pid argv env)"
  by (cases a) auto

lemma popens_log:
  "map popen_pid as = map Some pids \<Longrightarrow> leftover live as = live @ pids \<and> one_at_a_time live as"
proof (induction as arbitrary: live pids)
  case (Cons a as)
  then obtain pid qs where "pids = pid # qs" "popen_pid a = Some pid" "map popen_pid as = map Some qs"
    by (cases pids) auto
  moreover from this obtain argv env where "a = APopen pid argv env" using popen_pid_Some by auto
  ultimately show ?case using Cons.IH [of qs "live @ [pid]"] by simp
qed simp

text \<open>\<open>start_server\<close> logs one start per entry of the plan, with the pinned command and the child's environment.\<close>

definition starts :: "host \<Rightarrow> launch list \<Rightarrow> int list \<Rightarrow> act list" where
  "starts h plan pids =
     map (\<lambda>((argv, env_over, cpu), pid). APopen pid (taskset_wrap h argv cpu) (child_env h env_over)) (zip plan pids)"

lemma start_loop_emits:
  "emits (\<lambda>r as. \<exists>pids. as = starts h (take (length pids) plan) pids \<and> length pids \<le> length plan
      \<and> (\<forall>ps gs. r = Inr (ps, gs) \<longrightarrow> length pids = length plan \<and> ps = procs @ pids)) (start_loop h plan procs pgids)"
proof (induction h plan procs pgids rule: start_loop.induct)
  case (1 h procs pgids)
  show ?case unfolding start_loop.simps by (rule emits_ret) (simp add: starts_def)
next
  case (2 h argv env_over cpu plan procs pgids)
  let ?pin = "taskset_wrap h argv cpu" and ?env = "child_env h env_over"
  let ?Q = "\<lambda>r as. \<exists>pids. as = starts h (take (length pids) ((argv, env_over, cpu) # plan)) pids
      \<and> length pids \<le> length ((argv, env_over, cpu) # plan)
      \<and> (\<forall>ps gs. r = Inr (ps, gs) \<longrightarrow> length pids = length ((argv, env_over, cpu) # plan) \<and> ps = procs @ pids)"
  have rest: "emits (\<lambda>r bs. ?Q r ([APopen p ?pin ?env] @ bs)) (start_loop h plan (procs @ [p]) (pgids @ [g]))" for p g
  proof (rule emits_mono [OF 2])
    fix r bs
    assume "\<exists>pids. bs = starts h (take (length pids) plan) pids \<and> length pids \<le> length plan
      \<and> (\<forall>ps gs. r = Inr (ps, gs) \<longrightarrow> length pids = length plan \<and> ps = (procs @ [p]) @ pids)"
    then obtain pids where "bs = starts h (take (length pids) plan) pids" "length pids \<le> length plan"
      "\<forall>ps gs. r = Inr (ps, gs) \<longrightarrow> length pids = length plan \<and> ps = (procs @ [p]) @ pids" by blast
    then show "?Q r ([APopen p ?pin ?env] @ bs)" by (intro exI [of _ "p # pids"]) (simp add: starts_def)
  qed
  have one: "?Q (Inl e) [APopen p ?pin ?env]" for e p
    by (intro exI [of _ "[p]"]) (simp add: starts_def)
  have none: "?Q (Inl e) []" for e by (intro exI [of _ "[]"]) (simp add: starts_def)
  have "emits (\<lambda>r bs. ?Q r ([APopen p ?pin ?env] @ bs))
      (bindIO (getpgid p) (\<lambda>g. start_loop h plan (procs @ [p]) (pgids @ [g])))" for p
    using emits_calls(4) [of p] one rest by (intro emits_bind [OF emits_calls(4)]) auto
  then show ?case unfolding start_loop.simps using none by (intro emits_bind [OF emits_calls(3)]) auto
qed

section \<open>Stopping\<close>

definition stop_log :: "int list \<Rightarrow> act list" where
  "stop_log procs = map (ASignal SIGTERM) procs @ [ASleep (2 / 5)] @ concat (map (\<lambda>p. [ASignal SIGKILL p, AReap p]) procs)"

lemma emits_for:
  assumes "\<And>a. emits (\<lambda>r as. (r = Inr () \<longrightarrow> as = g a) \<and> list_all q as) (f a)"
  shows "emits (\<lambda>r as. (r = Inr () \<longrightarrow> as = concat (map g xs)) \<and> list_all q as) (forIO f xs)"
proof (induction xs)
  case Nil
  show ?case unfolding forIO.simps by (rule emits_ret) simp
next
  case (Cons x xs)
  show ?case unfolding forIO.simps
  proof (rule emits_bind [OF assms])
    fix u and as
    assume "(Inr u = Inr () \<longrightarrow> as = g x) \<and> list_all q as"
    then show "emits (\<lambda>r bs. (r = Inr () \<longrightarrow> as @ bs = concat (map g (x # xs))) \<and> list_all q (as @ bs)) (forIO f xs)"
      using emits_mono [OF Cons] by auto
  qed simp
qed

fun stopping :: "act \<Rightarrow> bool" where
  "stopping (ASignal s pid) = True" | "stopping (AReap pid) = True" | "stopping (ASleep d) = True" | "stopping a = False"

lemma term_emits: "emits (\<lambda>r as. (r = Inr () \<longrightarrow> as = [ASignal s p]) \<and> list_all stopping as) (catchIO is_oserror (killpg s p))"
  by (rule emits_catch [OF emits_killpg]) auto

lemma kill_emits:
  "emits (\<lambda>r as. (r = Inr () \<longrightarrow> as = [ASignal SIGKILL p, AReap p]) \<and> list_all stopping as)
    (bindIO (catchIO is_oserror (killpg SIGKILL p)) (\<lambda>_. catchIO (\<lambda>e. e = TimeoutExpired) (wait_for p)))"
proof (rule emits_bind [OF term_emits])
  fix u and as
  assume "(Inr u = Inr () \<longrightarrow> as = [ASignal SIGKILL p]) \<and> list_all stopping as"
  then show "emits (\<lambda>r bs. (r = Inr () \<longrightarrow> as @ bs = [ASignal SIGKILL p, AReap p]) \<and> list_all stopping (as @ bs))
      (catchIO (\<lambda>e. e = TimeoutExpired) (wait_for p))"
    by (intro emits_catch [OF emits_calls(5)]) auto
qed simp

lemma stop_server_emits:
  "emits (\<lambda>r as. (r = Inr () \<longrightarrow> as = stop_log procs) \<and> list_all stopping as) (stop_server procs)"
  unfolding stop_server_def
proof (rule emits_bind [OF emits_for [OF term_emits]])
  fix u and as
  assume 1: "(Inr u = Inr () \<longrightarrow> as = concat (map (\<lambda>p. [ASignal SIGTERM p]) procs)) \<and> list_all stopping as"
  show "emits (\<lambda>r bs. (r = Inr () \<longrightarrow> as @ bs = stop_log procs) \<and> list_all stopping (as @ bs))
     (bindIO (sleep (2 / 5)) (\<lambda>_. forIO (\<lambda>p. bindIO (catchIO is_oserror (killpg SIGKILL p))
        (\<lambda>_. catchIO (\<lambda>e. e = TimeoutExpired) (wait_for p))) procs))"
  proof (rule emits_bind [OF emits_calls(1)])
    fix v :: unit and bs
    assume "bs = [ASleep (2 / 5)] \<and> Inr v = Inr ()"
    then show "emits (\<lambda>r cs. (r = Inr () \<longrightarrow> as @ bs @ cs = stop_log procs) \<and> list_all stopping (as @ bs @ cs))
        (forIO (\<lambda>p. bindIO (catchIO is_oserror (killpg SIGKILL p)) (\<lambda>_. catchIO (\<lambda>e. e = TimeoutExpired) (wait_for p))) procs)"
      using 1 by (intro emits_mono [OF emits_for [OF kill_emits]]) (auto simp: stop_log_def map_concat)
  qed simp
qed simp

text \<open>
  What the code expects of the signalling calls: they fail with an \<open>OSError\<close>, and waiting
  for a child fails with \<open>TimeoutExpired\<close> only.
\<close>

definition polite :: "world \<Rightarrow> bool" where
  "polite w \<longleftrightarrow> (\<forall>n p e. o_getpgid w n p = Inl e \<longrightarrow> is_oserror e)
     \<and> (\<forall>n g s e. o_killpg w n g s = Inl e \<longrightarrow> is_oserror e)
     \<and> (\<forall>n p e. o_wait w n p = Inl e \<longrightarrow> e = TimeoutExpired)"

definition returns :: "unit io \<Rightarrow> bool" where
  "returns m \<longleftrightarrow> (\<forall>w. polite w \<longrightarrow> fst (m w) = Inr () \<and> polite (snd (m w)))"

lemma polite_tick [simp]: "polite (elapse d as w) = polite w" "polite (w\<lparr>log := l\<rparr>) = polite w"
  by (simp_all add: polite_def elapse_def)

lemma returns_bind: "returns m \<Longrightarrow> returns (f ()) \<Longrightarrow> returns (bindIO m f)"
  unfolding returns_def bindIO_def by (auto split: prod.split sum.split)

lemma returns_for: "(\<And>a. returns (f a)) \<Longrightarrow> returns (forIO f as)"
  by (induction as) (auto simp: returns_bind, simp add: returns_def)

lemma returns_sleep: "returns (sleep d)"
  by (simp add: returns_def sleep_def)

lemma returns_killpg: "returns (catchIO is_oserror (killpg s p))"
  by (auto simp: returns_def catchIO_def killpg_def bindIO_def getpgid_def split: sum.split)
    (auto simp: polite_def elapse_def)

lemma returns_wait: "returns (catchIO (\<lambda>e. e = TimeoutExpired) (wait_for p))"
  by (auto simp: returns_def catchIO_def wait_for_def split: sum.split) (auto simp: polite_def)

lemma returns_stop: "returns (stop_server procs)"
  unfolding stop_server_def
  by (intro returns_bind returns_for returns_killpg returns_sleep returns_wait)

section \<open>Waiting\<close>

lemma wait_loop_log:
  assumes "wait_loop port deadline w = (ok, w')"
  shows "\<exists>n. log w' = log w @ concat (replicate n [AConnect port False, ASleep (1 / 10)]) @ (if ok then [AConnect port True] else [])
    \<and> (\<not> ok \<longrightarrow> deadline \<le> clock w')"
  using assms
proof (induction port deadline w arbitrary: ok w' rule: wait_loop.induct)
  case (1 port deadline w)
  obtain c w1 where c: "create_connection port w = (c, w1)" by fastforce
  then have l1: "log w1 = log w @ [AConnect port c]" by (auto simp: create_connection_def)
  consider "\<not> clock w < deadline" | "clock w < deadline" "c" | "clock w < deadline" "\<not> c" by blast
  then show ?case
  proof cases
    case 1
    then show ?thesis using "1.prems" by (intro exI [of _ 0]) (simp add: wait_loop.simps [of port deadline w])
  next
    case 2
    then show ?thesis using "1.prems" c l1 by (intro exI [of _ 0]) (simp add: wait_loop.simps [of port deadline w])
  next
    case 3
    let ?w2 = "snd (sleep (1 / 10) w1)"
    have rec: "wait_loop port deadline ?w2 = (ok, w')"
      using "1.prems" c 3 by (simp add: wait_loop.simps [of port deadline w])
    obtain n where n: "log w' = log ?w2 @ concat (replicate n [AConnect port False, ASleep (1 / 10)]) @ (if ok then [AConnect port True] else [])"
      "\<not> ok \<longrightarrow> deadline \<le> clock w'"
      using "1.IH" [OF 3(1) c [symmetric] refl 3(2) rec] by blast
    show ?thesis
    proof (intro exI [of _ "Suc n"] conjI)
      show "log w' = log w @ concat (replicate (Suc n) [AConnect port False, ASleep (1 / 10)]) @ (if ok then [AConnect port True] else [])"
        using n(1) l1 3(2) by (simp add: sleep_def)
    qed (use n in simp)
  qed
qed

lemma wait_ready_emits:
  "emits (\<lambda>r as. \<exists>ok n. r = Inr ok \<and>
      as = concat (replicate n [AConnect port False, ASleep (1 / 10)]) @ (if ok then [AConnect port True] else [])) (wait_ready port t)"
proof (rule emitsI)
  fix w
  obtain ok w' where "wait_loop port (clock w + t) w = (ok, w')" by fastforce
  then show "\<exists>as. log (snd (wait_ready port t w)) = log w @ as \<and> (\<exists>ok n. fst (wait_ready port t w) = Inr ok \<and>
      as = concat (replicate n [AConnect port False, ASleep (1 / 10)]) @ (if ok then [AConnect port True] else []))"
    using wait_loop_log by (fastforce simp: wait_ready_def)
qed

section \<open>Properties\<close>

text \<open>C36: Readiness. \<open>wait_ready\<close> always returns. It answers yes exactly when its last connection
  attempt was accepted, all earlier ones having been refused, each with a pause of a
  tenth of a second; it answers no only when the time limit has passed.\<close>

theorem wait_ready_verdict:
  "\<exists>ok n. fst (wait_ready port timeout w) = Inr ok
    \<and> log (snd (wait_ready port timeout w)) = log w @ concat (replicate n [AConnect port False, ASleep (1 / 10)])
        @ (if ok then [AConnect port True] else [])
    \<and> (ok \<or> clock w + timeout \<le> clock (snd (wait_ready port timeout w)))"
proof -
  obtain ok w' where "wait_loop port (clock w + timeout) w = (ok, w')" by fastforce
  then show ?thesis using wait_loop_log by (fastforce simp: wait_ready_def)
qed


definition demo_world :: world where
  "demo_world = \<lparr>clock = 0, now = 0, log = [], o_dur = (\<lambda>_. 1), o_popen = (\<lambda>n. Inr (int n + 100)),
     o_getpgid = (\<lambda>n p. if p = 100 then Inl ProcessLookupError else Inr p), o_killpg = (\<lambda>n g s. Inr ()),
     o_wait = (\<lambda>n p. Inl TimeoutExpired), o_connect = (\<lambda>n. False), o_run = (\<lambda>n. Inr (0, [], [])),
     o_file = (\<lambda>n. Inr ()), o_samples = (\<lambda>n. [])\<rparr>"


end
