(* ===== verification/Bench.thy ===== *)
theory Bench
  imports Lifecycle PyNum "HOL-Library.Sublist"
begin

text \<open>
  \<open>main\<close> of the runner: the argument record that theory \<open>Argparse\<close> fills, the benchmark matrix
  (server, connection count, trial), one trial with its result row and timeline, and the
  bookkeeping around it. Floats are exact rationals here; \<open>print\<close> is left out. The sampler
  thread is the state machine of theory \<open>Proc\<close>, run on the views the world provides and
  read once after \<open>stop()\<close>.
\<close>

section \<open>Data\<close>

record args =
  a_servers :: string
  a_conns :: string
  a_trials :: int
  a_room_size :: int
  a_rate :: int
  a_tick :: int
  a_warmup :: int
  a_dur :: int
  a_server_cores :: string
  a_client_cores :: string
  a_out :: string
  a_cooldown :: rat
  a_loadgen :: string

definition csv_fields :: "string list" where
  "csv_fields = [''server'', ''conns'', ''trial'', ''moves_sent'', ''snaps_recv'', ''measured'',
     ''moves_per_s'', ''snaps_per_s'', ''p50_ms'', ''p90_ms'', ''p99_ms'', ''p999_ms'',
     ''max_ms'', ''p99_worst_1s_ms'', ''p99_cv'', ''rss_idle_mb'', ''rss_peak_mb'',
     ''cpu_cores'', ''client_cpu_cores'', ''send_rate_pct'']"

definition tl_fields :: "string list" where
  "tl_fields = [''server'', ''conns'', ''trial'', ''t_s'', ''p50_ms'', ''p90_ms'', ''p99_ms'', ''p999_ms'', ''max_ms'']"

section \<open>Values\<close>

definition json_item :: "json \<Rightarrow> string \<Rightarrow> json py" where
  "json_item j k =
     (case j of
        JObj d \<Rightarrow> (case dict_get d k of Some v \<Rightarrow> Inr v | None \<Rightarrow> Inl KeyError)
      | _ \<Rightarrow> Inl TypeError)"

definition json_get :: "json \<Rightarrow> string \<Rightarrow> json \<Rightarrow> json py" where
  "json_get j k dflt =
     (case j of
        JObj d \<Rightarrow> Inr (case dict_get d k of Some v \<Rightarrow> v | None \<Rightarrow> dflt)
      | _ \<Rightarrow> Inl TypeError)"

definition json_num :: "json \<Rightarrow> rat py" where
  "json_num j = (case j of JNum q \<Rightarrow> Inr q | JBool b \<Rightarrow> Inr (if b then 1 else 0) | _ \<Rightarrow> Inl TypeError)"

definition json_int :: "json \<Rightarrow> int py" where
  "json_int j =
     (case j of
        JNum q \<Rightarrow> Inr (if q < 0 then \<lceil>q\<rceil> else \<lfloor>q\<rfloor>)
      | JBool b \<Rightarrow> Inr (if b then 1 else 0)
      | JStr s \<Rightarrow> py_int s
      | _ \<Rightarrow> Inl TypeError)"

definition json_list :: "json \<Rightarrow> json list py" where
  "json_list j =
     (case j of
        JArr xs \<Rightarrow> Inr xs
      | JStr s \<Rightarrow> Inr (map (\<lambda>c. JStr [c]) s)
      | JObj d \<Rightarrow> Inr (map (JStr \<circ> fst) d)
      | _ \<Rightarrow> Inl TypeError)"

definition rounded :: "json py \<Rightarrow> nat \<Rightarrow> cell py" where
  "rounded m d = bindE m (\<lambda>j. bindE (json_num j) (\<lambda>q. Inr (CNum (round_nd q d))))"

definition as_is :: "json py \<Rightarrow> cell py" where
  "as_is m = bindE m (\<lambda>j. Inr (CJson j))"

definition build_dict :: "(string \<times> cell py) list \<Rightarrow> (string \<times> cell) list py" where
  "build_dict items = mapE (\<lambda>(k, m). bindE m (\<lambda>c. Inr (k, c))) items"

section \<open>One result\<close>

definition cpu_cores_of :: "host \<Rightarrow> int \<Rightarrow> sampler \<Rightarrow> rat py" where
  "cpu_cores_of h wall sm =
     (case cpu_end sm of
        None \<Rightarrow> Inr 0
      | Some e \<Rightarrow>
          (case cpu_start sm of
             None \<Rightarrow> Inl TypeError
           | Some b \<Rightarrow> if h_clk h * wall = 0 then Inl ZeroDivisionError
                      else Inr (of_int (e - b) / of_int (h_clk h * wall))))"

definition row_items :: "string \<Rightarrow> int \<Rightarrow> int \<Rightarrow> json \<Rightarrow> sampler \<Rightarrow> rat \<Rightarrow> (string \<times> cell py) list" where
  "row_items name conns trial res sm cpu_cores =
     [(''server'', Inr (CStr name)), (''conns'', Inr (CInt conns)), (''trial'', Inr (CInt trial)),
      (''moves_sent'', as_is (json_item res ''moves_sent'')),
      (''snaps_recv'', as_is (json_item res ''snaps_recv'')),
      (''measured'', as_is (json_item res ''measured'')),
      (''moves_per_s'', rounded (json_item res ''moves_per_s'') 1),
      (''snaps_per_s'', rounded (json_item res ''snaps_per_s'') 1),
      (''p50_ms'', rounded (json_item res ''p50_ms'') 2), (''p90_ms'', rounded (json_item res ''p90_ms'') 2),
      (''p99_ms'', rounded (json_item res ''p99_ms'') 2), (''p999_ms'', rounded (json_item res ''p999_ms'') 2),
      (''max_ms'', rounded (json_item res ''max_ms'') 2),
      (''p99_worst_1s_ms'', rounded (json_item res ''p99_worst_1s_ms'') 2),
      (''p99_cv'', rounded (json_item res ''p99_cv'') 3),
      (''rss_idle_mb'', Inr (CNum (round_nd (of_int (rss_first_kb sm) / 1024) 1))),
      (''rss_peak_mb'', Inr (CNum (round_nd (of_int (rss_peak_kb sm) / 1024) 1))),
      (''cpu_cores'', Inr (CNum (round_nd cpu_cores 2))),
      (''client_cpu_cores'', rounded (json_get res ''client_cpu_cores'' (JNum 0)) 2),
      (''send_rate_pct'', rounded (json_get res ''send_rate_pct'' (JNum 0)) 1)]"

definition make_row :: "host \<Rightarrow> args \<Rightarrow> string \<Rightarrow> int \<Rightarrow> int \<Rightarrow> json \<Rightarrow> sampler \<Rightarrow> (string \<times> cell) list py" where
  "make_row h a name conns trial res sm =
     bindE (cpu_cores_of h (a_warmup a + a_dur a) sm) (\<lambda>cpu_cores. build_dict (row_items name conns trial res sm cpu_cores))"

text \<open>\<open>t_s, p50, p90, p99, p999, mx = w\<close> raises unless there are exactly six values.\<close>

definition unpack6 :: "'a list \<Rightarrow> ('a \<times> 'a \<times> 'a \<times> 'a \<times> 'a \<times> 'a) py" where
  "unpack6 vs = (if length vs = 6 then Inr (vs ! 0, vs ! 1, vs ! 2, vs ! 3, vs ! 4, vs ! 5) else Inl ValueError)"

definition timeline_row :: "string \<Rightarrow> int \<Rightarrow> int \<Rightarrow> json \<Rightarrow> (string \<times> cell) list py" where
  "timeline_row name conns trial w =
     bindE (json_list w) (\<lambda>vs. bindE (unpack6 vs) (\<lambda>(t_s, p50, p90, p99, p999, mx).
       build_dict
        [(''server'', Inr (CStr name)), (''conns'', Inr (CInt conns)), (''trial'', Inr (CInt trial)),
         (''t_s'', bindE (json_int t_s) (\<lambda>n. Inr (CInt n))),
         (''p50_ms'', rounded (Inr p50) 2), (''p90_ms'', rounded (Inr p90) 2),
         (''p99_ms'', rounded (Inr p99) 2), (''p999_ms'', rounded (Inr p999) 2),
         (''max_ms'', rounded (Inr mx) 2)]))"

text \<open>\<open>DictWriter.writerow\<close> refuses keys outside the header and leaves missing columns empty.\<close>

definition writerow :: "string list \<Rightarrow> ((string \<times> cell) list \<Rightarrow> act) \<Rightarrow> (string \<times> cell) list \<Rightarrow> unit io" where
  "writerow header mk row =
     (if set (keys row) \<subseteq> set header
      then put_log (mk (map (\<lambda>f. (f, case dict_get row f of Some c \<Rightarrow> c | None \<Rightarrow> CStr [])) header))
      else raiseIO ValueError)"

definition cell_num :: "cell option \<Rightarrow> rat" where
  "cell_num c = (case c of Some (CNum q) \<Rightarrow> q | _ \<Rightarrow> 0)"

definition sleep_arg :: "rat \<Rightarrow> unit io" where
  "sleep_arg d = (if d < 0 then raiseIO ValueError else sleep d)"

definition record_result :: "host \<Rightarrow> args \<Rightarrow> int list \<Rightarrow> string \<Rightarrow> int \<Rightarrow> int \<Rightarrow> json \<Rightarrow> sampler \<Rightarrow> unit io" where
  "record_result h a client_cores name conns trial res sm =
     bindIO (pureIO (make_row h a name conns trial res sm)) (\<lambda>row.
     bindIO (writerow csv_fields ARow row) (\<lambda>_.
     bindIO (if cell_num (dict_get row ''client_cpu_cores'') > 17 / 20 * of_nat (length client_cores)
             then warn (ClientSaturated conns) else ret ()) (\<lambda>_.
     bindIO (if cell_num (dict_get row ''send_rate_pct'') < 97 then warn (SenderBehind conns) else ret ()) (\<lambda>_.
     bindIO (pureIO (bindE (json_get res ''timeline'' (JArr [])) json_list)) (\<lambda>ws.
     forIO (\<lambda>w. bindIO (pureIO (timeline_row name conns trial w)) (writerow tl_fields ATimeline)) ws)))))"

section \<open>The matrix\<close>

definition read_sampler :: "int list \<Rightarrow> sampler io" where
  "read_sampler pgids w = (Inr (sampler_run (new_sampler pgids) (o_samples w (now w))), elapse 0 [] w)"

text \<open>What the trials share: the arguments, the parsed core lists and the load generator.\<close>

record bench =
  st_args :: args
  st_server_cores :: "int list"
  st_client_cores :: "int list"
  st_loadgen :: string
  st_extra :: "string list"

definition measure_run ::
  "(string \<Rightarrow> json option) \<Rightarrow> host \<Rightarrow> bench \<Rightarrow> string \<Rightarrow> int \<Rightarrow> int \<Rightarrow> int list \<Rightarrow> int list \<Rightarrow> unit io" where
  "measure_run loads h st name conns trial procs pgids =
     (let a = st_args st
      in bindIO (run_loadgen loads h (loadgen_argv (st_loadgen st) PORT conns (a_room_size a) (a_rate a)
                   (a_warmup a) (a_dur a) (st_extra st)) (st_client_cores st)) (\<lambda>res.
         bindIO (read_sampler pgids) (\<lambda>sm.
         bindIO (stop_server procs) (\<lambda>_.
           case res of
             None \<Rightarrow> sleep_arg (a_cooldown a)
           | Some j \<Rightarrow> bindIO (record_result h a (st_client_cores st) name conns trial j sm)
                        (\<lambda>_. sleep_arg (a_cooldown a))))))"

definition run_trial :: "(string \<Rightarrow> json option) \<Rightarrow> host \<Rightarrow> bench \<Rightarrow> string \<Rightarrow> server_entry \<Rightarrow> int \<Rightarrow> int \<Rightarrow> unit io" where
  "run_trial loads h st name entry conns trial =
     bindIO (put_log (ATrial name conns trial)) (\<lambda>_.
     bindIO (start_server h (s_spec entry h PORT (a_tick (st_args st)) (st_server_cores st))) (\<lambda>(procs, pgids).
     bindIO (wait_ready PORT 15) (\<lambda>ok.
       if \<not> ok then
         bindIO (warn (NotReady name conns)) (\<lambda>_.
         bindIO (stop_server procs) (\<lambda>_. sleep_arg (a_cooldown (st_args st))))
       else measure_run loads h st name conns trial procs pgids)))"

definition run_server :: "(string \<Rightarrow> json option) \<Rightarrow> host \<Rightarrow> bench \<Rightarrow> int list \<Rightarrow> string \<Rightarrow> unit io" where
  "run_server loads h st conns_list name =
     (case dict_get SERVERS name of
        None \<Rightarrow> warn (UnknownServer name)
      | Some entry \<Rightarrow>
          bindIO (build h (s_build entry) name) (\<lambda>ok.
            if \<not> ok then ret ()
            else forIO (\<lambda>conns. forIO (\<lambda>trial. run_trial loads h st name entry conns trial)
                          [1 .. a_trials (st_args st)]) conns_list))"

text \<open>\<open>os.makedirs\<close> raises on the empty path.\<close>

definition makedirs :: "string \<Rightarrow> unit io" where
  "makedirs d = (if d = [] then raiseIO FileNotFoundError else file_call (AMakedirs d))"

definition server_names :: "string \<Rightarrow> string list" where
  "server_names s = filter (\<lambda>x. x \<noteq> []) (map strip (split_on (CHR '','') s))"

definition choose_loadgen :: "host \<Rightarrow> args \<Rightarrow> int list \<Rightarrow> string \<times> (string list \<times> string) \<times> string list" where
  "choose_loadgen h a client_cores =
     (if a_loadgen a = ''odin''
      then (path_join (path_join (h_root h) ''loadgen-odin'') ''loadgen-odin'',
            ([''odin'', ''build'', ''.'', ''-out:loadgen-odin'', ''-o:speed''], ''loadgen-odin''),
            [''-workers'', py_str (int (length client_cores))])
      else (path_join (path_join (h_root h) ''loadgen'') ''loadgen'',
            ([''go'', ''build'', ''-o'', ''loadgen'', ''.''], ''loadgen''), []))"

definition bench_main :: "(string \<Rightarrow> json option) \<Rightarrow> host \<Rightarrow> args \<Rightarrow> unit io" where
  "bench_main loads h a =
     bindIO (pureIO (parse_cores (a_server_cores a) (default_server_cores h))) (\<lambda>server_cores.
     bindIO (pureIO (parse_cores (a_client_cores a) (default_client_cores h))) (\<lambda>client_cores.
     bindIO (if set server_cores \<inter> set client_cores \<noteq> {} then warn Overlap else ret ()) (\<lambda>_.
     bindIO (pureIO (mapE py_int (split_on (CHR '','') (a_conns a)))) (\<lambda>conns_list.
     let (loadgen, loadgen_build, loadgen_extra) = choose_loadgen h a client_cores;
         st = \<lparr>st_args = a, st_server_cores = server_cores, st_client_cores = client_cores,
               st_loadgen = loadgen, st_extra = loadgen_extra\<rparr>
     in bindIO (build h (Some loadgen_build) (a_loadgen a @ '' loadgen'')) (\<lambda>ok.
        if \<not> ok then raiseIO (SystemExit 1)
        else
          bindIO (makedirs (dirname (a_out a))) (\<lambda>_.
          bindIO (file_call (AOpen (a_out a))) (\<lambda>_.
          bindIO (file_call (AOpen (path_join (dirname (a_out a)) ''timeline.csv''))) (\<lambda>_.
          forIO (run_server loads h st conns_list) (server_names (a_servers a))))))))))"

section \<open>Logs with only certain entries\<close>

definition only :: "(act \<Rightarrow> bool) \<Rightarrow> 'a io \<Rightarrow> bool" where
  "only q m \<longleftrightarrow> emits (\<lambda>r as. list_all q as) m"

named_theorems only_rules \<open>rules for the entries a computation may log\<close>

lemma only_bind [only_rules]:
  assumes "only q m" and "\<And>a. only q (f a)"
  shows "only q (bindIO m f)"
  unfolding only_def
proof (rule emits_bind [OF assms(1) [unfolded only_def]])
  fix a as
  assume "list_all q as"
  then show "emits (\<lambda>r bs. list_all q (as @ bs)) (f a)" using assms(2) [of a] by (simp add: only_def)
qed simp

lemma only_pure [only_rules]: "only q (ret a)" "only q (raiseIO e)" "only q (pureIO m)" "only q (read_sampler pgids)"
  by (simp_all add: only_def emits_def read_sampler_def)

lemma only_if [only_rules]: "(c \<Longrightarrow> only q m) \<Longrightarrow> (\<not> c \<Longrightarrow> only q m') \<Longrightarrow> only q (if c then m else m')"
  by simp

lemma only_for [only_rules]: "(\<And>a. only q (f a)) \<Longrightarrow> only q (forIO f xs)"
  by (induction xs) (auto intro: only_rules)

lemma only_option [only_rules]: "(only q m) \<Longrightarrow> (\<And>a. only q (f a)) \<Longrightarrow> only q (case x of None \<Rightarrow> m | Some a \<Rightarrow> f a)"
  by (cases x) auto

lemma only_prod [only_rules]: "(\<And>a b. only q (f a b)) \<Longrightarrow> only q (case x of (a, b) \<Rightarrow> f a b)"
  by (cases x) auto

lemma only_calls [only_rules]:
  "q (ASleep d) \<Longrightarrow> only q (sleep d)" "q (AWarn x) \<Longrightarrow> only q (warn x)" "q (ARun argv cwd) \<Longrightarrow> only q (run_command argv cwd)"
  "q a \<Longrightarrow> only q (file_call a)" "q a \<Longrightarrow> only q (put_log a)"
  using emits_calls(1) [of d] emits_calls(2) [of x] emits_calls(6) [of argv cwd] emits_calls(7,8) [of a]
  unfolding only_def by (auto elim: emits_mono)

lemma only_wait [only_rules]: "(\<And>ok. q (AConnect port ok)) \<Longrightarrow> q (ASleep (1 / 10)) \<Longrightarrow> only q (wait_ready port t)"
proof -
  assume q: "\<And>ok. q (AConnect port ok)" "q (ASleep (1 / 10))"
  have "list_all q (concat (replicate n [AConnect port False, ASleep (1 / 10)]))" for n
    using q by (induction n) auto
  then show ?thesis unfolding only_def by (intro emits_mono [OF wait_ready_emits]) (auto simp: q)
qed

lemma only_stop [only_rules]: "(\<And>a. stopping a \<Longrightarrow> q a) \<Longrightarrow> only q (stop_server procs)"
  unfolding only_def by (rule emits_mono [OF stop_server_emits]) (auto elim: list.pred_mono_strong)

lemma only_start [only_rules]:
  assumes "\<And>pid argv env cpu. (argv, env, cpu) \<in> set plan \<Longrightarrow> q (APopen pid (taskset_wrap h argv cpu) (child_env h env))"
  shows "only q (start_server h plan)"
  unfolding only_def start_server_def
proof (rule emits_mono [OF start_loop_emits])
  fix r as
  assume "\<exists>pids. as = starts h (take (length pids) plan) pids \<and> length pids \<le> length plan
    \<and> (\<forall>ps gs. r = Inr (ps, gs) \<longrightarrow> length pids = length plan \<and> ps = [] @ pids)"
  then show "list_all q as"
    using assms by (auto simp: starts_def list_all_iff dest!: set_zip_leftD in_set_takeD)
qed

lemma only_loadgen [only_rules]:
  "q (ARun (taskset_wrap h argv (cpuspec cores)) []) \<Longrightarrow> q (AWarn NoJson) \<Longrightarrow> only q (run_loadgen loads h argv cores)"
  unfolding run_loadgen_def by (intro only_rules) (auto intro: only_rules)

lemma only_build [only_rules]:
  "(\<And>cmd rel. c = Some (cmd, rel) \<Longrightarrow> q (ARun cmd (path_join (h_root h) rel))) \<Longrightarrow> q (AWarn (BuildFailed label)) \<Longrightarrow>
    only q (build h c label)"
  unfolding build_def by (auto split: option.split intro!: only_rules)

lemma only_sleep_arg [only_rules]: "q (ASleep d) \<Longrightarrow> only q (sleep_arg d)"
  unfolding sleep_arg_def by (intro only_rules)

section \<open>The discipline of a computation\<close>

text \<open>
  A computation clears \<open>live\<close> if, started with these processes left over, it never begins a
  trial while a process is, and leaves none behind when it returns normally. It is orderly
  if it clears the empty list.
\<close>

definition clears :: "int list \<Rightarrow> 'a io \<Rightarrow> bool" where
  "clears live m \<longleftrightarrow> emits (\<lambda>r as. one_at_a_time live as \<and> (r \<in> range Inr \<longrightarrow> leftover live as = [])) m"

abbreviation orderly :: "'a io \<Rightarrow> bool" where
  "orderly m \<equiv> clears [] m"

lemma clears_bind:
  fixes m :: "'a io"
  assumes "clears live m" and "\<And>a. orderly (f a)"
  shows "clears live (bindIO m f)"
  unfolding clears_def
proof (rule emits_bind [OF assms(1) [unfolded clears_def]])
  fix a :: 'a and as
  assume "one_at_a_time live as \<and> (Inr a \<in> range Inr \<longrightarrow> leftover live as = [])"
  then show "emits (\<lambda>r bs. one_at_a_time live (as @ bs) \<and> (r \<in> range Inr \<longrightarrow> leftover live (as @ bs) = [])) (f a)"
    using assms(2) [of a] by (simp add: clears_def)
qed auto

lemma clears_after_quiet:
  fixes m :: "'a io"
  assumes "only neutral m" and "\<And>a. clears live (f a)"
  shows "clears live (bindIO m f)"
  unfolding clears_def
proof (rule emits_bind [OF assms(1) [unfolded only_def]])
  fix a :: 'a and as
  assume "list_all neutral as"
  then show "emits (\<lambda>r bs. one_at_a_time live (as @ bs) \<and> (r \<in> range Inr \<longrightarrow> leftover live (as @ bs) = [])) (f a)"
    using assms(2) [of a] neutral_log by (simp add: clears_def)
qed (use neutral_log in auto)

lemma orderly_quiet: "only neutral m \<Longrightarrow> orderly m"
  unfolding clears_def only_def by (erule emits_mono) (use neutral_log in blast)

lemma orderly_for: "(\<And>a. orderly (f a)) \<Longrightarrow> orderly (forIO f xs)"
proof (induction xs)
  case Nil
  show ?case unfolding forIO.simps by (intro orderly_quiet only_rules)
qed (simp add: clears_bind)

lemma leftover_kills:
  "leftover live (concat (map (\<lambda>p. [ASignal SIGKILL p, AReap p]) ps)) = filter (\<lambda>x. x \<notin> set ps) live"
  by (induction ps arbitrary: live) (auto simp: removeAll_filter_not_eq intro: filter_cong)

lemma leftover_stop_log: "leftover procs (stop_log procs) = []"
proof -
  have "leftover procs (map (ASignal SIGTERM) ps) = procs" for ps by (induction ps) auto
  then show ?thesis by (simp add: stop_log_def leftover_kills)
qed

lemma stopping_orderly: "list_all stopping as \<Longrightarrow> one_at_a_time live as"
  by (induction live as rule: one_at_a_time.induct) auto

lemma clears_stop: "clears procs (stop_server procs)"
  unfolding clears_def
  by (rule emits_mono [OF stop_server_emits]) (auto simp: stopping_orderly leftover_stop_log)

lemma starts_log: "length pids \<le> length plan \<Longrightarrow>
  one_at_a_time live (starts h (take (length pids) plan) pids) \<and> leftover live (starts h (take (length pids) plan) pids) = live @ pids"
proof -
  assume "length pids \<le> length plan"
  then have "map popen_pid (starts h (take (length pids) plan) pids) = map Some pids"
    by (auto simp: starts_def zip_map_fst_snd intro!: nth_equalityI split: prod.split)
  then show ?thesis using popens_log by blast
qed

lemma orderly_start:
  assumes "\<And>procs pgids. clears procs (f (procs, pgids))"
  shows "orderly (bindIO (start_server h plan) f)"
  unfolding clears_def start_server_def
proof (rule emits_bind [OF start_loop_emits])
  fix e as
  assume "\<exists>pids. as = starts h (take (length pids) plan) pids \<and> length pids \<le> length plan
    \<and> (\<forall>ps gs. Inl e = Inr (ps, gs) \<longrightarrow> length pids = length plan \<and> ps = [] @ pids)"
  then show "one_at_a_time [] as \<and> (Inl e \<in> range Inr \<longrightarrow> leftover [] as = [])"
    using starts_log by auto
next
  fix a :: "int list \<times> int list" and as
  assume "\<exists>pids. as = starts h (take (length pids) plan) pids \<and> length pids \<le> length plan
    \<and> (\<forall>ps gs. Inr a = Inr (ps, gs) \<longrightarrow> length pids = length plan \<and> ps = [] @ pids)"
  then obtain pids where "as = starts h (take (length pids) plan) pids" "length pids \<le> length plan" "fst a = pids"
    by (metis append_Nil prod.collapse)
  then have "one_at_a_time [] as" "leftover [] as = fst a" using starts_log by auto
  then show "emits (\<lambda>r bs. one_at_a_time [] (as @ bs) \<and> (r \<in> range Inr \<longrightarrow> leftover [] (as @ bs) = [])) (f a)"
    using assms [of "fst a" "snd a"] by (simp add: clears_def)
qed

lemma only_record_result [only_rules]:
  assumes "\<And>row. q (ARow row)" and "\<And>row. q (ATimeline row)" and "\<And>x. q (AWarn x)"
  shows "only q (record_result h a cores name conns trial j sm)"
  unfolding record_result_def writerow_def by (intro only_rules assms)

lemma clears_then_quiet: "only neutral k \<Longrightarrow> clears procs (bindIO (stop_server procs) (\<lambda>_. k))"
  by (intro clears_bind clears_stop orderly_quiet)

lemma only_if_Some: "(\<And>j. x = Some j \<Longrightarrow> only q (f j)) \<Longrightarrow> only q m \<Longrightarrow> only q (case x of None \<Rightarrow> m | Some j \<Rightarrow> f j)"
  by (cases x) auto

lemma quiet_pieces:
  "only neutral (sleep_arg d)" "only neutral (wait_ready port t)" "only neutral (warn x)"
  "only neutral (run_loadgen loads h argv cores)" "only neutral (read_sampler pgids)"
  "only neutral (record_result h a cores name conns trial j sm)" "only neutral (build h c label)"
  "only neutral (makedirs dir)" "only neutral (file_call (AOpen p))"
  unfolding makedirs_def by (intro only_rules; simp)+

lemma clears_measure: "clears procs (measure_run loads h st name conns trial procs pgids)"
  unfolding measure_run_def Let_def
  by (intro clears_after_quiet quiet_pieces clears_then_quiet only_option only_bind)

lemma clears_if: "(c \<Longrightarrow> clears live m) \<Longrightarrow> (\<not> c \<Longrightarrow> clears live m') \<Longrightarrow> clears live (if c then m else m')"
  by simp

lemma orderly_trial: "orderly (run_trial loads h st name entry conns trial)"
  unfolding run_trial_def
proof (rule clears_bind)
  show "orderly (put_log (ATrial name conns trial))"
    unfolding clears_def by (rule emits_mono [OF emits_calls(8)]) simp
qed (rule orderly_start, unfold prod.case, intro clears_after_quiet [OF quiet_pieces(2)] clears_if
    clears_after_quiet [OF quiet_pieces(3)] clears_measure clears_then_quiet quiet_pieces(1))

lemma orderly_server: "orderly (run_server loads h st conns_list name)"
proof (cases "dict_get SERVERS name")
  case None
  then show ?thesis unfolding run_server_def using quiet_pieces(3) by (simp add: orderly_quiet)
next
  case (Some entry)
  then show ?thesis unfolding run_server_def option.case Some
    by (intro clears_after_quiet [OF quiet_pieces(7)] clears_if orderly_for orderly_trial orderly_quiet [OF only_pure(1)])
qed

lemma orderly_main: "orderly (bench_main loads h a)"
proof -
  have o: "only neutral (if c then warn Overlap else ret ())" for c by (intro only_if quiet_pieces only_pure)
  have p: "(\<And>x y z. orderly (f x y z)) \<Longrightarrow> orderly (case t of (x, y, z) \<Rightarrow> f x y z)"
    for f :: "'x \<Rightarrow> 'y \<Rightarrow> 'z \<Rightarrow> 'r io" and t by (cases t) auto
  show ?thesis unfolding bench_main_def Let_def
    by (intro clears_after_quiet [OF only_pure(3)] clears_after_quiet [OF o] clears_after_quiet [OF quiet_pieces(7)]
        p clears_if clears_after_quiet [OF quiet_pieces(8)] clears_after_quiet [OF quiet_pieces(9)] orderly_for
        orderly_server orderly_quiet [OF only_pure(2)])
qed

section \<open>Pinning\<close>

text \<open>
  The server processes run on server cores only and the load generator on the client cores
  (its runs are the commands run in the current directory, builds run in their own).
\<close>

definition pinned_to :: "int list \<Rightarrow> string list \<Rightarrow> bool" where
  "pinned_to cores argv \<longleftrightarrow> (\<exists>cpu rest cs. argv = [''taskset'', ''-c'', cpu] @ rest
     \<and> parse_cores cpu [] = Inr cs \<and> set cs \<subseteq> set cores)"

fun pinned :: "int list \<Rightarrow> int list \<Rightarrow> act \<Rightarrow> bool" where
  "pinned sc cc (APopen pid argv env) = pinned_to sc argv"
| "pinned sc cc (ARun argv cwd) \<longleftrightarrow> cwd \<noteq> [] \<or> pinned_to cc argv"
| "pinned sc cc a = True"

lemma path_join_nonempty: "b \<noteq> [] \<Longrightarrow> path_join a b \<noteq> []"
  by (simp add: path_join_def)

lemma stopping_pinned: "stopping a \<Longrightarrow> pinned sc cc a"
  by (cases a) auto

lemma SERVERS_build: "dict_get SERVERS name = Some e \<Longrightarrow> s_build e = Some (cmd, rel) \<Longrightarrow> rel \<noteq> []"
  by (auto simp: SERVERS_def split: if_splits)

lemma plan_pinned:
  assumes "h_taskset h" and "sc \<noteq> []" and "\<forall>c \<in> set sc. 0 \<le> c" and "dict_get SERVERS name = Some e"
    and "(argv, env, cpu) \<in> set (s_spec e h port hz sc)"
  shows "pinned_to sc (taskset_wrap h argv cpu)"
proof -
  have mem: "(name, e) \<in> set SERVERS" using assms(4) by (rule map_of_SomeD)
  have "\<exists>cs. parse_cores cpu [] = Inr cs \<and> set cs \<subseteq> set sc"
    using SERVERS_shapes [OF mem]
  proof
    assume "one_process (s_spec e)"
    then obtain argv' env' where "s_spec e h port hz sc = [(argv', env', cpuspec sc)]"
      unfolding one_process_def by meson
    then show ?thesis using assms(2,3,5) parse_cpuspec by auto
  next
    assume "process_per_core (s_spec e)"
    then obtain argv' where "s_spec e h port hz sc = map (\<lambda>c. (argv', [], py_str c)) sc"
      unfolding process_per_core_def by meson
    then show ?thesis using assms(3,5) parse_one_core by auto
  qed
  then show ?thesis using assms(1) by (auto simp: pinned_to_def taskset_wrap_def)
qed

lemma client_pinned:
  "h_taskset h \<Longrightarrow> cc \<noteq> [] \<Longrightarrow> \<forall>c \<in> set cc. 0 \<le> c \<Longrightarrow> pinned_to cc (taskset_wrap h argv (cpuspec cc))"
  using parse_cpuspec [of cc "[]"] by (auto simp: pinned_to_def taskset_wrap_def)

lemma only_run_server:
  assumes "h_taskset h" and "st_server_cores st \<noteq> []" and "st_client_cores st \<noteq> []"
    and "\<forall>c \<in> set (st_server_cores st) \<union> set (st_client_cores st). 0 \<le> c"
  shows "only (pinned (st_server_cores st) (st_client_cores st)) (run_server loads h st conns_list name)"
proof (cases "dict_get SERVERS name")
  case None
  then show ?thesis unfolding run_server_def by (simp add: only_calls)
next
  case (Some e)
  let ?q = "pinned (st_server_cores st) (st_client_cores st)"
  have sc: "\<forall>c \<in> set (st_server_cores st). 0 \<le> c" and cc: "\<forall>c \<in> set (st_client_cores st). 0 \<le> c"
    using assms(4) by auto
  have "only ?q (measure_run loads h st name conns trial procs pgids)" for conns trial procs pgids
    unfolding measure_run_def Let_def using client_pinned [OF assms(1,3) cc] stopping_pinned
    by (intro only_rules) simp_all
  then have "only ?q (run_trial loads h st name e conns trial)" for conns trial
    unfolding run_trial_def using stopping_pinned plan_pinned [OF assms(1,2) sc Some] by (intro only_rules) simp_all
  moreover have "only ?q (build h (s_build e) name)"
    using SERVERS_build [OF Some] path_join_nonempty by (intro only_build) simp_all
  ultimately show ?thesis unfolding run_server_def Some option.case by (intro only_bind only_if only_pure only_for)
qed

lemma choose_loadgen_build: "choose_loadgen h a cores = (g, (cmd, rel), x) \<Longrightarrow> rel \<noteq> []"
  by (auto simp: choose_loadgen_def split: if_splits)

lemma only_main:
  assumes "h_taskset h" and "parse_cores (a_server_cores a) (default_server_cores h) = Inr sc"
    and "parse_cores (a_client_cores a) (default_client_cores h) = Inr cc"
    and "sc \<noteq> []" and "cc \<noteq> []" and "\<forall>c \<in> set sc \<union> set cc. 0 \<le> c"
  shows "only (pinned sc cc) (bench_main loads h a)"
proof -
  obtain g cmd rel x where c: "choose_loadgen h a cc = (g, (cmd, rel), x)" by (metis prod.collapse)
  let ?st = "\<lparr>st_args = a, st_server_cores = sc, st_client_cores = cc, st_loadgen = g, st_extra = x\<rparr>"
  have r: "only (pinned sc cc) (run_server loads h ?st conns_list name)" for conns_list name
    using only_run_server [of h ?st] assms by simp
  have b: "only (pinned sc cc) (build h (Some (cmd, rel)) l)" for l
    using choose_loadgen_build [OF c] path_join_nonempty by (intro only_build) simp_all
  have d: "only (pinned sc cc) (makedirs dir)" for dir unfolding makedirs_def by (intro only_rules) simp
  have p: "bindIO (pureIO (Inr y)) f = f y" for y and f :: "'x \<Rightarrow> 'y io" by (simp add: fun_eq_iff bindIO_def)
  show ?thesis
    unfolding bench_main_def assms(2,3) p c Let_def prod.case
    by (intro only_bind only_if only_pure r b d only_for only_calls) simp_all
qed

section \<open>Which trials are run, and which have a row\<close>

fun trials :: "act list \<Rightarrow> (string \<times> int \<times> int) list" where
  "trials [] = []"
| "trials (ATrial name conns trial # as) = (name, conns, trial) # trials as"
| "trials (a # as) = trials as"

text \<open>The server, connection count and trial a row says it is about.\<close>

definition row_key :: "(string \<times> cell) list \<Rightarrow> (string \<times> int \<times> int) option" where
  "row_key row =
     (case map snd (take 3 row) of [CStr name, CInt conns, CInt trial] \<Rightarrow> Some (name, conns, trial) | _ \<Rightarrow> None)"

fun rows :: "act list \<Rightarrow> (string \<times> int \<times> int) option list" where
  "rows [] = []"
| "rows (ARow row # as) = row_key row # rows as"
| "rows (a # as) = rows as"

definition matrix :: "string list \<Rightarrow> int list \<Rightarrow> int \<Rightarrow> (string \<times> int \<times> int) list" where
  "matrix names conns_list n =
     concat (map (\<lambda>name. concat (map (\<lambda>conns. map (\<lambda>trial. (name, conns, trial)) [1 .. n]) conns_list)) names)"

lemma trials_append [simp]: "trials (as @ bs) = trials as @ trials bs"
  by (induction as rule: trials.induct) auto

lemma rows_append [simp]: "rows (as @ bs) = rows as @ rows bs"
  by (induction as rule: rows.induct) auto

fun plain :: "act \<Rightarrow> bool" where
  "plain (ATrial name conns trial) = False" | "plain (ARow row) = False" | "plain a = True"

lemma plain_log: "list_all plain as \<Longrightarrow> trials as = [] \<and> rows as = []"
proof (induction as)
  case (Cons a as)
  then show ?case by (cases a) auto
qed simp

text \<open>\<open>follows X m\<close>: the trials \<open>m\<close> runs are one of the sequences in \<open>X\<close>, or the beginning of one
  if it raises, and its rows are about trials it ran, in their order, at most one each.\<close>

definition follows :: "(string \<times> int \<times> int) list set \<Rightarrow> 'a io \<Rightarrow> bool" where
  "follows X m \<longleftrightarrow> emits (\<lambda>r as. (\<exists>xs \<in> X. prefix (trials as) xs \<and> (r \<in> range Inr \<longrightarrow> trials as = xs))
     \<and> subseq (rows as) (map Some (trials as))) m"

lemma follows_plain: "only plain m \<Longrightarrow> [] \<in> X \<Longrightarrow> follows X m"
  unfolding follows_def only_def by (erule emits_mono) (use plain_log in fastforce)

lemma follows_mono: "follows X m \<Longrightarrow> X \<subseteq> Y \<Longrightarrow> follows Y m"
  unfolding follows_def by (erule emits_mono) blast

lemma follows_bind:
  fixes m :: "'a io"
  assumes "follows X m" and "\<And>a. follows Y (f a)" and "\<And>xs ys. xs \<in> X \<Longrightarrow> ys \<in> Y \<Longrightarrow> xs @ ys \<in> Z" and "Y \<noteq> {}"
  shows "follows Z (bindIO m f)"
  unfolding follows_def
proof (rule emits_bind [OF assms(1) [unfolded follows_def]])
  fix e as
  assume a: "(\<exists>xs \<in> X. prefix (trials as) xs \<and> ((Inl e :: 'a py) \<in> range Inr \<longrightarrow> trials as = xs))
    \<and> subseq (rows as) (map Some (trials as))"
  then obtain xs ys where "xs \<in> X" "prefix (trials as) xs" "ys \<in> Y" using assms(4) by blast
  then have "xs @ ys \<in> Z" "prefix (trials as) (xs @ ys)" using assms(3) by auto
  then show "(\<exists>xs \<in> Z. prefix (trials as) xs \<and> (Inl e \<in> range Inr \<longrightarrow> trials as = xs))
    \<and> subseq (rows as) (map Some (trials as))" using a by blast
next
  fix a :: 'a and as
  assume "(\<exists>xs \<in> X. prefix (trials as) xs \<and> (Inr a \<in> range Inr \<longrightarrow> trials as = xs))
    \<and> subseq (rows as) (map Some (trials as))"
  then have x: "trials as \<in> X" "subseq (rows as) (map Some (trials as))" by auto
  show "emits (\<lambda>r bs. (\<exists>xs \<in> Z. prefix (trials (as @ bs)) xs \<and> (r \<in> range Inr \<longrightarrow> trials (as @ bs) = xs))
    \<and> subseq (rows (as @ bs)) (map Some (trials (as @ bs)))) (f a)"
  proof (rule emits_mono [OF assms(2) [unfolded follows_def]])
    fix r and bs
    assume "(\<exists>ys \<in> Y. prefix (trials bs) ys \<and> (r \<in> range Inr \<longrightarrow> trials bs = ys)) \<and> subseq (rows bs) (map Some (trials bs))"
    then obtain ys where "ys \<in> Y" "prefix (trials bs) ys" "r \<in> range Inr \<longrightarrow> trials bs = ys"
      "subseq (rows bs) (map Some (trials bs))" by blast
    moreover from this have "trials as @ ys \<in> Z" using assms(3) x by blast
    ultimately show "(\<exists>xs \<in> Z. prefix (trials (as @ bs)) xs \<and> (r \<in> range Inr \<longrightarrow> trials (as @ bs) = xs))
      \<and> subseq (rows (as @ bs)) (map Some (trials (as @ bs)))"
      using x by (intro conjI bexI [of _ "trials as @ ys"]) (auto simp: list_emb_append_mono)
  qed
qed

lemma follows_for:
  assumes "\<And>a. follows {g a} (f a)"
  shows "follows {concat (map g xs)} (forIO f xs)"
proof (induction xs)
  case Nil
  show ?case unfolding forIO.simps by (rule follows_plain [OF only_pure(1)]) simp
next
  case (Cons x xs)
  show ?case unfolding forIO.simps by (rule follows_bind [OF assms Cons]) auto
qed

section \<open>Rows and header\<close>

lemma build_dict_keys: "build_dict items = Inr row \<Longrightarrow> keys row = map fst items"
proof (induction items arbitrary: row)
  case (Cons a items)
  then obtain c cs where "row = (fst a, c) # cs" "build_dict items = Inr cs"
    by (cases a) (auto simp: build_dict_def py_simps)
  then show ?case using Cons.IH by simp
qed (simp add: build_dict_def)

lemma build_dict_pure: "build_dict ((k, Inr c) # items) = bindE (build_dict items) (\<lambda>r. Inr ((k, c) # r))"
  by (simp add: build_dict_def)

lemma row_items_keys: "map fst (row_items name conns trial res sm cpu) = csv_fields"
  by (simp add: row_items_def csv_fields_def)

lemma row_items_head:
  "\<exists>items. row_items name conns trial res sm cpu =
     (''server'', Inr (CStr name)) # (''conns'', Inr (CInt conns)) # (''trial'', Inr (CInt trial)) # items"
  by (simp add: row_items_def)

lemma make_row_shape:
  assumes "make_row h a name conns trial res sm = Inr row"
  shows "keys row = csv_fields" and "row_key row = Some (name, conns, trial)"
proof -
  obtain cpu where i: "build_dict (row_items name conns trial res sm cpu) = Inr row"
    using assms by (auto simp: make_row_def bindE_eq_Inr)
  show "keys row = csv_fields" using build_dict_keys [OF i] row_items_keys by simp
  obtain items where "build_dict ((''server'', Inr (CStr name)) # (''conns'', Inr (CInt conns))
      # (''trial'', Inr (CInt trial)) # items) = Inr row"
    using i row_items_head [of name conns trial res sm cpu] by auto
  then obtain rest where "row = [(''server'', CStr name), (''conns'', CInt conns), (''trial'', CInt trial)] @ rest"
    unfolding build_dict_pure bindE_eq_Inr by auto
  then show "row_key row = Some (name, conns, trial)" by (simp add: row_key_def)
qed

lemma timeline_row_shape: "timeline_row name conns trial w = Inr row \<Longrightarrow> keys row = tl_fields"
  by (auto simp: timeline_row_def bindE_eq_Inr tl_fields_def dest!: build_dict_keys)

lemma writerow_full:
  assumes "keys row = header" and "distinct header"
  shows "writerow header mk row = put_log (mk row)"
proof -
  have "map (\<lambda>f. (f, case dict_get row f of Some c \<Rightarrow> c | None \<Rightarrow> CStr [])) (keys row) = row"
    unfolding map_map comp_def
  proof (rule map_idI)
    fix kc
    assume "kc \<in> set row"
    moreover have "distinct (map fst row)" using assms by simp
    ultimately show "(fst kc, case dict_get row (fst kc) of Some c \<Rightarrow> c | None \<Rightarrow> CStr []) = kc"
      by (metis map_of_is_SomeI option.simps(5) prod.collapse)
  qed
  then show ?thesis using assms(1) by (simp add: writerow_def)
qed

lemma distinct_fields: "distinct csv_fields" "distinct tl_fields"
  by (simp_all add: csv_fields_def tl_fields_def)

section \<open>The matrix is followed\<close>

definition brief :: "(string \<times> int \<times> int) \<Rightarrow> 'a io \<Rightarrow> bool" where
  "brief k m \<longleftrightarrow> emits (\<lambda>r as. trials as = [] \<and> subseq (rows as) [Some k]) m"

lemma brief_plain: "only plain m \<Longrightarrow> brief k m"
  unfolding brief_def only_def by (erule emits_mono) (use plain_log in fastforce)

lemma brief_after_plain:
  fixes m :: "'a io"
  assumes "only plain m" and "\<And>a. brief k (f a)"
  shows "brief k (bindIO m f)"
  unfolding brief_def
proof (rule emits_bind [OF assms(1) [unfolded only_def]])
  fix a :: 'a and as
  assume "list_all plain as"
  then show "emits (\<lambda>r bs. trials (as @ bs) = [] \<and> subseq (rows (as @ bs)) [Some k]) (f a)"
    using assms(2) [of a] plain_log by (simp add: brief_def)
qed (use plain_log in auto)

lemma brief_then_plain:
  fixes m :: "'a io"
  assumes "brief k m" and "\<And>a. only plain (f a)"
  shows "brief k (bindIO m f)"
  unfolding brief_def
proof (rule emits_bind [OF assms(1) [unfolded brief_def]])
  fix a :: 'a and as
  assume as: "trials as = [] \<and> subseq (rows as) [Some k]"
  show "emits (\<lambda>r bs. trials (as @ bs) = [] \<and> subseq (rows (as @ bs)) [Some k]) (f a)"
    by (rule emits_mono [OF assms(2) [unfolded only_def]]) (use as plain_log in auto)
qed auto

lemma brief_if: "(c \<Longrightarrow> brief k m) \<Longrightarrow> (\<not> c \<Longrightarrow> brief k m') \<Longrightarrow> brief k (if c then m else m')"
  by simp

lemma brief_case: "brief k m \<Longrightarrow> (\<And>j. brief k (f j)) \<Longrightarrow> brief k (case x of None \<Rightarrow> m | Some j \<Rightarrow> f j)"
  by (cases x) auto

lemma stopping_plain: "stopping a \<Longrightarrow> plain a"
  by (cases a) auto

lemma plain_pieces:
  "only plain (sleep_arg d)" "only plain (wait_ready port t)" "only plain (warn x)"
  "only plain (run_loadgen loads h argv cores)" "only plain (read_sampler pgids)"
  "only plain (build h c label)" "only plain (makedirs dir)" "only plain (file_call (AOpen p))"
  "only plain (stop_server procs)" "only plain (start_server h plan)"
  unfolding makedirs_def using stopping_plain by (intro only_rules; simp)+

lemma brief_record: "brief (name, conns, trial) (record_result h a cores name conns trial j sm)"
proof -
  let ?k = "(name, conns, trial)"
  have warns: "only plain (if c then warn x else ret ())" for c x by (intro only_rules) simp
  have tl: "only plain (bindIO (pureIO (timeline_row name conns trial w)) (writerow tl_fields ATimeline))" for w
    unfolding writerow_def by (intro only_rules) simp
  define rest where "rest row = bindIO (if cell_num (dict_get row ''client_cpu_cores'') > 17 / 20 * of_nat (length cores)
             then warn (ClientSaturated conns) else ret ()) (\<lambda>_.
     bindIO (if cell_num (dict_get row ''send_rate_pct'') < 97 then warn (SenderBehind conns) else ret ()) (\<lambda>_.
     bindIO (pureIO (bindE (json_get j ''timeline'' (JArr [])) json_list)) (\<lambda>ws.
     forIO (\<lambda>w. bindIO (pureIO (timeline_row name conns trial w)) (writerow tl_fields ATimeline)) ws)))" for row
  have rest: "only plain (rest row)" for row unfolding rest_def by (intro only_bind only_for only_pure warns tl)
  show ?thesis
  proof (cases "make_row h a name conns trial j sm")
    case (Inl e)
    then show ?thesis by (auto simp: brief_def emits_def record_result_def bindIO_def)
  next
    case (Inr row)
    have "brief ?k (put_log (ARow row))"
      unfolding brief_def by (rule emits_mono [OF emits_calls(8)]) (simp add: make_row_shape(2) [OF Inr])
    then have "brief ?k (bindIO (put_log (ARow row)) (\<lambda>_. rest row))" using rest by (intro brief_then_plain)
    moreover have "record_result h a cores name conns trial j sm = bindIO (put_log (ARow row)) (\<lambda>_. rest row)"
      by (simp add: fun_eq_iff record_result_def Inr rest_def bindIO_def
          writerow_full [OF make_row_shape(1) [OF Inr] distinct_fields(1)])
    ultimately show ?thesis by simp
  qed
qed

lemma follows_trial: "follows {[(name, conns, trial)]} (run_trial loads h st name e conns trial)"
proof -
  let ?k = "(name, conns, trial)"
  define rest where "rest = bindIO (start_server h (s_spec e h PORT (a_tick (st_args st)) (st_server_cores st))) (\<lambda>(procs, pgids).
     bindIO (wait_ready PORT 15) (\<lambda>ok.
       if \<not> ok then
         bindIO (warn (NotReady name conns)) (\<lambda>_.
         bindIO (stop_server procs) (\<lambda>_. sleep_arg (a_cooldown (st_args st))))
       else measure_run loads h st name conns trial procs pgids))"
  have m: "brief ?k (measure_run loads h st name conns trial procs pgids)" for procs pgids
    unfolding measure_run_def Let_def
    by (intro brief_after_plain plain_pieces brief_case brief_then_plain brief_record brief_plain)
  have "brief ?k rest" unfolding rest_def
  proof (rule brief_after_plain [OF plain_pieces(10)])
    fix pp :: "int list \<times> int list"
    show "brief ?k (case pp of (procs, pgids) \<Rightarrow> bindIO (wait_ready PORT 15) (\<lambda>ok.
       if \<not> ok then bindIO (warn (NotReady name conns)) (\<lambda>_.
         bindIO (stop_server procs) (\<lambda>_. sleep_arg (a_cooldown (st_args st))))
       else measure_run loads h st name conns trial procs pgids))"
    proof (cases pp)
      case (Pair procs pgids)
      show ?thesis unfolding Pair prod.case
        by (intro brief_after_plain [OF plain_pieces(2)] brief_if m brief_plain only_bind plain_pieces)
    qed
  qed
  then have "emits (\<lambda>r bs. trials bs = [] \<and> subseq (rows bs) [Some ?k]) rest" by (simp add: brief_def)
  then have "emits (\<lambda>r bs. (\<exists>xs \<in> {[?k]}. prefix (trials ([ATrial name conns trial] @ bs)) xs
      \<and> (r \<in> range Inr \<longrightarrow> trials ([ATrial name conns trial] @ bs) = xs))
      \<and> subseq (rows ([ATrial name conns trial] @ bs)) (map Some (trials ([ATrial name conns trial] @ bs)))) rest"
    by (rule emits_mono) simp
  then show ?thesis unfolding follows_def run_trial_def rest_def
    by (intro emits_bind [OF emits_calls(8)]) auto
qed

lemma concat_singles: "concat (map (\<lambda>t. [f t]) xs) = map f xs"
  by (induction xs) auto

lemma follows_server:
  "follows (if name \<in> set (keys SERVERS) then {[], matrix [name] conns_list (a_trials (st_args st))} else {[]})
    (run_server loads h st conns_list name)"
proof (cases "dict_get SERVERS name")
  case None
  then have "name \<notin> set (keys SERVERS)" by (simp add: map_of_eq_None_iff)
  then show ?thesis unfolding run_server_def None option.case
    using follows_plain [OF plain_pieces(3)] by simp
next
  case (Some e)
  then have k: "name \<in> set (keys SERVERS)" by (metis map_of_eq_None_iff list.set_map option.distinct(1))
  let ?n = "a_trials (st_args st)"
  have "follows {map (\<lambda>trial. (name, conns, trial)) [1 .. ?n]} (forIO (run_trial loads h st name e conns) [1 .. ?n])" for conns
    using follows_for [of "\<lambda>trial. [(name, conns, trial)]" "run_trial loads h st name e conns" "[1 .. ?n]", OF follows_trial]
    by (simp add: concat_singles)
  then have run: "follows {matrix [name] conns_list ?n}
      (forIO (\<lambda>conns. forIO (\<lambda>trial. run_trial loads h st name e conns trial) [1 .. ?n]) conns_list)"
    using follows_for [of "\<lambda>conns. map (\<lambda>trial. (name, conns, trial)) [1 .. ?n]"] by (simp add: matrix_def)
  have "follows {[], matrix [name] conns_list ?n} (if \<not> ok then ret () else
      forIO (\<lambda>conns. forIO (\<lambda>trial. run_trial loads h st name e conns trial) [1 .. ?n]) conns_list)" for ok
    using follows_plain [OF only_pure(1), of "{[], matrix [name] conns_list ?n}" "()"]
      follows_mono [OF run, of "{[], matrix [name] conns_list ?n}"] by (cases ok) simp_all
  then show ?thesis unfolding run_server_def Some option.case using k
    by (auto intro!: follows_bind [OF follows_plain [OF plain_pieces(6), of "{[]}"]])
qed

definition matrices :: "string list \<Rightarrow> int list \<Rightarrow> int \<Rightarrow> (string \<times> int \<times> int) list set" where
  "matrices names conns_list n = {matrix ns conns_list n | ns. subseq ns (filter (\<lambda>x. x \<in> set (keys SERVERS)) names)}"

lemma matrix_append: "matrix (ns @ ms) conns_list n = matrix ns conns_list n @ matrix ms conns_list n"
  by (simp add: matrix_def)

lemma matrix_Nil: "matrix [] conns_list n = []"
  by (simp add: matrix_def)

lemma follows_servers:
  "follows (matrices names conns_list (a_trials (st_args st))) (forIO (run_server loads h st conns_list) names)"
proof (induction names)
  case Nil
  show ?case unfolding forIO.simps
    by (rule follows_plain [OF only_pure(1)]) (auto simp: matrices_def matrix_Nil intro!: exI [of _ "[]"])
next
  case (Cons name names)
  let ?n = "a_trials (st_args st)"
  show ?case unfolding forIO.simps
  proof (rule follows_bind [OF follows_server Cons])
    fix xs ys
    assume x: "xs \<in> (if name \<in> set (keys SERVERS) then {[], matrix [name] conns_list ?n} else {[]})"
      and "ys \<in> matrices names conns_list ?n"
    then obtain ms where ms: "ys = matrix ms conns_list ?n" "subseq ms (filter (\<lambda>x. x \<in> set (keys SERVERS)) names)"
      by (auto simp: matrices_def)
    from x consider "xs = []" | "name \<in> set (keys SERVERS)" "xs = matrix [name] conns_list ?n"
      by (auto split: if_splits)
    then show "xs @ ys \<in> matrices (name # names) conns_list ?n"
    proof cases
      case 1
      then show ?thesis using ms unfolding matrices_def by (auto intro!: exI [of _ ms])
    next
      case 2
      then have "xs @ ys = matrix (name # ms) conns_list ?n"
        using ms matrix_append [of "[name]" ms] by simp
      then show ?thesis using 2 ms unfolding matrices_def by (auto intro!: exI [of _ "name # ms"])
    qed
  qed (auto simp: matrices_def)
qed

lemma follows_main:
  assumes "mapE py_int (split_on (CHR '','') (a_conns a)) = Inr conns_list"
  shows "follows (matrices (server_names (a_servers a)) conns_list (a_trials a)) (bench_main loads h a)"
proof -
  let ?X = "matrices (server_names (a_servers a)) conns_list (a_trials a)"
  have nil: "[] \<in> ?X" unfolding matrices_def by (auto simp: matrix_Nil intro!: exI [of _ "[]"])
  have after: "follows ?X (bindIO m f)" if "only plain m" and "\<And>a. follows ?X (f a)" for m :: "'x io" and f
    by (rule follows_bind [OF follows_plain [OF that(1), of "{[]}"] that(2)]) (use nil in auto)
  have fin: "follows ?X (forIO (run_server loads h st conns_list) (server_names (a_servers a)))" if "st_args st = a" for st
    using follows_servers [of "server_names (a_servers a)" conns_list st loads h] that by simp
  have p: "bindIO (pureIO (Inr y)) f = f y" for y and f :: "'x \<Rightarrow> 'y io" by (simp add: fun_eq_iff bindIO_def)
  have o: "only plain (if c then warn Overlap else ret ())" for c by (intro only_if plain_pieces only_pure)
  have t: "(\<And>x y z. follows ?X (f x y z)) \<Longrightarrow> follows ?X (case t of (x, y, z) \<Rightarrow> f x y z)"
    for f :: "'x \<Rightarrow> 'y \<Rightarrow> 'z \<Rightarrow> 'r io" and t by (cases t) auto
  have i: "follows ?X m \<Longrightarrow> follows ?X m' \<Longrightarrow> follows ?X (if c then m else m')" for m m' :: "'x io" and c by simp
  show ?thesis unfolding bench_main_def assms p Let_def
    by (intro after only_pure(3) o t plain_pieces i fin follows_plain [OF only_pure(2)] nil) simp
qed

lemma overlap_warned:
  assumes "parse_cores (a_server_cores a) (default_server_cores h) = Inr sc"
    and "parse_cores (a_client_cores a) (default_client_cores h) = Inr cc" and "set sc \<inter> set cc \<noteq> {}"
  shows "emits (\<lambda>r as. AWarn Overlap \<in> set as) (bench_main loads h a)"
proof -
  have p: "bindIO (pureIO (Inr y)) f = f y" for y and f :: "'x \<Rightarrow> 'y io" by (simp add: fun_eq_iff bindIO_def)
  have w: "emits (\<lambda>r as. AWarn Overlap \<in> set as) (bindIO (warn Overlap) f)" if "only (\<lambda>_. True) (f ())" for f :: "unit \<Rightarrow> 'y io"
    using that emits_mono [of "\<lambda>r as. list_all (\<lambda>_. True) as" "f ()"]
    by (intro emits_bind [OF emits_calls(2)]) (auto simp: only_def)
  have s: "only (\<lambda>_. True) (run_server loads h st conns_list name)" for st conns_list name
    unfolding run_server_def run_trial_def measure_run_def Let_def
    by (cases "dict_get SERVERS name") (auto intro!: only_rules)
  have t: "(\<And>x y z. only q (f x y z)) \<Longrightarrow> only q (case t of (x, y, z) \<Rightarrow> f x y z)"
    for f :: "'x \<Rightarrow> 'y \<Rightarrow> 'z \<Rightarrow> 'r io" and t and q by (cases t) auto
  have c: "(if set sc \<inter> set cc \<noteq> {} then warn Overlap else ret ()) = warn Overlap" using assms(3) by simp
  show ?thesis
    unfolding bench_main_def assms(1,2) p c Let_def makedirs_def
    by (rule w) (intro only_bind only_pure only_if only_for only_calls only_build t s; simp)
qed

section \<open>Properties\<close>

text \<open>What a computation adds to the log.\<close>

definition new_log :: "'a io \<Rightarrow> world \<Rightarrow> act list" where
  "new_log m w = drop (length (log w)) (log (snd (m w)))"

lemma emits_new_log: "emits P m \<Longrightarrow> P (fst (m w)) (new_log m w)"
  by (erule emits_obtain [where w = w]) (simp add: new_log_def)

definition demo_host :: host where
  "demo_host = \<lparr>h_root = ''/b'', h_python = ''python3'', h_taskset = True, h_clk = 100, h_ncpu = 4, h_environ = []\<rparr>"

definition demo_args :: args where
  "demo_args = \<lparr>a_servers = ''lua, nosuch'', a_conns = ''10,20'', a_trials = 2, a_room_size = 50, a_rate = 20, a_tick = 30,
     a_warmup = 5, a_dur = 20, a_server_cores = [], a_client_cores = [], a_out = ''/b/r.csv'', a_cooldown = 1,
     a_loadgen = ''odin''\<rparr>"

text \<open>C13: Only one server runs at a time. In every run of the benchmark, whatever the operating
  system answers, a trial begins only when every process started before has been sent
  SIGKILL, and when the run ends normally no started process is left without one.\<close>

theorem one_server_at_a_time:
  "case fst (bench_main loads h a w) of
      Inl e \<Rightarrow> one_at_a_time [] (new_log (bench_main loads h a) w)
    | Inr u \<Rightarrow> one_at_a_time [] (new_log (bench_main loads h a) w)
        \<and> leftover [] (new_log (bench_main loads h a) w) = []"
  using emits_new_log [OF orderly_main [unfolded clears_def], of loads h a w] by (auto split: sum.split)

text \<open>C31: Pinning. With \<open>taskset\<close> available, every server process is started on a subset of the
  server cores and every run of the load generator is confined to the client cores, and
  if the two sets share a core the overlap warning is issued.\<close>

theorem server_and_client_are_pinned:
  assumes "h_taskset h" and "parse_cores (a_server_cores a) (default_server_cores h) = Inr sc"
    and "parse_cores (a_client_cores a) (default_client_cores h) = Inr cc"
    and "sc \<noteq> []" and "cc \<noteq> []" and "\<forall>c \<in> set sc \<union> set cc. 0 \<le> c"
  shows "list_all (pinned sc cc) (new_log (bench_main loads h a) w)
    \<and> (set sc \<inter> set cc = {} \<or> AWarn Overlap \<in> set (new_log (bench_main loads h a) w))"
  using emits_new_log [OF only_main [OF assms, unfolded only_def], of loads w]
    emits_new_log [OF overlap_warned [OF assms(2,3)], of loads w] by blast

theorem server_and_client_are_pinned_witness:
  "list_all (pinned [0, 1] [2, 3]) (new_log (bench_main (\<lambda>_. None) demo_host demo_args) demo_world)"
proof -
  have "parse_cores (a_server_cores demo_args) (default_server_cores demo_host) = Inr [0, 1]"
    "parse_cores (a_client_cores demo_args) (default_client_cores demo_host) = Inr [2, 3]"
    by (simp_all add: demo_args_def demo_host_def parse_cores_def default_server_cores_def default_client_cores_def upto.simps)
  moreover have "h_taskset demo_host" by (simp add: demo_host_def)
  ultimately show ?thesis
    using server_and_client_are_pinned [of demo_host demo_args "[0, 1]" "[2, 3]" "\<lambda>_. None" demo_world] by simp
qed



text \<open>C39: Rows fit their files. A result row and a timeline row have exactly the columns of the
  header of their file, in order, so \<open>DictWriter\<close> never raises and leaves no column empty.\<close>

theorem rows_fit_the_header:
  assumes "make_row h a name conns trial res sm = Inr row" and "timeline_row name conns trial v = Inr trow"
  shows "keys row = csv_fields \<and> writerow csv_fields ARow row w = (Inr (), w\<lparr>log := log w @ [ARow row]\<rparr>)
    \<and> keys trow = tl_fields \<and> writerow tl_fields ATimeline trow w = (Inr (), w\<lparr>log := log w @ [ATimeline trow]\<rparr>)"
  using writerow_full [OF make_row_shape(1) [OF assms(1)] distinct_fields(1)] make_row_shape(1) [OF assms(1)]
    writerow_full [OF timeline_row_shape [OF assms(2)] distinct_fields(2)] timeline_row_shape [OF assms(2)]
  by (simp add: put_log_def)

definition demo_json :: json where
  "demo_json = JObj (map (\<lambda>k. (k, JNum 1)) (drop 3 csv_fields))"

theorem rows_fit_the_header_witness:
  "\<exists>row trow. make_row demo_host demo_args ''go'' 10 1 demo_json (new_sampler []) = Inr row
    \<and> timeline_row ''go'' 10 1 (JArr (replicate 6 (JNum 1))) = Inr trow
    \<and> writerow csv_fields ARow row demo_world = (Inr (), demo_world\<lparr>log := log demo_world @ [ARow row]\<rparr>)
    \<and> keys trow = tl_fields"
proof -
  have "\<exists>row. make_row demo_host demo_args ''go'' 10 1 demo_json (new_sampler []) = Inr row"
    by (simp add: make_row_def row_items_def build_dict_def cpu_cores_of_def new_sampler_def demo_json_def csv_fields_def
        as_is_def rounded_def json_item_def json_get_def json_num_def)
  then obtain row where r: "make_row demo_host demo_args ''go'' 10 1 demo_json (new_sampler []) = Inr row" by blast
  have "\<exists>trow. timeline_row ''go'' 10 1 (JArr (replicate 6 (JNum 1))) = Inr trow"
    by (simp add: timeline_row_def json_list_def unpack6_def build_dict_def rounded_def json_num_def json_int_def)
  then obtain trow where t: "timeline_row ''go'' 10 1 (JArr (replicate 6 (JNum 1))) = Inr trow" by blast
  show ?thesis using rows_fit_the_header [OF r t, of demo_world] r t by blast
qed

end
