(* ===== verification/Csv.thy ===== *)
theory Csv
  imports PyStr
begin

text \<open>
  The CSV files that connect the two programs of \<open>runner/\<close>: \<open>run.py\<close> writes them with
  \<open>csv.DictWriter\<close> on a file opened with \<open>newline=""\<close>, \<open>plot.py\<close> reads them with
  \<open>csv.DictReader\<close> on a file opened in text mode. Here are the writer with its minimal
  quoting, the newline translation of text mode, the state machine of \<open>csv.reader\<close> in the
  default dialect, and the rows of \<open>DictReader\<close>; then the proof that what was written is
  what is read. The limit of 131072 characters for one field is not modelled.
\<close>

section \<open>Definitions\<close>

abbreviation LF :: char where "LF \<equiv> CHR 0x0A"
abbreviation CR :: char where "CR \<equiv> CHR 0x0D"
abbreviation quotechar :: char where "quotechar \<equiv> CHR 0x22"
abbreviation delimiter :: char where "delimiter \<equiv> CHR '',''"

text \<open>Text mode: \<open>\r\n\<close> and \<open>\r\<close> are read as \<open>\n\<close>.\<close>

fun universal_newlines :: "string \<Rightarrow> string" where
  "universal_newlines [] = []"
| "universal_newlines [c] = [if c = CR then LF else c]"
| "universal_newlines (c # d # s) =
     (if c = CR then (if d = LF then LF # universal_newlines s else LF # universal_newlines (d # s))
      else c # universal_newlines (d # s))"

definition is_ascii :: "string \<Rightarrow> bool" where
  "is_ascii s \<longleftrightarrow> list_all (\<lambda>c. ord c < 128) s"

text \<open>
  The states of \<open>csv.reader\<close>. After the newline translation a line feed is always the last
  character of its line, so the state that swallows the rest of a line break is not needed.
  \<open>fld\<close> is the field read so far and \<open>fs\<close> the fields before it. Text that ends inside a
  record still gives that record.
\<close>

datatype csv_state = START_RECORD | START_FIELD | IN_FIELD | IN_QUOTED_FIELD | QUOTE_IN_QUOTED_FIELD

fun csv_records :: "csv_state \<Rightarrow> string \<Rightarrow> string list \<Rightarrow> string \<Rightarrow> string list list" where
  "csv_records START_RECORD fld fs [] = []"
| "csv_records _ fld fs [] = [fs @ [fld]]"
| "csv_records START_RECORD fld fs (c # cs) =
     (if c = LF then fs # csv_records START_RECORD [] [] cs
      else if c = quotechar then csv_records IN_QUOTED_FIELD fld fs cs
      else if c = delimiter then csv_records START_FIELD [] (fs @ [fld]) cs
      else csv_records IN_FIELD (fld @ [c]) fs cs)"
| "csv_records START_FIELD fld fs (c # cs) =
     (if c = LF then (fs @ [fld]) # csv_records START_RECORD [] [] cs
      else if c = quotechar then csv_records IN_QUOTED_FIELD fld fs cs
      else if c = delimiter then csv_records START_FIELD [] (fs @ [fld]) cs
      else csv_records IN_FIELD (fld @ [c]) fs cs)"
| "csv_records IN_FIELD fld fs (c # cs) =
     (if c = LF then (fs @ [fld]) # csv_records START_RECORD [] [] cs
      else if c = delimiter then csv_records START_FIELD [] (fs @ [fld]) cs
      else csv_records IN_FIELD (fld @ [c]) fs cs)"
| "csv_records IN_QUOTED_FIELD fld fs (c # cs) =
     (if c = quotechar then csv_records QUOTE_IN_QUOTED_FIELD fld fs cs
      else csv_records IN_QUOTED_FIELD (fld @ [c]) fs cs)"
| "csv_records QUOTE_IN_QUOTED_FIELD fld fs (c # cs) =
     (if c = quotechar then csv_records IN_QUOTED_FIELD (fld @ [c]) fs cs
      else if c = delimiter then csv_records START_FIELD [] (fs @ [fld]) cs
      else if c = LF then (fs @ [fld]) # csv_records START_RECORD [] [] cs
      else csv_records IN_FIELD (fld @ [c]) fs cs)"

definition csv_reader :: "string \<Rightarrow> string list list" where
  "csv_reader text = csv_records START_RECORD [] [] text"

text \<open>
  A row of \<open>DictReader\<close>: the header's names, each with its cell; names without a cell get
  \<open>None\<close>. Cells without a name go under the key \<open>None\<close>, which no caller reads, and are left
  out here. Of two columns with one name the later one counts.
\<close>

type_synonym csv_row = "(string, string option) dict"

definition dict_row :: "string list \<Rightarrow> string list \<Rightarrow> csv_row" where
  "dict_row names cells =
     dict_of (zip names (map Some cells @ replicate (length names - length cells) None))"

definition dict_rows :: "string list list \<Rightarrow> csv_row list" where
  "dict_rows lines =
     (case lines of
        [] \<Rightarrow> []
      | names # records \<Rightarrow> map (dict_row names) (filter (\<lambda>r. r \<noteq> []) records))"

definition dict_reader :: "string \<Rightarrow> csv_row list" where
  "dict_reader text = dict_rows (csv_reader text)"

text \<open>The writer: a cell is quoted when it contains the delimiter, a quote or a line break.\<close>

definition needs_quotes :: "string \<Rightarrow> bool" where
  "needs_quotes s \<longleftrightarrow> list_ex (\<lambda>c. c \<in> {delimiter, quotechar, LF, CR}) s"

definition double_quotes :: "string \<Rightarrow> string" where
  "double_quotes s = concat (map (\<lambda>c. if c = quotechar then [c, c] else [c]) s)"

definition csv_cell :: "string \<Rightarrow> string" where
  "csv_cell s = (if needs_quotes s then [quotechar] @ double_quotes s @ [quotechar] else s)"

definition csv_line :: "string list \<Rightarrow> string" where
  "csv_line cells =
     (if cells = [[]] then [quotechar, quotechar] else join [delimiter] (map csv_cell cells)) @ [CR, LF]"

definition csv_text :: "string list list \<Rightarrow> string" where
  "csv_text rs = concat (map csv_line rs)"

section \<open>What was written is what is read\<close>

lemma newlines_line: "CR \<notin> set a \<Longrightarrow> universal_newlines (a @ CR # LF # rest) = a @ LF # universal_newlines rest"
proof (induction a)
  case (Cons x a)
  then show ?case by (cases a) auto
qed simp

lemma needs_quotes_iff: "needs_quotes s \<longleftrightarrow> delimiter \<in> set s \<or> quotechar \<in> set s \<or> LF \<in> set s \<or> CR \<in> set s"
  by (auto simp: needs_quotes_def list_ex_iff)

lemma set_double_quotes [simp]: "set (double_quotes s) = set s"
  by (auto simp: double_quotes_def split: if_splits)

lemma csv_cell_no_cr: "CR \<notin> set s \<Longrightarrow> CR \<notin> set (csv_cell s)"
  by (auto simp: csv_cell_def)

lemma read_plain:
  assumes "\<not> needs_quotes s"
  shows "csv_records IN_FIELD fld fs (s @ rest) = csv_records IN_FIELD (fld @ s) fs rest"
  using assms by (induction s arbitrary: fld) (auto simp: needs_quotes_iff)

lemma read_quoted:
  "csv_records IN_QUOTED_FIELD fld fs (double_quotes s @ quotechar # rest) =
    csv_records QUOTE_IN_QUOTED_FIELD (fld @ s) fs rest"
  by (induction s arbitrary: fld) (auto simp: double_quotes_def)

text \<open>After a cell comes a delimiter or the end of the line, wherever in the line the cell stands.\<close>

lemma read_cell_delimiter:
  assumes "st = START_RECORD \<or> st = START_FIELD"
  shows "csv_records st [] fs (csv_cell s @ delimiter # rest) = csv_records START_FIELD [] (fs @ [s]) rest"
proof (cases "needs_quotes s")
  case True
  then show ?thesis using assms read_quoted [of "[]" fs s] by (auto simp: csv_cell_def)
next
  case False
  then show ?thesis using assms read_plain [of "tl s" "[hd s]"]
    by (cases s) (auto simp: csv_cell_def needs_quotes_iff)
qed

lemma read_cell_end:
  assumes "st = START_RECORD \<and> s \<noteq> [] \<or> st = START_FIELD"
  shows "csv_records st [] fs (csv_cell s @ LF # rest) = (fs @ [s]) # csv_records START_RECORD [] [] rest"
proof (cases "needs_quotes s")
  case True
  then show ?thesis using assms read_quoted [of "[]" fs s] by (auto simp: csv_cell_def)
next
  case False
  then show ?thesis using assms read_plain [of "tl s" "[hd s]"]
    by (cases s) (auto simp: csv_cell_def needs_quotes_iff)
qed

lemma read_cells:
  "cells \<noteq> [] \<Longrightarrow> csv_records START_FIELD [] fs (join [delimiter] (map csv_cell cells) @ LF # rest) =
    (fs @ cells) # csv_records START_RECORD [] [] rest"
proof (induction cells arbitrary: fs)
  case (Cons s cells)
  then show ?case by (cases cells) (auto simp: read_cell_delimiter read_cell_end)
qed simp

lemma read_line:
  assumes "\<forall>s \<in> set cells. CR \<notin> set s"
  shows "csv_records START_RECORD [] [] (universal_newlines (csv_line cells @ rest)) =
    cells # csv_records START_RECORD [] [] (universal_newlines rest)"
proof -
  define body where "body = (if cells = [[]] then [quotechar, quotechar] else join [delimiter] (map csv_cell cells))"
  have in_join: "x \<in> set (join [delimiter] ss) \<Longrightarrow> x = delimiter \<or> (\<exists>s \<in> set ss. x \<in> set s)" for x ss
    by (induction "[delimiter]" ss rule: join.induct) auto
  have "CR \<notin> set body" using assms csv_cell_no_cr by (auto simp: body_def dest!: in_join)
  then have "universal_newlines (csv_line cells @ rest) = body @ LF # universal_newlines rest"
    by (simp add: csv_line_def body_def newlines_line)
  moreover have "csv_records START_RECORD [] [] (body @ LF # r) = cells # csv_records START_RECORD [] [] r" for r
  proof (cases cells)
    case (Cons s ss)
    then show ?thesis using read_cells [of ss "[s]" r]
      by (cases ss) (auto simp: body_def read_cell_delimiter read_cell_end)
  qed (simp add: body_def)
  ultimately show ?thesis by simp
qed

lemma read_text:
  "\<forall>cells \<in> set rs. \<forall>s \<in> set cells. CR \<notin> set s \<Longrightarrow> csv_reader (universal_newlines (csv_text rs)) = rs"
  unfolding csv_reader_def by (induction rs) (auto simp: csv_text_def read_line)

lemma dict_row_full:
  "distinct names \<Longrightarrow> length cells = length names \<Longrightarrow> dict_row names cells = zip names (map Some cells)"
  by (simp add: dict_row_def dict_of_distinct)

text \<open>
  What the two programs rely on: a table that was written is read back line by line. Under
  this contract a header with complete rows comes back as one dictionary per row.
\<close>

locale table_file =
  fixes put :: "string list list \<Rightarrow> string"
    and take_back :: "string \<Rightarrow> string list list"
    and ok :: "string \<Rightarrow> bool"
  assumes back_put: "\<forall>cells \<in> set rs. \<forall>s \<in> set cells. ok s \<Longrightarrow> take_back (put rs) = rs"
begin

lemma rows_come_back:
  assumes "distinct names" and "names \<noteq> []" and "\<forall>r \<in> set rs. length r = length names"
    and "\<forall>cells \<in> set (names # rs). \<forall>s \<in> set cells. ok s"
  shows "dict_rows (take_back (put (names # rs))) = map (\<lambda>r. zip names (map Some r)) rs"
proof -
  have "filter (\<lambda>r. r \<noteq> []) rs = rs" using assms(2,3) by (auto simp: filter_id_conv)
  moreover have "dict_row names r = zip names (map Some r)" if "r \<in> set rs" for r
    using that assms(1,3) by (intro dict_row_full) auto
  ultimately show ?thesis using back_put [OF assms(4)] by (simp add: dict_rows_def)
qed

lemma written_tables_differ:
  assumes "\<forall>cells \<in> set rs. \<forall>s \<in> set cells. ok s" and "\<forall>cells \<in> set rs'. \<forall>s \<in> set cells. ok s" and "put rs = put rs'"
  shows "rs = rs'"
  using assms back_put by metis

end

interpretation csv_file: table_file csv_text "\<lambda>text. csv_reader (universal_newlines text)" "\<lambda>s. CR \<notin> set s"
  by unfold_locales (rule read_text)

lemma read_table:
  assumes "distinct names" and "names \<noteq> []" and "\<forall>r \<in> set rs. length r = length names"
    and "\<forall>cells \<in> set (names # rs). \<forall>s \<in> set cells. CR \<notin> set s"
  shows "dict_reader (universal_newlines (csv_text (names # rs))) = map (\<lambda>r. zip names (map Some r)) rs"
  unfolding dict_reader_def by (rule csv_file.rows_come_back [OF assms])

text \<open>A record that is cut short leaves its last columns without a value.\<close>

lemma dict_row_short:
  assumes "distinct names" and "length cells \<le> i" and "i < length names"
  shows "dict_get (dict_row names cells) (names ! i) = Some None"
proof -
  let ?vs = "map Some cells @ replicate (length names - length cells) None"
  have "map_of (zip names ?vs) (names ! i) = Some (?vs ! i)" using assms by (intro map_of_zip_nth) auto
  then show ?thesis using assms by (simp add: dict_row_def dict_of_distinct nth_append)
qed

end
