(* ===== verification/Report_Data.thy ===== *)
theory Report_Data
  imports Csv PyNum "HOL-Library.List_Lexorder" "HOL-Library.Char_ord" "HOL-Library.Multiset"
begin

text \<open>
  The data side of \<open>runner/plot.py\<close>: the table of charts, \<open>load\<close> with its nested default
  dictionaries, \<open>statistics.median\<close>, \<open>series_json\<close>, \<open>nice_max\<close> and \<open>load_timeline\<close>. A file
  is its text; \<open>load\<close> gives \<open>OutOfModel\<close> on text outside ASCII and on a row that has a
  connection count and no server cell.
\<close>

section \<open>Definitions\<close>

definition SLOT :: "(string, int) dict" where
  "SLOT = [(''go'', 1), (''rust'', 2), (''ocaml'', 3), (''elixir'', 4), (''python'', 5), (''go-pool'', 5), (''go-epoll'', 3)]"

definition slot_of :: "string \<Rightarrow> int" where
  "slot_of s = (case dict_get SLOT s of Some k \<Rightarrow> k | None \<Rightarrow> 1)"

definition ORDER :: "string list" where
  "ORDER = [''go'', ''go-pool'', ''go-epoll'', ''rust'', ''ocaml'', ''elixir'', ''python'']"

text \<open>A chart: the CSV field, its titles, the formatter of the page and that of the script (digits, comma).\<close>

record chart =
  c_field :: string
  c_title :: string
  c_ylabel :: string
  c_fmt :: "rat \<Rightarrow> string"
  c_spec :: "nat \<times> bool"

definition CHARTS :: "chart list" where
  "CHARTS =
    [\<lparr>c_field = ''moves_per_s'', c_title = ''Throughput (processed)'', c_ylabel = ''moves / s'',
      c_fmt = fmt_fixed True 0, c_spec = (0, True)\<rparr>,
     \<lparr>c_field = ''p99_ms'', c_title = ''Latency p99'', c_ylabel = ''ms'', c_fmt = fmt_fixed False 1, c_spec = (1, False)\<rparr>,
     \<lparr>c_field = ''p50_ms'', c_title = ''Latency p50'', c_ylabel = ''ms'', c_fmt = fmt_fixed False 1, c_spec = (1, False)\<rparr>,
     \<lparr>c_field = ''p99_worst_1s_ms'', c_title = ''Worst 1 s p99'', c_ylabel = ''ms'',
      c_fmt = fmt_fixed False 1, c_spec = (1, False)\<rparr>,
     \<lparr>c_field = ''p99_cv'', c_title = ''Latency stability (p99 CV)'', c_ylabel = ''coeff. of variation'',
      c_fmt = fmt_fixed False 2, c_spec = (2, False)\<rparr>,
     \<lparr>c_field = ''rss_peak_mb'', c_title = ''Peak memory under load'', c_ylabel = ''MB (RSS)'',
      c_fmt = fmt_fixed False 1, c_spec = (1, False)\<rparr>,
     \<lparr>c_field = ''cpu_cores'', c_title = ''CPU cores used'', c_ylabel = ''cores'',
      c_fmt = fmt_fixed False 2, c_spec = (2, False)\<rparr>,
     \<lparr>c_field = ''client_cpu_cores'', c_title = ''Client CPU (loadgen validity)'', c_ylabel = ''cores'',
      c_fmt = fmt_fixed False 2, c_spec = (2, False)\<rparr>,
     \<lparr>c_field = ''send_rate_pct'', c_title = ''Send-rate fidelity (loadgen validity)'', c_ylabel = ''% of target'',
      c_fmt = fmt_fixed False 1, c_spec = (1, False)\<rparr>]"

type_synonym data = "(string, (string, (int, rat list) dict) dict) dict"

definition row_get :: "csv_row \<Rightarrow> string \<Rightarrow> string option py" where
  "row_get row k = (case dict_get row k of Some v \<Rightarrow> Inr v | None \<Rightarrow> Inl KeyError)"

definition cell_float :: "string option \<Rightarrow> rat py" where
  "cell_float v = (case v of Some s \<Rightarrow> py_float s | None \<Rightarrow> Inl TypeError)"

definition cell_int :: "string option \<Rightarrow> int py" where
  "cell_int v = (case v of Some s \<Rightarrow> py_int s | None \<Rightarrow> Inl TypeError)"

definition col_float :: "csv_row \<Rightarrow> string \<Rightarrow> rat py" where
  "col_float row k = bindE (row_get row k) cell_float"

definition col_int :: "csv_row \<Rightarrow> string \<Rightarrow> int py" where
  "col_int row k = bindE (row_get row k) cell_int"

text \<open>\<open>data[field][s][c].append\<close> makes the three entries before its argument is evaluated.\<close>

definition append_at :: "string \<Rightarrow> string \<Rightarrow> int \<Rightarrow> rat list \<Rightarrow> data \<Rightarrow> data" where
  "append_at field s c vs = dd_at field [] (dd_at s [] (dd_at c [] (\<lambda>xs. xs @ vs)))"

definition load_field :: "csv_row \<Rightarrow> string \<Rightarrow> int \<Rightarrow> string \<Rightarrow> data \<Rightarrow> data py" where
  "load_field row s c field d =
     (case col_float row field of
        Inr v \<Rightarrow> Inr (append_at field s c [v] d)
      | Inl e \<Rightarrow> if e = KeyError \<or> e = ValueError then Inr (append_at field s c [] d) else Inl e)"

type_synonym load_state = "data \<times> string set \<times> int set"

definition load_row :: "csv_row \<Rightarrow> load_state \<Rightarrow> load_state py" where
  "load_row row st =
     (let (d, servers, conns) = st
      in bindE (row_get row ''server'') (\<lambda>sv.
         bindE (col_int row ''conns'') (\<lambda>c.
         case sv of
           None \<Rightarrow> Inl OutOfModel
         | Some s \<Rightarrow>
             bindE (foldE (load_field row s c) (map c_field CHARTS) d) (\<lambda>d'.
             Inr (d', insert s servers, insert c conns)))))"

definition ordered_servers :: "string set \<Rightarrow> string list" where
  "ordered_servers servers = filter (\<lambda>s. s \<in> servers) ORDER @ sorted_list_of_set (servers - set ORDER)"

definition load :: "string \<Rightarrow> (data \<times> string list \<times> int list) py" where
  "load text =
     (if \<not> is_ascii text then Inl OutOfModel
      else bindE (foldE load_row (dict_reader (universal_newlines text)) ([], {}, {})) (\<lambda>(d, servers, conns).
           Inr (d, ordered_servers servers, sorted_list_of_set conns)))"

text \<open>\<open>data[field].get(s, {}).get(c)\<close>, with the empty list for \<open>None\<close>: both are false.\<close>

definition vals_at :: "data \<Rightarrow> string \<Rightarrow> string \<Rightarrow> int \<Rightarrow> rat list" where
  "vals_at d field s c =
     (case dict_get d field of None \<Rightarrow> []
      | Some ds \<Rightarrow> (case dict_get ds s of None \<Rightarrow> []
                  | Some dc \<Rightarrow> (case dict_get dc c of None \<Rightarrow> [] | Some vs \<Rightarrow> vs)))"

text \<open>\<open>statistics.median\<close>; both callers have checked that there is a value.\<close>

definition median :: "rat list \<Rightarrow> rat" where
  "median vs =
     (let xs = sort vs; n = length xs
      in if odd n then xs ! (n div 2) else (xs ! (n div 2 - 1) + xs ! (n div 2)) / 2)"

type_synonym points = "(int \<times> rat) list"

definition series_points :: "data \<Rightarrow> string \<Rightarrow> string \<Rightarrow> int list \<Rightarrow> points" where
  "series_points d field s all_conns =
     concat (map (\<lambda>c. let vs = vals_at d field s c in if vs \<noteq> [] then [(c, median vs)] else []) all_conns)"

definition series_json :: "data \<Rightarrow> string list \<Rightarrow> int list \<Rightarrow> (string, (string, points) dict) dict" where
  "series_json d servers all_conns =
     dict_of (map (\<lambda>field.
       (field, dict_of (concat (map (\<lambda>s.
          let pts = series_points d field s all_conns in if pts \<noteq> [] then [(s, pts)] else []) servers))))
       (map c_field CHARTS))"

definition nice_max :: "rat \<Rightarrow> rat" where
  "nice_max v =
     (if v \<le> 0 then 1
      else
        (let e = floor_log10 v;
             f = v / pow10 e;
             nf = (if f \<le> 1 then 1 else if f \<le> 2 then 2 else if f \<le> 5 then 5 else 10)
         in nf * pow10 e))"

text \<open>The timeline: rows by (server, connections) and trial, each list sorted by second.\<close>

type_synonym timeline = "(string \<times> int, (int, csv_row list) dict) dict"

definition timeline_add :: "csv_row \<Rightarrow> timeline \<Rightarrow> timeline py" where
  "timeline_add row d =
     bindE (row_get row ''server'') (\<lambda>sv.
     bindE (col_int row ''conns'') (\<lambda>c.
     bindE (col_int row ''trial'') (\<lambda>tr.
     case sv of
       None \<Rightarrow> Inl OutOfModel
     | Some s \<Rightarrow> Inr (dd_at (s, c) [] (dd_at tr [] (\<lambda>rs. rs @ [row])) d))))"

text \<open>\<open>list.sort\<close> with a key: the keys are computed first, the sort is stable.\<close>

definition sort_rows :: "csv_row list \<Rightarrow> csv_row list py" where
  "sort_rows rs = bindE (mapE (\<lambda>r. col_int r ''t_s'') rs) (\<lambda>ts. Inr (map snd (sort_key fst (zip ts rs))))"

definition mapE_vals :: "('v \<Rightarrow> 'w py) \<Rightarrow> ('k, 'v) dict \<Rightarrow> ('k, 'w) dict py" where
  "mapE_vals f d = mapE (\<lambda>(k, v). bindE (f v) (\<lambda>w. Inr (k, w))) d"

definition load_timeline :: "string \<Rightarrow> timeline py" where
  "load_timeline text =
     (if \<not> is_ascii text then Inl OutOfModel
      else bindE (foldE timeline_add (dict_reader (universal_newlines text)) []) (mapE_vals (mapE_vals sort_rows)))"

section \<open>The axis maximum\<close>

text \<open>The values an axis may end at: 1, 2 or 5 times a power of ten.\<close>

definition nice :: "rat set" where
  "nice = {m * pow10 k | m k. m \<in> {1, 2, 5}}"

lemma nice_max_shape:
  assumes "0 < v"
  obtains nf where "nice_max v = nf * pow10 (floor_log10 v)" and "nf \<in> {1, 2, 5, 10}" and "v \<le> nice_max v"
    and "\<And>m. m \<in> {1, 2, 5, 10} \<Longrightarrow> v \<le> m * pow10 (floor_log10 v) \<Longrightarrow> nf \<le> m" and "nice_max v < 5 / 2 * v"
proof -
  define e f where "e = floor_log10 v" and "f = v / pow10 e"
  have v: "v = f * pow10 e" "1 \<le> f" "f < 10"
    using floor_log10_bounds [OF assms] by (simp_all add: e_def f_def field_simps)
  define nf :: rat where "nf = (if f \<le> 1 then 1 else if f \<le> 2 then 2 else if f \<le> 5 then 5 else 10)"
  have n: "nice_max v = nf * pow10 e" using assms by (simp add: nice_max_def nf_def f_def e_def Let_def)
  have nf: "nf \<in> {1, 2, 5, 10}" "f \<le> nf" "nf < 5 / 2 * f" using v by (auto simp: nf_def)
  have "nf \<le> m" if "m \<in> {1, 2, 5, 10}" "v \<le> m * pow10 e" for m
    using that v by (auto simp: nf_def)
  moreover have "nf * pow10 e < (5 / 2 * f) * pow10 e" using nf(3) by simp
  then have "nice_max v < 5 / 2 * v" unfolding n by (subst v(1)) (simp only: mult.assoc)
  moreover have "v \<le> nice_max v" unfolding n by (subst v(1)) (simp add: nf)
  ultimately show thesis using that [of nf] n nf(1) unfolding e_def by blast
qed

lemma nice_max_pos: "0 < nice_max v"
  by (cases "0 < v") (auto simp: nice_max_def Let_def)

text \<open>C24: \<open>nice_max\<close> gives the smallest axis end of the form 1, 2 or 5 times a power of ten that
  is not below the value, and it is less than two and a half times the value, so a curve
  always fills at least two fifths of its chart.\<close>

theorem nice_max_least:
  assumes "0 < v"
  shows "nice_max v \<in> nice \<and> v \<le> nice_max v \<and> nice_max v < 5 / 2 * v \<and> (\<forall>n \<in> nice. v \<le> n \<longrightarrow> nice_max v \<le> n)"
proof -
  define e where "e = floor_log10 v"
  have e: "pow10 e \<le> v" using floor_log10_bounds [OF assms] by (simp add: e_def)
  obtain nf where nf: "nice_max v = nf * pow10 e" "nf \<in> {1, 2, 5, 10}" "v \<le> nice_max v" "nice_max v < 5 / 2 * v"
    and least: "\<And>m. m \<in> {1, 2, 5, 10} \<Longrightarrow> v \<le> m * pow10 e \<Longrightarrow> nf \<le> m"
    using nice_max_shape [OF assms] unfolding e_def by metis
  have "nice_max v \<in> nice"
  proof (cases "nf = 10")
    case True
    then have "nice_max v = 1 * pow10 (e + 1)" by (simp add: nf(1) pow10_Suc)
    then show ?thesis unfolding nice_def by blast
  qed (use nf in \<open>auto simp: nice_def\<close>)
  moreover have "nice_max v \<le> m * pow10 k" if m: "m \<in> {1, 2, 5}" and le: "v \<le> m * pow10 k" for m k
  proof (cases k e rule: linorder_cases)
    case less
    then have "pow10 (k + 1) \<le> pow10 e" by (intro pow10_mono) simp
    then have "10 * pow10 k \<le> m * pow10 k" using e le unfolding pow10_Suc by linarith
    then show ?thesis using m by auto
  next
    case equal
    then show ?thesis using least [of m] m le by (auto simp: nf(1))
  next
    case greater
    then have "pow10 (e + 1) \<le> pow10 k" by (intro pow10_mono) simp
    moreover have "pow10 k \<le> m * pow10 k" using m by auto
    ultimately have "10 * pow10 e \<le> m * pow10 k" unfolding pow10_Suc by linarith
    moreover have "nf * pow10 e \<le> 10 * pow10 e" using nf(2) by auto
    ultimately show ?thesis unfolding nf(1) by linarith
  qed
  ultimately show ?thesis using nf by (auto simp: nice_def)
qed

theorem nice_max_least_witness: "(37 :: rat) / 100 \<le> nice_max (37 / 100) \<and> nice_max (37 / 100) = 1 / 2"
  using nice_max_least [of "37 / 100"]
  by (simp add: nice_max_def floor_log10_def log10_down.simps pow10_def Let_def)

section \<open>The median\<close>

lemma median_sorted:
  assumes "sorted xs" and "xs \<noteq> []" and "n = length xs"
  defines "m \<equiv> if odd n then xs ! (n div 2) else (xs ! (n div 2 - 1) + xs ! (n div 2)) / 2"
  shows "2 * length (filter (\<lambda>x. x < m) xs) \<le> n" and "2 * length (filter (\<lambda>x. x > m) xs) \<le> n"
    and "\<exists>x \<in> set xs. x \<le> m" and "\<exists>x \<in> set xs. m \<le> (x :: rat)"
proof -
  have "0 < n" using assms(2,3) by simp
  then have n: "n div 2 < n" "n div 2 - 1 < n" by linarith+
  have mid: "xs ! (n div 2 - 1) \<le> xs ! (n div 2)" using assms(1,3) n by (intro sorted_nth_mono) auto
  have lo: "m \<le> xs ! i" if "n div 2 \<le> i" "i < n" for i
    using that assms(1,3) mid sorted_nth_mono [of xs "n div 2" i] by (auto simp: m_def)
  have hi: "xs ! i \<le> m" if "i < n - n div 2" for i
  proof (cases "odd n")
    case True
    then show ?thesis using that assms(1,3) n sorted_nth_mono [of xs i "n div 2"] by (auto simp: m_def elim!: oddE)
  next
    case False
    then have "i \<le> n div 2 - 1" using that by (auto elim!: evenE)
    then have "xs ! i \<le> xs ! (n div 2 - 1)" using assms(1,3) n by (intro sorted_nth_mono) auto
    then show ?thesis using False mid by (simp add: m_def)
  qed
  have "i < n div 2" if "i < n" "xs ! i < m" for i using that lo [of i] by (cases "i < n div 2") auto
  then have "{i. i < n \<and> xs ! i < m} \<subseteq> {..< n div 2}" by auto
  from card_mono [OF _ this] have "card {i. i < n \<and> xs ! i < m} \<le> n div 2" by simp
  then show "2 * length (filter (\<lambda>x. x < m) xs) \<le> n" by (simp add: length_filter_conv_card assms(3) [symmetric])
  have "n - n div 2 \<le> i" if "i < n" "m < xs ! i" for i using that hi [of i] by (cases "i < n - n div 2") auto
  then have "{i. i < n \<and> m < xs ! i} \<subseteq> {n - n div 2 ..< n}" by auto
  from card_mono [OF _ this] have "card {i. i < n \<and> m < xs ! i} \<le> n - (n - n div 2)" by simp
  then show "2 * length (filter (\<lambda>x. x > m) xs) \<le> n" by (simp add: length_filter_conv_card assms(3) [symmetric])
  show "\<exists>x \<in> set xs. x \<le> m" using hi [of 0] n(1) \<open>0 < n\<close> assms(3) nth_mem [of 0 xs] by auto
  show "\<exists>x \<in> set xs. m \<le> x" using lo [of "n div 2"] n(1) assms(3) nth_mem [of "n div 2" xs] by auto
qed

lemma median_balanced:
  assumes "vs \<noteq> []"
  shows "2 * length (filter (\<lambda>x. x < median vs) vs) \<le> length vs" and "2 * length (filter (\<lambda>x. x > median vs) vs) \<le> length vs"
    and "\<exists>x \<in> set vs. x \<le> median vs" and "\<exists>x \<in> set vs. median vs \<le> x"
proof -
  have len: "length (filter P vs) = length (filter P (sort vs))" for P
    by (metis mset_filter mset_sort size_mset)
  have "sort vs \<noteq> []" using assms by (metis length_0_conv length_sort)
  note m = median_sorted [OF sorted_sort this refl, folded median_def [of vs, unfolded Let_def, symmetric]]
  show "2 * length (filter (\<lambda>x. x < median vs) vs) \<le> length vs" "2 * length (filter (\<lambda>x. x > median vs) vs) \<le> length vs"
    "\<exists>x \<in> set vs. x \<le> median vs" "\<exists>x \<in> set vs. median vs \<le> x"
    using m unfolding median_def Let_def len by (simp_all del: filter_sort)
qed

lemma median_perm: "mset vs = mset ws \<Longrightarrow> median vs = median ws"
proof -
  assume "mset vs = mset ws"
  then have "sort vs = sort ws" by (metis properties_for_sort mset_sort sorted_sort)
  then show ?thesis by (simp add: median_def)
qed

section \<open>What \<open>load\<close> collects\<close>

lemma chart_fields: "distinct (map c_field CHARTS)"
  by (simp add: CHARTS_def)

lemma vals_at_append:
  "vals_at (append_at field s c vs d) f s' c' = vals_at d f s' c' @ (if (f, s', c') = (field, s, c) then vs else [])"
  by (auto simp: vals_at_def append_at_def dict_simps split: option.splits)

text \<open>The number a row has in a column, as a list of at most one value.\<close>

definition number_in :: "csv_row \<Rightarrow> string \<Rightarrow> rat list" where
  "number_in row field = (case col_float row field of Inr v \<Rightarrow> [v] | Inl _ \<Rightarrow> [])"

text \<open>An error of \<open>float(row[field])\<close> that \<open>load\<close> does not catch.\<close>

definition bad_number :: "csv_row \<Rightarrow> string \<Rightarrow> bool" where
  "bad_number row field \<longleftrightarrow> (case col_float row field of Inr v \<Rightarrow> False | Inl e \<Rightarrow> e \<noteq> KeyError \<and> e \<noteq> ValueError)"

lemma load_field_eq:
  "load_field row s c field d =
    (if bad_number row field then Inl (projl (col_float row field)) else Inr (append_at field s c (number_in row field) d))"
  by (auto simp: load_field_def bad_number_def number_in_def split: sum.splits)

lemma load_fields_ok: "(\<exists>d'. foldE (load_field row s c) cols d = Inr d') \<longleftrightarrow> \<not> list_ex (bad_number row) cols"
  by (induction cols arbitrary: d) (auto simp: load_field_eq)

lemma load_fields_vals:
  "foldE (load_field row s c) cols d = Inr d' \<Longrightarrow> distinct cols \<Longrightarrow>
    vals_at d' f s' c' = vals_at d f s' c' @ (if f \<in> set cols \<and> s' = s \<and> c' = c then number_in row f else [])"
proof (induction cols arbitrary: d)
  case (Cons g cols)
  then show ?case by (auto simp: load_field_eq vals_at_append split: if_splits)
qed simp

text \<open>A row that \<open>load\<close> accepts: a server, a whole number of connections, no uncaught error.\<close>

definition row_ok :: "csv_row \<Rightarrow> bool" where
  "row_ok row \<longleftrightarrow>
     (case row_get row ''server'' of Inr (Some s) \<Rightarrow> True | _ \<Rightarrow> False) \<and>
     (case col_int row ''conns'' of Inr c \<Rightarrow> True | _ \<Rightarrow> False) \<and>
     \<not> list_ex (bad_number row) (map c_field CHARTS)"

definition in_cell :: "string \<Rightarrow> int \<Rightarrow> csv_row \<Rightarrow> bool" where
  "in_cell s c row \<longleftrightarrow> row_get row ''server'' = Inr (Some s) \<and> col_int row ''conns'' = Inr c"

definition trial_values :: "csv_row list \<Rightarrow> string \<Rightarrow> string \<Rightarrow> int \<Rightarrow> rat list" where
  "trial_values rs field s c = concat (map (\<lambda>row. if in_cell s c row then number_in row field else []) rs)"

lemma load_row_cases:
  assumes "load_row row (d, servers, conns) = Inr st"
  obtains s c d' where "in_cell s c row" and "foldE (load_field row s c) (map c_field CHARTS) d = Inr d'"
    and "st = (d', insert s servers, insert c conns)"
  using assms by (auto simp: load_row_def in_cell_def bindE_eq_Inr split: option.splits)

lemma load_row_ok: "(\<exists>st'. load_row row st = Inr st') \<longleftrightarrow> row_ok row"
proof -
  obtain d servers conns where st: "st = (d, servers, conns)" by (cases st)
  show ?thesis
  proof (cases "row_get row ''server''"; cases "col_int row ''conns''")
    fix sv c
    assume "row_get row ''server'' = Inr sv" "col_int row ''conns'' = Inr c"
    then show ?thesis using load_fields_ok [of row _ c "map c_field CHARTS" d]
      by (cases sv) (auto simp: load_row_def row_ok_def st bindE_eq_Inr)
  qed (auto simp: load_row_def row_ok_def st bindE_eq_Inr)
qed

lemma load_rows_ok: "(\<exists>st'. foldE load_row rs st = Inr st') \<longleftrightarrow> list_all row_ok rs"
proof (induction rs arbitrary: st)
  case (Cons row rs)
  then show ?case using load_row_ok [of row st] by (cases "load_row row st") auto
qed auto

lemma load_rows_collect:
  "foldE load_row rs (d, servers, conns) = Inr (d', servers', conns') \<Longrightarrow>
    (f \<in> set (map c_field CHARTS) \<longrightarrow> vals_at d' f s c = vals_at d f s c @ trial_values rs f s c) \<and>
    servers' = servers \<union> {s. \<exists>c. \<exists>row \<in> set rs. in_cell s c row} \<and>
    conns' = conns \<union> {c. \<exists>s. \<exists>row \<in> set rs. in_cell s c row}"
proof (induction rs arbitrary: d servers conns)
  case Nil
  then show ?case by (simp add: trial_values_def)
next
  case (Cons row rs)
  then obtain st where st: "load_row row (d, servers, conns) = Inr st" "foldE load_row rs st = Inr (d', servers', conns')"
    by (auto simp: bindE_eq_Inr)
  obtain s0 c0 d0 where row: "in_cell s0 c0 row" "foldE (load_field row s0 c0) (map c_field CHARTS) d = Inr d0"
    "st = (d0, insert s0 servers, insert c0 conns)" using load_row_cases [OF st(1)] by blast
  have cell: "in_cell s c row \<longleftrightarrow> s = s0 \<and> c = c0" for s c using row(1) by (auto simp: in_cell_def)
  note vals = load_fields_vals [OF row(2) chart_fields]
  from Cons.IH [OF st(2) [unfolded row(3)]] show ?case
    by (auto simp: trial_values_def vals cell)
qed


text \<open>
  A record that is cut short (the runner was killed while writing it) leaves a chart column
  without a cell. \<open>float(None)\<close> is a \<open>TypeError\<close>, which \<open>load\<close> does not catch: the whole
  file is then unreadable.
\<close>

lemma cut_row_stops_load:
  assumes "csv_reader (universal_newlines text) = names # recs" and "cells \<in> set recs" and "cells \<noteq> []"
    and "distinct names" and "length cells \<le> i" and "i < length names" and "names ! i \<in> set (map c_field CHARTS)"
  shows "col_float (dict_row names cells) (names ! i) = Inl TypeError" and "\<nexists>res. load text = Inr res"
proof -
  show err: "col_float (dict_row names cells) (names ! i) = Inl TypeError"
    using dict_row_short [OF assms(4-6)] by (simp add: col_float_def row_get_def cell_float_def)
  then have "bad_number (dict_row names cells) (names ! i)" by (simp add: bad_number_def)
  then have "\<not> row_ok (dict_row names cells)" using assms(7) by (auto simp: row_ok_def list_ex_iff)
  moreover have "dict_row names cells \<in> set (dict_reader (universal_newlines text))"
    using assms(1-3) by (auto simp: dict_reader_def dict_rows_def)
  ultimately have "\<not> list_all row_ok (dict_reader (universal_newlines text))" by (auto simp: list_all_iff)
  then show "\<nexists>res. load text = Inr res"
    using load_rows_ok [of "dict_reader (universal_newlines text)" "([], {}, {})"]
    by (auto simp: load_def bindE_eq_Inr)
qed

lemma load_cases:
  assumes "load text = Inr (d, servers, conns)" and "rs = dict_reader (universal_newlines text)"
  shows "f \<in> set (map c_field CHARTS) \<Longrightarrow> vals_at d f s c = trial_values rs f s c"
    and "servers = ordered_servers {s. \<exists>c. \<exists>row \<in> set rs. in_cell s c row}"
    and "conns = sorted_list_of_set {c. \<exists>s. \<exists>row \<in> set rs. in_cell s c row}"
proof -
  obtain S C where *: "foldE load_row rs ([], {}, {}) = Inr (d, S, C)" "servers = ordered_servers S" "conns = sorted_list_of_set C"
    using assms by (auto simp: load_def bindE_eq_Inr split: if_splits)
  note c = load_rows_collect [OF *(1)]
  show "f \<in> set (map c_field CHARTS) \<Longrightarrow> vals_at d f s c = trial_values rs f s c" for f s c
    using c [of f s c] by (simp add: vals_at_def)
  show "servers = ordered_servers {s. \<exists>c. \<exists>row \<in> set rs. in_cell s c row}" using c *(2) by simp
  show "conns = sorted_list_of_set {c. \<exists>s. \<exists>row \<in> set rs. in_cell s c row}" using c *(3) by simp
qed

lemma finite_cells:
  "finite {s. \<exists>c. \<exists>row \<in> set rs. in_cell s c row}" "finite {c. \<exists>s. \<exists>row \<in> set rs. in_cell s c row}"
proof -
  have "{s. \<exists>c. \<exists>row \<in> set rs. in_cell s c row} \<subseteq> (\<lambda>row. the (projr (row_get row ''server''))) ` set rs"
    "{c. \<exists>s. \<exists>row \<in> set rs. in_cell s c row} \<subseteq> (\<lambda>row. projr (col_int row ''conns'')) ` set rs"
    by (force simp: in_cell_def)+
  then show "finite {s. \<exists>c. \<exists>row \<in> set rs. in_cell s c row}" "finite {c. \<exists>s. \<exists>row \<in> set rs. in_cell s c row}"
    using finite_surj [OF finite_set] by blast+
qed

lemma set_ordered_servers: "finite S \<Longrightarrow> set (ordered_servers S) = S"
  by (auto simp: ordered_servers_def)

lemma distinct_ordered_servers: "finite S \<Longrightarrow> distinct (ordered_servers S)"
proof -
  assume "finite S"
  moreover have "distinct ORDER" by (simp add: ORDER_def)
  ultimately show ?thesis by (auto simp: ordered_servers_def)
qed

section \<open>The series of the charts\<close>

definition series_at :: "(string, (string, points) dict) dict \<Rightarrow> string \<Rightarrow> string \<Rightarrow> points" where
  "series_at series field s =
     (case dict_get series field of None \<Rightarrow> [] | Some d \<Rightarrow> (case dict_get d s of None \<Rightarrow> [] | Some pts \<Rightarrow> pts))"

lemma get_concat_map:
  "distinct xs \<Longrightarrow> dict_get (concat (map (\<lambda>s. if g s \<noteq> [] then [(s, g s)] else []) xs)) s =
    (if s \<in> set xs \<and> g s \<noteq> [] then Some (g s) else None)"
  by (induction xs) auto

lemma distinct_concat_map:
  "distinct xs \<Longrightarrow> distinct (keys (concat (map (\<lambda>s. if g s \<noteq> [] then [(s, g s)] else []) xs)))"
  by (induction xs) auto

lemma get_map_pairs: "dict_get (map (\<lambda>k. (k, g k)) ks) k = (if k \<in> set ks then Some (g k) else None)"
  by (induction ks) auto

lemma series_at_json:
  assumes "distinct servers" and "field \<in> set (map c_field CHARTS)"
  shows "series_at (series_json d servers conns) field s =
    (if s \<in> set servers then series_points d field s conns else [])"
proof -
  let ?by = "\<lambda>field. dict_of (concat (map (\<lambda>s. let pts = series_points d field s conns in if pts \<noteq> [] then [(s, pts)] else []) servers))"
  have "keys (map (\<lambda>field. (field, ?by field)) (map c_field CHARTS)) = map c_field CHARTS" by (simp add: comp_def)
  then have "dict_get (series_json d servers conns) field = Some (?by field)"
    using chart_fields assms(2) unfolding series_json_def
    by (subst get_dict_of) (simp_all only: get_map_pairs if_True)
  moreover have "dict_get (?by field) s = (if s \<in> set servers \<and> series_points d field s conns \<noteq> [] then Some (series_points d field s conns) else None)"
    unfolding Let_def using assms(1) by (simp add: get_dict_of distinct_concat_map get_concat_map)
  ultimately show ?thesis by (simp add: series_at_def)
qed

lemma set_series_points:
  "set (series_points d field s conns) = {(c, median (vals_at d field s c)) | c. c \<in> set conns \<and> vals_at d field s c \<noteq> []}"
  by (auto simp: series_points_def Let_def split: if_splits)

lemma series_points_conns: "map fst (series_points d field s conns) = filter (\<lambda>c. vals_at d field s c \<noteq> []) conns"
  by (induction conns) (auto simp: series_points_def Let_def)

lemma series_medians:
  assumes "load text = Inr (d, servers, conns)" and "field \<in> set (map c_field CHARTS)"
    and "rs = dict_reader (universal_newlines text)"
  shows "set (series_at (series_json d servers conns) field s) =
      {(c, median (trial_values rs field s c)) | c. trial_values rs field s c \<noteq> []} \<and>
    sorted_wrt (<) (map fst (series_at (series_json d servers conns) field s)) \<and>
    distinct servers \<and> set servers = {s. \<exists>c. \<exists>row \<in> set rs. in_cell s c row}"
proof (intro conjI)
  note l = load_cases [OF assms(1,3)]
  show srv: "distinct servers" "set servers = {s. \<exists>c. \<exists>row \<in> set rs. in_cell s c row}"
    using finite_cells(1) by (simp_all add: l(2) set_ordered_servers distinct_ordered_servers)
  have conns: "sorted_wrt (<) conns" "set conns = {c. \<exists>s. \<exists>row \<in> set rs. in_cell s c row}"
    using finite_cells(2) by (simp_all add: l(3))
  have some: "s \<in> set servers \<and> c \<in> set conns" if "trial_values rs field s c \<noteq> []" for c
    using that srv conns(2) by (auto simp: trial_values_def split: if_splits)
  have at: "series_at (series_json d servers conns) field s = (if s \<in> set servers then series_points d field s conns else [])"
    using srv assms(2) by (intro series_at_json) auto
  show "set (series_at (series_json d servers conns) field s) =
      {(c, median (trial_values rs field s c)) | c. trial_values rs field s c \<noteq> []}"
    using some by (auto simp: at set_series_points l(1) [OF assms(2)])
  show "sorted_wrt (<) (map fst (series_at (series_json d servers conns) field s))"
    using conns(1) by (simp add: at series_points_conns sorted_wrt_filter)
qed

text \<open>C11: The curves of the report are the medians of the trials. For every chart field and
  every server the embedded series has one point for each connection count at which some
  trial gave a number, in increasing order of connections, at the median of those numbers;
  the legend lists every server of the file exactly once.\<close>

theorem series_are_medians:
  assumes "load text = Inr (d, servers, conns)" and "field \<in> set (map c_field CHARTS)"
    and "rs = dict_reader (universal_newlines text)"
  shows "set (series_at (series_json d servers conns) field s) =
      {(c, median (trial_values rs field s c)) | c. trial_values rs field s c \<noteq> []} \<and>
    sorted_wrt (<) (map fst (series_at (series_json d servers conns) field s)) \<and>
    distinct servers \<and> set servers = {s. \<exists>c. \<exists>row \<in> set rs. in_cell s c row}"
  using series_medians [OF assms] .

definition demo_csv :: string where
  "demo_csv = csv_text [[''server'', ''conns'', ''moves_per_s''], [''rust'', ''50'', ''9''],
     [''go'', ''100'', ''5''], [''go'', ''100'', ''7.5''], [''go'', ''50'', ''n/a'']]"

lemmas float_eval = py_float_def strip_def is_space_def unsigned_float_def is_decimal_def decimal_val_def digit_val_def
  nonfinite_word_def lower_def float_limit_def is_exp_mark_def

lemma demo_numbers:
  "py_float ''9'' = Inr 9" "py_float ''5'' = Inr 5" "py_float ''7.5'' = Inr (15 / 2)" "py_float ''n/a'' = Inl ValueError"
  "py_int ''50'' = Inr 50" "py_int ''100'' = Inr 100"
  by (simp_all add: float_eval int_eval)

lemma demo_rows:
  "dict_reader (universal_newlines demo_csv) =
    map (\<lambda>r. zip [''server'', ''conns'', ''moves_per_s''] (map Some r))
      [[''rust'', ''50'', ''9''], [''go'', ''100'', ''5''], [''go'', ''100'', ''7.5''], [''go'', ''50'', ''n/a'']]"
  unfolding demo_csv_def by (rule read_table) auto

lemma demo_ascii: "is_ascii demo_csv"
  by (simp add: demo_csv_def is_ascii_def csv_text_def csv_line_def csv_cell_def needs_quotes_def)

lemmas row_eval = row_ok_def in_cell_def bad_number_def number_in_def col_float_def col_int_def row_get_def
  cell_float_def cell_int_def

lemma demo_loads: "\<exists>d servers conns. load demo_csv = Inr (d, servers, conns)"
proof -
  have "list_all row_ok (dict_reader (universal_newlines demo_csv))"
    unfolding demo_rows by (simp add: row_eval CHARTS_def demo_numbers)
  then show ?thesis using demo_ascii load_rows_ok [of "dict_reader (universal_newlines demo_csv)" "([], {}, {})"]
    by (auto simp: load_def bindE_eq_Inr)
qed

lemma demo_values:
  "trial_values (dict_reader (universal_newlines demo_csv)) ''moves_per_s'' ''go'' c = (if c = 100 then [5, 15 / 2] else [])"
  unfolding demo_rows by (auto simp: trial_values_def row_eval demo_numbers)

lemma demo_median: "median [5, 15 / 2] = 25 / 4"
  by (simp add: median_def)

theorem series_are_medians_witness:
  "\<exists>d servers conns. load demo_csv = Inr (d, servers, conns) \<and>
    set (series_at (series_json d servers conns) ''moves_per_s'' ''go'') = {(100, 25 / 4)}"
proof -
  obtain d servers conns where l: "load demo_csv = Inr (d, servers, conns)" using demo_loads by blast
  have f: "''moves_per_s'' \<in> set (map c_field CHARTS)" by (simp add: CHARTS_def)
  show ?thesis using series_are_medians [OF l f refl, of "''go''"] l demo_median unfolding demo_values by auto
qed

section \<open>The timeline\<close>

definition rows_at :: "timeline \<Rightarrow> string \<times> int \<Rightarrow> int \<Rightarrow> csv_row list" where
  "rows_at d key tr =
     (case dict_get d key of None \<Rightarrow> [] | Some dt \<Rightarrow> (case dict_get dt tr of None \<Rightarrow> [] | Some rs \<Rightarrow> rs))"

definition in_trial :: "string \<times> int \<Rightarrow> int \<Rightarrow> csv_row \<Rightarrow> bool" where
  "in_trial key tr row \<longleftrightarrow> in_cell (fst key) (snd key) row \<and> col_int row ''trial'' = Inr tr"

definition t_of :: "csv_row \<Rightarrow> int" where
  "t_of row = (case col_int row ''t_s'' of Inr t \<Rightarrow> t | Inl _ \<Rightarrow> 0)"

text \<open>No key without a trial, no trial without a row, no key twice.\<close>

definition timeline_wf :: "timeline \<Rightarrow> bool" where
  "timeline_wf d \<longleftrightarrow> distinct (keys d) \<and>
     list_all (\<lambda>(key, dt). dt \<noteq> [] \<and> distinct (keys dt) \<and> list_all (\<lambda>(tr, rs). rs \<noteq> []) dt) d"

lemma sort_key_decorated: "map snd (sort_key fst (map (\<lambda>r. (f r, r)) rs)) = sort_key f rs"
proof (induction rs)
  case (Cons r rs)
  have "map snd (insort_key fst (f r, r) ys) = insort_key f r (map snd ys)" if "\<forall>y \<in> set ys. fst y = f (snd y)" for ys
    using that by (induction ys) auto
  then show ?case using Cons by simp
qed simp

lemma mapE_eq: "mapE f xs = Inr ys \<Longrightarrow> ys = map (\<lambda>x. projr (f x)) xs \<and> (\<forall>x \<in> set xs. f x = Inr (projr (f x)))"
  by (induction xs arbitrary: ys) (auto simp: bindE_eq_Inr)

lemma sort_rows_eq:
  assumes "sort_rows rs = Inr rs'"
  shows "rs' = sort_key t_of rs"
proof -
  obtain ts where ts: "mapE (\<lambda>r. col_int r ''t_s'') rs = Inr ts" "rs' = map snd (sort_key fst (zip ts rs))"
    using assms by (auto simp: sort_rows_def bindE_eq_Inr)
  have "projr (col_int r ''t_s'') = t_of r" if "r \<in> set rs" for r
    using that mapE_eq [OF ts(1)] by (metis (no_types, lifting) t_of_def sum.case(2))
  then have "ts = map t_of rs" using mapE_eq [OF ts(1)] by simp
  then show ?thesis using ts(2) sort_key_decorated [of t_of rs] by (simp add: zip_map1 zip_same_conv_map comp_def)
qed

lemma mapE_vals_get:
  assumes "mapE_vals f d = Inr d'"
  shows "keys d' = keys d" and "dict_get d' k = map_option (\<lambda>v. projr (f v)) (dict_get d k)"
    and "dict_get d k = Some v \<Longrightarrow> f v = Inr (projr (f v))"
proof -
  have d': "d' = map (\<lambda>(k, v). (k, projr (f v))) d" and ok: "\<forall>(k, v) \<in> set d. f v = Inr (projr (f v))"
    using assms by (induction d arbitrary: d') (auto simp: mapE_vals_def bindE_eq_Inr)
  show "keys d' = keys d" by (auto simp: d')
  show "dict_get d' k = map_option (\<lambda>v. projr (f v)) (dict_get d k)" unfolding d' by (induction d) auto
  show "dict_get d k = Some v \<Longrightarrow> f v = Inr (projr (f v))" using ok by (auto dest: map_of_SomeD)
qed

lemma mapE_vals_back:
  assumes "mapE_vals f d = Inr d'" and "dict_get d' k = Some w"
  obtains v where "dict_get d k = Some v" and "f v = Inr w"
  using assms(2) mapE_vals_get(2,3) [OF assms(1), of k] by (cases "dict_get d k") auto

lemma timeline_add_cases:
  assumes "timeline_add row d = Inr d'"
  obtains key tr where "in_trial key tr row" and "d' = dd_at key [] (dd_at tr [] (\<lambda>rs. rs @ [row])) d"
  using assms by (auto simp: timeline_add_def in_trial_def in_cell_def bindE_eq_Inr split: option.splits)

lemma in_trial_unique: "in_trial key tr row \<Longrightarrow> in_trial key' tr' row \<longleftrightarrow> key' = key \<and> tr' = tr"
  by (cases key; cases key') (auto simp: in_trial_def in_cell_def)

lemma rows_at_add:
  "rows_at (dd_at key [] (dd_at tr [] (\<lambda>rs. rs @ [row])) d) key' tr' =
    rows_at d key' tr' @ (if key' = key \<and> tr' = tr then [row] else [])"
  by (auto simp: rows_at_def dict_simps split: option.splits)

lemma dd_at_all:
  assumes "list_all (\<lambda>(k, v). P v) d" and "\<And>v. P v \<or> v = dflt \<Longrightarrow> P (f v)"
  shows "list_all (\<lambda>(k, v). P v) (dd_at k dflt f d)"
  using assms by (force simp: dd_at_def list_all_iff dest!: in_set_dict_set map_of_SomeD split: option.splits)

lemma dd_at_nonempty: "dd_at k dflt f d \<noteq> []"
  by (cases d) (auto simp: dd_at_def)

lemma distinct_dd_at: "distinct (keys d) \<Longrightarrow> distinct (keys (dd_at k dflt f d))"
  by (simp add: keys_dd_at)

lemma timeline_wf_add:
  assumes "timeline_wf d"
  shows "timeline_wf (dd_at key [] (dd_at tr [] (\<lambda>rs. rs @ [row])) d)"
proof -
  let ?P = "\<lambda>dt :: (int, csv_row list) dict. dt \<noteq> [] \<and> distinct (keys dt) \<and> list_all (\<lambda>(tr, rs). rs \<noteq> []) dt"
  have "?P (dd_at tr [] (\<lambda>rs. rs @ [row]) dt)" if "?P dt \<or> dt = []" for dt
    using that by (auto simp: dd_at_nonempty distinct_dd_at intro!: dd_at_all)
  then have "list_all (\<lambda>(k, dt). ?P dt) (dd_at key [] (dd_at tr [] (\<lambda>rs. rs @ [row])) d)"
    using assms by (intro dd_at_all) (auto simp: timeline_wf_def)
  then show ?thesis using assms by (simp add: timeline_wf_def distinct_dd_at)
qed

lemma timeline_rows:
  "foldE timeline_add rs d = Inr d' \<Longrightarrow> timeline_wf d \<Longrightarrow>
    timeline_wf d' \<and> rows_at d' key tr = rows_at d key tr @ filter (in_trial key tr) rs"
proof (induction rs arbitrary: d)
  case (Cons row rs)
  then obtain d1 where d1: "timeline_add row d = Inr d1" "foldE timeline_add rs d1 = Inr d'" by (auto simp: bindE_eq_Inr)
  obtain key0 tr0 where k: "in_trial key0 tr0 row" "d1 = dd_at key0 [] (dd_at tr0 [] (\<lambda>rs. rs @ [row])) d"
    using timeline_add_cases [OF d1(1)] by blast
  from Cons.IH [OF d1(2)] Cons.prems(2) show ?case
    by (auto simp: k(2) timeline_wf_add rows_at_add in_trial_unique [OF k(1)])
qed simp

text \<open>The sorted table: same keys and trials, every list sorted by second.\<close>

lemma sorted_timeline:
  assumes "mapE_vals (mapE_vals sort_rows) d = Inr d'" and "timeline_wf d"
  shows "timeline_wf d'" and "rows_at d' key tr = sort_key t_of (rows_at d key tr)"
proof -
  note o = mapE_vals_get [OF assms(1)]
  have i: "dict_get d' k = Some dt' \<Longrightarrow> \<exists>dt. dict_get d k = Some dt \<and> mapE_vals sort_rows dt = Inr dt'" for k dt'
    using mapE_vals_back [OF assms(1)] by metis
  have row: "dict_get dt' tr = map_option (sort_key t_of) (dict_get dt tr)" if "mapE_vals sort_rows dt = Inr dt'" for dt dt' tr
    using mapE_vals_get(2,3) [OF that, of tr] sort_rows_eq by (cases "dict_get dt tr") auto
  have ok: "dt \<noteq> [] \<and> distinct (keys dt) \<and> list_all (\<lambda>(tr, rs). rs \<noteq> []) dt" if "dict_get d k = Some dt" for k dt
    using that assms(2) by (fastforce simp: timeline_wf_def list_all_iff dest: map_of_SomeD)
  have "dt' \<noteq> [] \<and> distinct (keys dt') \<and> list_all (\<lambda>(tr, rs). rs \<noteq> []) dt'" if k: "dict_get d' k = Some dt'" for k dt'
  proof -
    obtain dt where dt: "dict_get d k = Some dt" "mapE_vals sort_rows dt = Inr dt'" using i [OF k] by blast
    have keys: "keys dt' = keys dt" by (rule mapE_vals_get(1) [OF dt(2)])
    have "rs' \<noteq> []" if "(tr, rs') \<in> set dt'" for tr rs'
    proof -
      have "dict_get dt' tr = Some rs'" using that ok [OF dt(1)] keys by simp
      then obtain rs where "dict_get dt tr = Some rs" "rs' = sort_key t_of rs" using row [OF dt(2)] by auto
      then have "rs \<noteq> []" using ok [OF dt(1)] by (auto simp: list_all_iff dest: map_of_SomeD)
      then show ?thesis using \<open>rs' = sort_key t_of rs\<close> by (metis length_0_conv length_sort)
    qed
    moreover have "dt' \<noteq> []" "distinct (keys dt')" using ok [OF dt(1)] keys by auto
    ultimately show ?thesis by (auto simp: list_all_iff)
  qed
  moreover have "distinct (keys d')" using o(1) assms(2) by (simp add: timeline_wf_def)
  ultimately show "timeline_wf d'" by (fastforce simp: timeline_wf_def list_all_iff)
  show "rows_at d' key tr = sort_key t_of (rows_at d key tr)"
  proof (cases "dict_get d' key")
    case None
    then show ?thesis using o(2) [of key] by (simp add: rows_at_def)
  next
    case (Some dt')
    then obtain dt where "dict_get d key = Some dt" "mapE_vals sort_rows dt = Inr dt'" using i by blast
    then show ?thesis using Some row [of dt dt' tr] by (cases "dict_get dt tr") (auto simp: rows_at_def)
  qed
qed

lemma load_timeline_rows:
  assumes "load_timeline text = Inr d"
  shows "timeline_wf d \<and>
    rows_at d key tr = sort_key t_of (filter (in_trial key tr) (dict_reader (universal_newlines text)))"
proof -
  obtain d0 where d0: "foldE timeline_add (dict_reader (universal_newlines text)) [] = Inr d0"
    "mapE_vals (mapE_vals sort_rows) d0 = Inr d"
    using assms by (auto simp: load_timeline_def bindE_eq_Inr split: if_splits)
  have "timeline_wf d0 \<and> rows_at d0 key tr = rows_at [] key tr @ filter (in_trial key tr) (dict_reader (universal_newlines text))"
    by (rule timeline_rows [OF d0(1)]) (simp add: timeline_wf_def)
  then show ?thesis using sorted_timeline [OF d0(2)] by (simp add: rows_at_def)
qed

text \<open>Every row that is kept has a whole second, or the sort would have raised.\<close>

lemma load_timeline_seconds:
  assumes "load_timeline text = Inr d" and "r \<in> set (rows_at d key tr)"
  shows "col_int r ''t_s'' = Inr (t_of r)"
proof -
  obtain d0 where d0: "mapE_vals (mapE_vals sort_rows) d0 = Inr d"
    using assms(1) by (auto simp: load_timeline_def bindE_eq_Inr split: if_splits)
  obtain dt rs where r: "dict_get d key = Some dt" "dict_get dt tr = Some rs" "r \<in> set rs"
    using assms(2) by (cases "dict_get d key"; cases "dict_get (the (dict_get d key)) tr") (auto simp: rows_at_def)
  obtain dt0 where dt0: "dict_get d0 key = Some dt0" "mapE_vals sort_rows dt0 = Inr dt"
    using mapE_vals_back [OF d0 r(1)] by blast
  obtain rs0 where rs0: "sort_rows rs0 = Inr rs" using mapE_vals_back [OF dt0(2) r(2)] by blast
  then have "set rs = set rs0" using sort_rows_eq [OF rs0] by simp
  moreover obtain ts where ts: "mapE (\<lambda>r. col_int r ''t_s'') rs0 = Inr ts" using rs0 by (auto simp: sort_rows_def bindE_eq_Inr)
  ultimately have "col_int r ''t_s'' = Inr (projr (col_int r ''t_s''))" using mapE_eq [OF ts] r(3) by auto
  then show ?thesis by (cases "col_int r ''t_s''") (simp_all add: t_of_def)
qed

text \<open>\<open>load_timeline\<close> loses and invents no row: under each server, connection count and
  trial are exactly the rows of the file with those cells, sorted by second with rows of
  the same second in file order, and no entry of the table is empty.\<close>

theorem timeline_keeps_every_row:
  assumes "load_timeline text = Inr d"
  shows "timeline_wf d \<and>
    rows_at d key tr = sort_key t_of (filter (in_trial key tr) (dict_reader (universal_newlines text)))"
  using load_timeline_rows [OF assms] by simp

definition demo_timeline :: string where
  "demo_timeline = csv_text [[''server'', ''conns'', ''trial'', ''t_s'', ''p50_ms''],
     [''go'', ''100'', ''1'', ''2'', ''7.5''], [''go'', ''100'', ''1'', ''1'', ''5''], [''go'', ''100'', ''2'', ''1'', ''9'']]"

lemma demo_timeline_rows:
  "dict_reader (universal_newlines demo_timeline) =
    map (\<lambda>r. zip [''server'', ''conns'', ''trial'', ''t_s'', ''p50_ms''] (map Some r))
      [[''go'', ''100'', ''1'', ''2'', ''7.5''], [''go'', ''100'', ''1'', ''1'', ''5''], [''go'', ''100'', ''2'', ''1'', ''9'']]"
  unfolding demo_timeline_def by (rule read_table) auto

lemma demo_ints: "py_int ''1'' = Inr 1" "py_int ''2'' = Inr 2"
  by (simp_all add: int_eval)

lemma demo_timeline_loads: "\<exists>d. load_timeline demo_timeline = Inr d"
proof -
  have "is_ascii demo_timeline"
    by (simp add: demo_timeline_def is_ascii_def csv_text_def csv_line_def csv_cell_def needs_quotes_def)
  then show ?thesis
    by (simp add: load_timeline_def demo_timeline_rows timeline_add_def row_eval demo_numbers demo_ints
        dd_at_def mapE_vals_def sort_rows_def)
qed

theorem timeline_keeps_every_row_witness:
  "\<exists>d. load_timeline demo_timeline = Inr d \<and>
    map t_of (rows_at d (''go'', 100) 1) = [1, 2] \<and> length (rows_at d (''go'', 100) 2) = 1"
proof -
  obtain d where d: "load_timeline demo_timeline = Inr d" using demo_timeline_loads by blast
  have "filter (in_trial (''go'', 100) 1) (dict_reader (universal_newlines demo_timeline)) = take 2 (dict_reader (universal_newlines demo_timeline))"
    "filter (in_trial (''go'', 100) 2) (dict_reader (universal_newlines demo_timeline)) = drop 2 (dict_reader (universal_newlines demo_timeline))"
    by (simp_all add: demo_timeline_rows in_trial_def row_eval demo_numbers demo_ints)
  then show ?thesis
    using d timeline_keeps_every_row [OF d, of "(''go'', 100)" 1] timeline_keeps_every_row [OF d, of "(''go'', 100)" 2]
    by (simp add: demo_timeline_rows t_of_def row_eval demo_ints)
qed

end
