(* ===== verification/Report_Html.thy ===== *)
theory Report_Html
  imports Report_Data "HOL-Library.Product_Lexorder"
begin

text \<open>
  The markup of the report (\<open>runner/plot.py\<close>): escaping, the data table, the legend, the
  latency-over-time charts with their axis geometry and tick loop, and the two panels of
  the page. Text of the page is its UTF-8 encoding; the three dashes and dots outside ASCII
  are written out as bytes.
\<close>

section \<open>Strings\<close>

text \<open>\<open>str.replace\<close>, left to right without overlap; it is only called with a pattern that is not empty.\<close>

function str_replace :: "string \<Rightarrow> string \<Rightarrow> string \<Rightarrow> string" where
  "str_replace pat new [] = []"
| "str_replace pat new (c # cs) =
     (if pat \<noteq> [] \<and> startswith (c # cs) pat then new @ str_replace pat new (drop (length pat) (c # cs))
      else c # str_replace pat new cs)"
  by pat_completeness auto
termination by (relation "measure (\<lambda>(pat, new, s). length s)") auto

definition esc :: "string \<Rightarrow> string" where
  "esc s = str_replace ''>'' ''&gt;'' (str_replace ''<'' ''&lt;'' (str_replace ''&'' ''&amp;'' s))"

definition en_dash :: string where "en_dash = [CHR 0xE2, CHR 0x80, CHR 0x93]"
definition em_dash :: string where "em_dash = [CHR 0xE2, CHR 0x80, CHR 0x94]"
definition middle_dot :: string where "middle_dot = [CHR 0xC2, CHR 0xB7]"
definition times_sign :: string where "times_sign = [CHR 0xC3, CHR 0x97]"

section \<open>The data table and the legend\<close>

definition td :: "string \<Rightarrow> string" where
  "td s = ''<td>'' @ s @ ''</td>''"

definition table_cell :: "data \<Rightarrow> string \<Rightarrow> int \<Rightarrow> chart \<Rightarrow> string" where
  "table_cell d s c ch =
     (let vs = vals_at d (c_field ch) s c in if vs \<noteq> [] then c_fmt ch (median vs) else en_dash)"

definition swatch :: "string \<Rightarrow> string" where
  \<open>swatch s = ''<span class="sw" style="background:var(--series-'' @ py_str (slot_of s) @ '')"></span>''\<close>

definition table_row :: "data \<Rightarrow> string \<Rightarrow> int \<Rightarrow> string list" where
  \<open>table_row d s c =
     (if list_ex (\<lambda>ch. vals_at d (c_field ch) s c \<noteq> []) CHARTS
      then [concat [''<tr data-server="'', esc s, ''"><td>'', swatch s, esc s, ''</td>'',
                    td (fmt_comma c), concat (map (\<lambda>ch. td (table_cell d s c ch)) CHARTS), ''</tr>'']]
      else [])\<close>

definition table_html :: "data \<Rightarrow> string list \<Rightarrow> int list \<Rightarrow> string" where
  "table_html d servers all_conns =
     (let heads = concat (map (\<lambda>ch. ''<th>'' @ esc (c_title ch) @ ''</th>'') CHARTS);
          trs = concat (map (\<lambda>s. concat (map (table_row d s) all_conns)) servers)
      in concat [''<table><thead><tr><th>server</th><th>conns</th>'', heads, ''</tr></thead>'',
                 ''<tbody>'', concat trs, ''</tbody></table>''])"

definition legend_item :: "string \<Rightarrow> string" where
  \<open>legend_item s =
     concat [''<button type="button" class="leg" data-server="'', esc s, ''" aria-pressed="true">'',
             swatch s, ''<span class="leg-name">'', esc s, ''</span></button>'']\<close>

definition legend_html :: "string list \<Rightarrow> string" where
  \<open>legend_html servers =
     concat [''<div class="legend" id="legend">'', concat (map legend_item servers),
             ''<button type="button" class="leg leg-all" id="show-all" hidden>show all</button></div>'']\<close>

section \<open>Latency over time\<close>

definition WIDTH :: int where "WIDTH = 900"
definition HEIGHT :: int where "HEIGHT = 360"
definition M_LEFT :: int where "M_LEFT = 72"
definition M_RIGHT :: int where "M_RIGHT = 128"
definition M_TOP :: int where "M_TOP = 40"
definition M_BOTTOM :: int where "M_BOTTOM = 52"

definition X0 :: int where "X0 = M_LEFT"
definition X1 :: int where "X1 = WIDTH - M_RIGHT"
definition Y0 :: int where "Y0 = HEIGHT - M_BOTTOM"
definition Y1 :: int where "Y1 = M_TOP"

definition TL_SERIES :: "(string \<times> string \<times> string) list" where
  "TL_SERIES =
     [(''p50_ms'', ''p50'', ''#2a9d5c''), (''p90_ms'', ''p90'', ''#8aa32e''), (''p99_ms'', ''p99'', ''#eda100''),
      (''p999_ms'', ''p99.9'', ''#e8663d''), (''max_ms'', ''max'', ''#d6453f'')]"

text \<open>\<open>except (KeyError, ValueError): pass\<close>\<close>

definition caught :: "'a py \<Rightarrow> 'a option py" where
  "caught m =
     (case m of
        Inr v \<Rightarrow> Inr (Some v)
      | Inl e \<Rightarrow> if e = KeyError \<or> e = ValueError then Inr None else Inl e)"

definition max_t :: "csv_row list \<Rightarrow> int py" where
  "max_t rs = bindE (mapE (\<lambda>r. col_int r ''t_s'') rs) (\<lambda>ts. Inr (if ts = [] then 0 else Max (set ts)))"

definition max_v :: "csv_row list \<Rightarrow> rat py" where
  "max_v rs =
     foldE (\<lambda>(r, field) v. bindE (caught (col_float r field)) (\<lambda>w. Inr (case w of Some x \<Rightarrow> max v x | None \<Rightarrow> v)))
       (concat (map (\<lambda>r. map (\<lambda>(field, _, _). (r, field)) TL_SERIES) rs)) 0"

definition y_max :: "rat \<Rightarrow> rat" where
  "y_max vmax = (if vmax > 0 then nice_max vmax else 1)"

definition tl_X :: "int \<Rightarrow> int \<Rightarrow> rat" where
  "tl_X maxT t = (if maxT \<le> 0 then of_int X0 else of_int X0 + of_int ((X1 - X0) * t) / of_int maxT)"

definition axis_Y :: "rat \<Rightarrow> rat \<Rightarrow> rat" where
  "axis_Y ymax v = of_int Y0 - of_int (Y0 - Y1) * (v / ymax)"

text \<open>The labels of the time axis: \<open>while t <= maxT\<close>, in steps of a sixth rounded up.\<close>

definition tick_step :: "int \<Rightarrow> int" where
  "tick_step maxT = max 1 (- (- maxT div 6))"

function tick_times :: "int \<Rightarrow> int \<Rightarrow> int list" where
  "tick_times maxT t = (if t \<le> maxT then t # tick_times maxT (t + tick_step maxT) else [])"
  by auto
termination by (relation "measure (\<lambda>(maxT, t). nat (maxT + 1 - t))") (auto simp: tick_step_def)

declare tick_times.simps [simp del]

definition tl_points :: "csv_row list \<Rightarrow> string \<Rightarrow> (int \<times> rat) list py" where
  "tl_points rs field =
     bindE (mapE (\<lambda>r. caught (bindE (col_int r ''t_s'') (\<lambda>t. bindE (col_float r field) (\<lambda>v. Inr (t, v))))) rs) (\<lambda>ps.
     Inr (concat (map (\<lambda>p. case p of Some q \<Rightarrow> [q] | None \<Rightarrow> []) ps)))"

definition path_d :: "(rat \<times> rat) list \<Rightarrow> string" where
  "path_d xys =
     join '' '' (map (\<lambda>(i, x, y). (if i = 0 then ''M'' else ''L'') @ fmt_fixed False 1 x @ '','' @ fmt_fixed False 1 y)
                  (zip [0 ..< length xys] xys))"

definition tl_curve :: "int \<Rightarrow> rat \<Rightarrow> string \<Rightarrow> string \<Rightarrow> (int \<times> rat) list \<Rightarrow> string" where
  \<open>tl_curve maxT ymax label color pts =
     (if pts = [] then []
      else concat
        [''<path d="'', path_d (map (\<lambda>(t, v). (tl_X maxT t, axis_Y ymax v)) pts), ''" fill="none" stroke="'', color,
         ''" stroke-width="2" stroke-linejoin="round" stroke-linecap="round"/>'',
         ''<text x="'', py_str (X1 + 8), ''" y="'', fmt_fixed False 1 (axis_Y ymax (snd (last pts)) + 4),
         ''" class="direct-label" fill="'', color, ''">'', esc label, ''</text>''])\<close>

definition grid_line :: "rat \<Rightarrow> nat \<Rightarrow> string" where
  \<open>grid_line ymax k =
     (let v = ymax * of_nat k / 5; y = axis_Y ymax v
      in concat
        [''<line x1="'', py_str X0, ''" y1="'', fmt_fixed False 1 y, ''" x2="'', py_str X1, ''" y2="'', fmt_fixed False 1 y,
         ''" class="grid"/>'',
         ''<text x="'', py_str (X0 - 10), ''" y="'', fmt_fixed False 1 (y + 4), ''" class="tick tick-y">'',
         fmt_fixed False 1 v, ''</text>''])\<close>

definition tick_label :: "int \<Rightarrow> int \<Rightarrow> string" where
  \<open>tick_label maxT t =
     concat [''<text x="'', fmt_fixed False 1 (tl_X maxT t), ''" y="'', py_str (Y0 + 22), ''" class="tick tick-x">'',
             py_str t, ''</text>'']\<close>

text \<open>\<open>(Y0 + Y1) / 2\<close> and \<open>(X0 + X1) / 2\<close> print as floats with one digit, 174.0 and 422.0.\<close>

definition timeline_svg :: "string \<Rightarrow> int \<Rightarrow> csv_row list \<Rightarrow> string py" where
  \<open>timeline_svg server conns rs =
     bindE (max_t rs) (\<lambda>maxT.
     bindE (max_v rs) (\<lambda>vmax.
     let ymax = y_max vmax
     in bindE (mapE (\<lambda>(field, label, color). bindE (tl_points rs field) (\<lambda>pts. Inr (tl_curve maxT ymax label color pts))) TL_SERIES) (\<lambda>curves.
     Inr (concat
       [''<svg viewBox="0 0 '', py_str WIDTH, '' '', py_str HEIGHT, ''" class="chart" role="img" '',
        ''aria-label="'', esc server, '' latency over time" preserveAspectRatio="xMidYMid meet">'',
        ''<text x="'', py_str M_LEFT, ''" y="24" class="c-title">'', esc server, '' @ '', fmt_comma conns, '' conns</text>'',
        concat (map (grid_line ymax) [0 ..< 6]),
        ''<text class="axis-label" transform="translate(18,'', fmt_fixed False 1 (of_int (Y0 + Y1) / 2), '') rotate(-90)">ms</text>'',
        concat (map (tick_label maxT) (tick_times maxT 0)),
        ''<text x="'', fmt_fixed False 1 (of_int (X0 + X1) / 2), ''" y="'', py_str (HEIGHT - 8),
        ''" class="axis-label">time (s, measured phase)</text>'',
        ''<line x1="'', py_str X0, ''" y1="'', py_str Y0, ''" x2="'', py_str X1, ''" y2="'', py_str Y0, ''" class="baseline"/>'',
        concat curves, ''</svg>'']))))\<close>

definition index_of :: "'a \<Rightarrow> 'a list \<Rightarrow> nat" where
  "index_of x xs = length (takeWhile (\<lambda>y. y \<noteq> x) xs)"

definition tl_order :: "timeline \<Rightarrow> string list" where
  "tl_order tld = ORDER @ sorted_list_of_set (fst ` set (keys tld) - set ORDER)"

definition tl_rank :: "string list \<Rightarrow> string \<times> int \<Rightarrow> nat \<times> int" where
  "tl_rank order key = (if fst key \<in> set order then index_of (fst key) order else 999, snd key)"

definition tl_keys :: "timeline \<Rightarrow> (string \<times> int) list" where
  "tl_keys tld = sort_key (tl_rank (tl_order tld)) (keys tld)"

definition card_html :: "int \<Rightarrow> string \<Rightarrow> string" where
  \<open>card_html tr svg = concat [''<div class="card"><div class="card-meta">trial '', py_str tr, ''</div>'', svg, ''</div>'']\<close>

definition tl_card :: "timeline \<Rightarrow> string \<times> int \<Rightarrow> string py" where
  "tl_card tld key =
     (case dict_get tld key of
        None \<Rightarrow> Inl KeyError
      | Some trials \<Rightarrow>
          if trials = [] then Inl ValueError
          else
            let tr = Min (set (keys trials)); rs = the (dict_get trials tr)
            in if rs = [] then Inr []
               else bindE (timeline_svg (fst key) (snd key) rs) (\<lambda>svg. Inr (card_html tr svg)))"

definition timeline_body :: "timeline option \<Rightarrow> string \<Rightarrow> string py" where
  \<open>timeline_body tl_data src =
     (case tl_data of
        Some (e # es) \<Rightarrow>
          bindE (mapE (tl_card (e # es)) (tl_keys (e # es))) (\<lambda>cards.
          Inr (concat
            [''<p class="sub">one card per server '', times_sign, '' load level '', middle_dot, '' x = seconds into the '',
             ''measured phase '', middle_dot, '' 1 s windows '', middle_dot, '' source: '', esc (basename src), ''</p>'',
             ''<div class="plegend">'',
             concat (map (\<lambda>(_, l, c). concat [''<span class="pleg"><span class="sw" style="background:'', c, ''"></span>'',
                                           esc l, ''</span>'']) TL_SERIES),
             ''</div>'', concat cards]))
      | _ \<Rightarrow>
          Inr (concat
            [''<p class="sub">No timeline data yet. Run <code>runner/run.py</code> '',
             ''to generate <code>timeline.csv</code> next to the results CSV.</p>'']))\<close>

definition saturation_body :: "data \<Rightarrow> string list \<Rightarrow> int list \<Rightarrow> string \<Rightarrow> string" where
  \<open>saturation_body d servers all_conns src =
     concat
       [''<p class="sub">median over trials '', middle_dot, '' x = offered load (connections) '', middle_dot, '' '',
        ''source: '', esc (basename src), ''</p>'',
        ''<p class="sub" style="margin-top:-16px">Click a server to hide it '', em_dash, '' '',
        ''the axes rescale to what's left.</p>'',
        ''<noscript><p class="noscript">This tab needs JavaScript to draw the charts. '',
        ''The data table below is complete.</p></noscript>'',
        legend_html servers,
        concat (map (\<lambda>i. concat [''<div class="card"><div id="chart-'', py_str (int i), ''"></div></div>'']) [0 ..< length CHARTS]),
        ''<details open><summary>Data table</summary>'',
        ''<div class="card">'', table_html d servers all_conns, ''</div></details>'']\<close>

section \<open>Escaping\<close>

lemma str_replace_char: "str_replace [a] new s = concat (map (\<lambda>c. if c = a then new else [c]) s)"
  by (induction s) (auto simp: startswith_def)

definition esc_char :: "char \<Rightarrow> string" where
  "esc_char c = (if c = CHR ''&'' then ''&amp;'' else if c = CHR ''<'' then ''&lt;'' else if c = CHR ''>'' then ''&gt;'' else [c])"

lemma esc_concat: "esc s = concat (map esc_char s)"
  unfolding esc_def str_replace_char by (induction s) (auto simp: esc_char_def)

text \<open>How a browser reads the three character references back.\<close>

definition reference :: "string \<Rightarrow> (char \<times> nat) option" where
  "reference s =
     (if startswith s ''&amp;'' then Some (CHR ''&'', 5)
      else if startswith s ''&lt;'' then Some (CHR ''<'', 4)
      else if startswith s ''&gt;'' then Some (CHR ''>'', 4)
      else None)"

function unesc :: "string \<Rightarrow> string" where
  "unesc [] = []"
| "unesc (c # cs) =
     (case reference (c # cs) of
        Some (x, n) \<Rightarrow> x # unesc (drop n (c # cs))
      | None \<Rightarrow> c # unesc cs)"
  by pat_completeness auto
termination
  by (relation "measure length") (auto simp: reference_def split: if_splits)

lemma unesc_esc_char: "unesc (esc_char c @ s) = c # unesc s"
  by (auto simp: esc_char_def reference_def startswith_def)

text \<open>C19: Text put through \<open>esc\<close> cannot open or close a tag, and a browser shows exactly the
  text that went in: no two names are confused and nothing is escaped twice.\<close>

theorem esc_is_safe_and_faithful:
  "unesc (esc s) = s \<and> set (esc s) \<inter> {CHR ''<'', CHR ''>''} = {}"
proof
  show "unesc (esc s) = s" unfolding esc_concat by (induction s) (simp_all add: unesc_esc_char)
  show "set (esc s) \<inter> {CHR ''<'', CHR ''>''} = {}" unfolding esc_concat by (induction s) (auto simp: esc_char_def split: if_splits)
qed

section \<open>The time axis\<close>

lemma tick_step_pos: "1 \<le> tick_step maxT"
  by (simp add: tick_step_def)

lemma tick_times_eq: "tick_times maxT t = map (\<lambda>i. t + int i * tick_step maxT) [0 ..< length (tick_times maxT t)]"
proof (induction maxT t rule: tick_times.induct)
  case (1 maxT t)
  show ?case
  proof (cases "t \<le> maxT")
    case True
    define n where "n = length (tick_times maxT (t + tick_step maxT))"
    have "map (\<lambda>i. t + int i * tick_step maxT) [0 ..< Suc n] = t # map (\<lambda>i. t + int (Suc i) * tick_step maxT) [0 ..< n]"
      by (simp add: upt_conv_Cons map_Suc_upt [symmetric] comp_def del: upt_Suc)
    then show ?thesis using 1 [OF True] True unfolding n_def
      by (simp add: tick_times.simps [of maxT t] algebra_simps del: upt_Suc)
  qed (simp add: tick_times.simps [of maxT t])
qed

lemma tick_times_bound: "t \<in> set (tick_times maxT t0) \<Longrightarrow> t0 \<le> t \<and> t \<le> maxT"
proof (induction maxT t0 rule: tick_times.induct)
  case (1 maxT t0)
  then show ?case using tick_step_pos [of maxT] by (subst (asm) (2) tick_times.simps) (auto split: if_splits)
qed

lemma tick_times_length:
  assumes "0 \<le> maxT"
  shows "length (tick_times maxT 0) \<le> 7"
proof (rule ccontr)
  assume "\<not> ?thesis"
  then have n: "7 < length (tick_times maxT 0)" by simp
  have "tick_times maxT 0 ! 7 = 7 * tick_step maxT" by (subst tick_times_eq) (use n in simp)
  then have "7 * tick_step maxT \<le> maxT" using tick_times_bound [of "tick_times maxT 0 ! 7" maxT 0] nth_mem [OF n] by simp
  then show False using assms by (simp add: tick_step_def)
qed

lemma tick_times_negative: "maxT < 0 \<Longrightarrow> tick_times maxT 0 = []"
  by (simp add: tick_times.simps)

text \<open>C37: The loop that labels the time axis ends, and gives at most seven labels: second 0 and
  every whole multiple of the step up to the last second, none beyond it.\<close>

theorem tick_labels:
  "length (tick_times maxT 0) \<le> 7 \<and> set (tick_times maxT 0) = {t. \<exists>i. t = int i * tick_step maxT \<and> t \<le> maxT}"
proof
  show "length (tick_times maxT 0) \<le> 7"
    using tick_times_length [of maxT] tick_times_negative [of maxT] by (cases "0 \<le> maxT") auto
  let ?n = "length (tick_times maxT 0)"
  have last: "maxT < int ?n * tick_step maxT"
  proof -
    have "maxT < t + int (length (tick_times maxT t)) * tick_step maxT" for t
    proof (induction maxT t rule: tick_times.induct)
      case (1 maxT t)
      then show ?case by (subst tick_times.simps) (auto simp: algebra_simps)
    qed
    from this [of 0] show ?thesis by simp
  qed
  have "i < ?n" if "int i * tick_step maxT \<le> maxT" for i
  proof -
    have "int i * tick_step maxT < int ?n * tick_step maxT" using that last by linarith
    then show ?thesis using tick_step_pos [of maxT] by simp
  qed
  then have "{t. \<exists>i. t = int i * tick_step maxT \<and> t \<le> maxT} \<subseteq> set (tick_times maxT 0)"
    by (subst tick_times_eq) auto
  moreover have "\<exists>i. t = int i * tick_step maxT" if "t \<in> set (tick_times maxT 0)" for t
    using that by (subst (asm) tick_times_eq) auto
  ultimately show "set (tick_times maxT 0) = {t. \<exists>i. t = int i * tick_step maxT \<and> t \<le> maxT}"
    using tick_times_bound [of _ maxT 0] by blast
qed

section \<open>The curves stay in the plot\<close>

lemmas geometry = X0_def X1_def Y0_def Y1_def M_LEFT_def M_RIGHT_def M_TOP_def M_BOTTOM_def WIDTH_def HEIGHT_def

lemma tl_X_range: "0 \<le> t \<Longrightarrow> t \<le> maxT \<Longrightarrow> of_int X0 \<le> tl_X maxT t \<and> tl_X maxT t \<le> of_int X1"
proof (cases "0 < maxT")
  case True
  assume "0 \<le> t" "t \<le> maxT"
  then have "0 \<le> (of_int t / of_int maxT :: rat)" "(of_int t / of_int maxT :: rat) \<le> 1" using True by simp_all
  moreover have "tl_X maxT t = 72 + 700 * (of_int t / of_int maxT)" using True by (simp add: tl_X_def geometry)
  moreover have "(of_int X0 :: rat) = 72" "(of_int X1 :: rat) = 772" by (simp_all add: geometry)
  ultimately show ?thesis by linarith
qed (simp add: tl_X_def geometry)

lemma axis_Y_range: "0 < ymax \<Longrightarrow> 0 \<le> v \<Longrightarrow> v \<le> ymax \<Longrightarrow> of_int Y1 \<le> axis_Y ymax v \<and> axis_Y ymax v \<le> of_int Y0"
proof -
  assume "0 < ymax" "0 \<le> v" "v \<le> ymax"
  then have "0 \<le> v / ymax" "v / ymax \<le> 1" by simp_all
  then show ?thesis by (simp add: axis_Y_def geometry)
qed

text \<open>
  What a chart needs of the function that chooses the end of its value axis. The charts of
  the page and those of the script have one each; that curves stay inside and are not
  flattened follows from these laws alone.
\<close>

locale value_axis =
  fixes top :: "rat \<Rightarrow> rat"
  assumes top_pos: "0 < top v"
    and top_ge: "0 < v \<Longrightarrow> v \<le> top v"
    and top_tight: "0 < v \<Longrightarrow> top v < 5 / 2 * v"
begin

lemma in_plot:
  assumes "0 \<le> v" and "v \<le> m"
  shows "of_int Y1 \<le> axis_Y (if m > 0 then top m else 1) v \<and> axis_Y (if m > 0 then top m else 1) v \<le> of_int Y0"
proof (rule axis_Y_range)
  show "0 < (if m > 0 then top m else 1)" by (simp add: top_pos)
  show "v \<le> (if m > 0 then top m else 1)" using assms top_ge [of m] by auto
qed (rule assms(1))

lemma fills_plot:
  assumes "0 < m"
  shows "2 / 5 * of_int (Y0 - Y1) < of_int Y0 - axis_Y (if m > 0 then top m else 1) m"
proof -
  have "2 / 5 < m / top m" using top_tight [OF assms] top_pos [of m] by (simp add: field_simps)
  then show ?thesis using assms by (simp add: axis_Y_def geometry)
qed

end

interpretation page_axis: value_axis nice_max
proof
  show "v \<le> nice_max v" if "0 < v" for v using nice_max_shape [OF that] by metis
  show "nice_max v < 5 / 2 * v" if "0 < v" for v using nice_max_shape [OF that] by metis
qed (rule nice_max_pos)

lemma mapE_set: "mapE f xs = Inr ys \<Longrightarrow> set ys = {y. \<exists>x \<in> set xs. f x = Inr y}"
  by (induction xs arbitrary: ys) (auto simp: bindE_eq_Inr)

lemma max_t_ge: "max_t rs = Inr maxT \<Longrightarrow> r \<in> set rs \<Longrightarrow> col_int r ''t_s'' = Inr t \<Longrightarrow> t \<le> maxT"
  by (auto simp: max_t_def bindE_eq_Inr dest!: mapE_set split: if_splits intro!: Max_ge)

lemma caught_Some [simp]: "caught m = Inr (Some v) \<longleftrightarrow> m = Inr v"
  by (auto simp: caught_def split: sum.splits)

lemma max_fold_ge:
  "foldE (\<lambda>(r, field) v. bindE (caught (col_float r field)) (\<lambda>w. Inr (case w of Some x \<Rightarrow> max v x | None \<Rightarrow> v))) xs v = Inr w \<Longrightarrow>
    v \<le> w \<and> (\<forall>(r, field) \<in> set xs. \<forall>x. col_float r field = Inr x \<longrightarrow> x \<le> w)"
proof (induction xs arbitrary: v)
  case (Cons a xs)
  obtain r field where a: "a = (r, field)" by (cases a)
  obtain got where got: "caught (col_float r field) = Inr got" using Cons.prems by (auto simp: a bindE_eq_Inr)
  define v1 where "v1 = (case got of Some x \<Rightarrow> max v x | None \<Rightarrow> v)"
  have "x \<le> v1" if "col_float r field = Inr x" for x using that got by (auto simp: caught_def v1_def)
  moreover have "v \<le> v1" by (simp add: v1_def split: option.splits)
  moreover have "v1 \<le> w \<and> (\<forall>(r, field) \<in> set xs. \<forall>x. col_float r field = Inr x \<longrightarrow> x \<le> w)"
    using Cons.IH [of v1] Cons.prems by (simp add: a got v1_def)
  ultimately show ?case using order_trans by (fastforce simp: a)
qed simp

lemma max_v_ge:
  "max_v rs = Inr vmax \<Longrightarrow> r \<in> set rs \<Longrightarrow> field \<in> fst ` set TL_SERIES \<Longrightarrow> col_float r field = Inr v \<Longrightarrow> v \<le> vmax"
  unfolding max_v_def by (drule max_fold_ge) force

lemma tl_points_from:
  "tl_points rs field = Inr pts \<Longrightarrow> (t, v) \<in> set pts \<Longrightarrow>
    \<exists>r \<in> set rs. col_int r ''t_s'' = Inr t \<and> col_float r field = Inr v"
  by (fastforce simp: tl_points_def bindE_eq_Inr dest!: mapE_set split: option.splits)

text \<open>Every point of a latency curve with non-negative time and latency is drawn inside the
  plot area, whatever the rows are: the axes are scaled to the largest second and to the
  largest latency of the chart.\<close>

theorem timeline_points_in_plot:
  assumes "max_t rs = Inr maxT" and "max_v rs = Inr vmax" and "field \<in> fst ` set TL_SERIES"
    and "tl_points rs field = Inr pts" and "(t, v) \<in> set pts" and "0 \<le> t" and "0 \<le> v"
  shows "of_int X0 \<le> tl_X maxT t \<and> tl_X maxT t \<le> of_int X1 \<and>
    of_int Y1 \<le> axis_Y (y_max vmax) v \<and> axis_Y (y_max vmax) v \<le> of_int Y0"
proof -
  obtain r where r: "r \<in> set rs" "col_int r ''t_s'' = Inr t" "col_float r field = Inr v"
    using tl_points_from [OF assms(4,5)] by blast
  have "t \<le> maxT" using max_t_ge [OF assms(1)] r by blast
  moreover have "v \<le> vmax" using max_v_ge [OF assms(2) r(1) assms(3) r(3)] .
  ultimately show ?thesis using tl_X_range page_axis.in_plot [OF assms(7)] assms(6) unfolding y_max_def by blast
qed

theorem timeline_points_in_plot_witness:
  "of_int X0 \<le> tl_X 2 1 \<and> tl_X 2 1 \<le> of_int X1 \<and> of_int Y1 \<le> axis_Y (y_max (15 / 2)) 5 \<and> axis_Y (y_max (15 / 2)) 5 \<le> of_int Y0"
proof -
  define rs where "rs = [[(''t_s'', Some ''1''), (''p50_ms'', Some ''5'')], [(''t_s'', Some ''2''), (''p50_ms'', Some ''7.5'')]]"
  note eval = rs_def row_eval demo_ints demo_numbers caught_def TL_SERIES_def
  have "max_t rs = Inr 2" by (simp add: max_t_def eval)
  moreover have "max_v rs = Inr (15 / 2)" by (simp add: max_v_def eval)
  moreover have "tl_points rs ''p50_ms'' = Inr [(1, 5), (2, 15 / 2)]" by (simp add: tl_points_def eval)
  moreover have "''p50_ms'' \<in> fst ` set TL_SERIES" by (simp add: TL_SERIES_def)
  ultimately show ?thesis using timeline_points_in_plot [of rs 2 "15 / 2" "''p50_ms''" "[(1, 5), (2, 15 / 2)]" 1 5] by simp
qed

section \<open>One card per group\<close>

lemma index_of_inject: "x \<in> set xs \<Longrightarrow> y \<in> set xs \<Longrightarrow> index_of x xs = index_of y xs \<Longrightarrow> x = y"
  by (induction xs) (auto simp: index_of_def split: if_splits)

lemma tl_order_all: "key \<in> set (keys tld) \<Longrightarrow> fst key \<in> set (tl_order tld)"
  by (auto simp: tl_order_def)

lemma tl_rank_key: "key \<in> set (keys tld) \<Longrightarrow> tl_rank (tl_order tld) key = (index_of (fst key) (tl_order tld), snd key)"
  using tl_order_all by (simp add: tl_rank_def)

lemma tl_rank_inj: "inj_on (tl_rank (tl_order tld)) (set (keys tld))"
proof (rule inj_onI)
  fix a b assume "a \<in> set (keys tld)" "b \<in> set (keys tld)" "tl_rank (tl_order tld) a = tl_rank (tl_order tld) b"
  moreover then have "fst a \<in> set (tl_order tld)" "fst b \<in> set (tl_order tld)" by (simp_all only: tl_order_all)
  ultimately show "a = b" using index_of_inject by (auto simp: tl_rank_key prod_eq_iff)
qed

lemma tl_keys_sorted:
  assumes "timeline_wf tld"
  shows "distinct (tl_keys tld)" and "set (tl_keys tld) = set (keys tld)"
    and "sorted_wrt (<) (map (\<lambda>key. (index_of (fst key) (tl_order tld), snd key)) (tl_keys tld))"
proof -
  have d: "distinct (keys tld)" using assms by (simp add: timeline_wf_def)
  show keys: "distinct (tl_keys tld)" "set (tl_keys tld) = set (keys tld)" using d by (simp_all add: tl_keys_def)
  have "sorted (map (tl_rank (tl_order tld)) (tl_keys tld))" by (simp add: tl_keys_def)
  moreover have "distinct (map (tl_rank (tl_order tld)) (tl_keys tld))" using keys tl_rank_inj by (simp add: distinct_map)
  moreover have "map (tl_rank (tl_order tld)) (tl_keys tld) = map (\<lambda>key. (index_of (fst key) (tl_order tld), snd key)) (tl_keys tld)"
    using keys(2) by (intro map_cong) (auto simp: tl_rank_key)
  ultimately show "sorted_wrt (<) (map (\<lambda>key. (index_of (fst key) (tl_order tld), snd key)) (tl_keys tld))"
    by (simp add: strict_sorted_iff)
qed

lemma rows_at_keys:
  assumes "timeline_wf tld" and "dict_get tld key = Some trials"
  shows "rows_at tld key tr \<noteq> [] \<longleftrightarrow> tr \<in> set (keys trials)" and "trials \<noteq> []"
proof -
  have ok: "trials \<noteq> [] \<and> list_all (\<lambda>(tr, rs). rs \<noteq> []) trials"
    using assms by (fastforce simp: timeline_wf_def list_all_iff dest: map_of_SomeD)
  then show "trials \<noteq> []" by simp
  show "rows_at tld key tr \<noteq> [] \<longleftrightarrow> tr \<in> set (keys trials)"
  proof (cases "dict_get trials tr")
    case None
    then have "rows_at tld key tr = []" using assms(2) by (simp add: rows_at_def)
    moreover have "tr \<notin> set (keys trials)" using None by (simp add: map_of_eq_None_iff)
    ultimately show ?thesis by simp
  next
    case (Some rs)
    then have "(tr, rs) \<in> set trials" by (rule map_of_SomeD)
    then show ?thesis using Some assms(2) ok by (force simp: rows_at_def list_all_iff)
  qed
qed

text \<open>The trial a card shows.\<close>

definition lowest_trial :: "timeline \<Rightarrow> string \<times> int \<Rightarrow> int \<Rightarrow> bool" where
  "lowest_trial tld key tr \<longleftrightarrow> rows_at tld key tr \<noteq> [] \<and> {tr'. rows_at tld key tr' \<noteq> [] \<and> tr' < tr} = {}"

lemma tl_card_shows:
  assumes "timeline_wf tld" and "key \<in> set (keys tld)"
  obtains tr where "lowest_trial tld key tr"
    and "tl_card tld key = bindE (timeline_svg (fst key) (snd key) (rows_at tld key tr)) (\<lambda>svg. Inr (card_html tr svg))"
proof -
  obtain trials where t: "dict_get tld key = Some trials" using assms(2) by (metis map_of_eq_None_iff not_Some_eq set_map)
  note r = rows_at_keys [OF assms(1) t]
  define tr where "tr = Min (fst ` set trials)"
  have tr: "tr \<in> fst ` set trials" using r(2) unfolding tr_def by (intro Min_in) auto
  have rows: "the (dict_get trials tr) = rows_at tld key tr"
    using tr t by (cases "dict_get trials tr") (auto simp: rows_at_def map_of_eq_None_iff)
  have "lowest_trial tld key tr" using tr by (auto simp: lowest_trial_def r(1) tr_def not_less)
  moreover have "tl_card tld key = bindE (timeline_svg (fst key) (snd key) (rows_at tld key tr)) (\<lambda>svg. Inr (card_html tr svg))"
    using t r(2) tr r(1) [of tr] by (simp add: tl_card_def Let_def rows flip: tr_def)
  ultimately show thesis by (rule that)
qed

lemma tl_keys_in_file:
  assumes "load_timeline text = Inr tld"
  shows "set (keys tld) = {key. \<exists>tr. \<exists>row \<in> set (dict_reader (universal_newlines text)). in_trial key tr row}"
proof -
  have "key \<in> set (keys tld) \<longleftrightarrow> (\<exists>tr. rows_at tld key tr \<noteq> [])" for key
  proof (cases "dict_get tld key")
    case None
    then have "rows_at tld key tr = []" for tr by (simp add: rows_at_def)
    then show ?thesis using None by (simp add: map_of_eq_None_iff)
  next
    case (Some trials)
    have wf: "timeline_wf tld" using load_timeline_rows [OF assms] by blast
    have "\<exists>tr. tr \<in> set (keys trials)" using rows_at_keys(2) [OF wf Some] by (cases trials) auto
    moreover have "key \<in> set (keys tld)" using Some by (metis map_of_eq_None_iff option.distinct(1) set_map)
    ultimately show ?thesis using rows_at_keys(1) [OF wf Some] by blast
  qed
  moreover have "rows_at tld key tr \<noteq> [] \<longleftrightarrow> (\<exists>row \<in> set (dict_reader (universal_newlines text)). in_trial key tr row)" for key tr
  proof -
    have "set (rows_at tld key tr) = set (filter (in_trial key tr) (dict_reader (universal_newlines text)))"
      using load_timeline_rows [OF assms, of key tr] by (simp only: set_sort)
    then show ?thesis by (cases "rows_at tld key tr") auto
  qed
  ultimately show ?thesis by blast
qed



end
