(* ===== verification/Report_Page.thy ===== *)
theory Report_Page
  imports Report_Html Report_Assets
begin

text \<open>
  The page as a whole (\<open>runner/plot.py\<close>): \<open>json.dumps\<close> of the configuration, \<open>build_html\<close> and
  \<open>main\<close>. The text of a float in JSON is its shortest representation that reads back as the
  same binary number; it depends on the binary format and is the argument \<open>float_repr\<close>.
  The file system is a record of answers, \<open>main\<close> returns its outcome with what it did.
\<close>

section \<open>JSON\<close>

datatype jval =
    VInt int
  | VFloat rat
  | VBool bool
  | VStr string
  | VList "jval list"
  | VDict "(string \<times> jval) list"

definition hex_digit :: "nat \<Rightarrow> char" where
  "hex_digit d = (if d < 10 then char_of (48 + d) else char_of (87 + d))"

definition short_escape :: "nat \<Rightarrow> string option" where
  "short_escape n =
     map_of [(34, [CHR 0x22]), (92, [CHR 0x5C]), (10, ''n''), (13, ''r''), (9, ''t''), (12, ''f''), (8, ''b'')] n"

text \<open>Everything outside the printable ASCII range is escaped; \<open><\<close> and \<open>/\<close> are not.\<close>

definition json_char :: "char \<Rightarrow> string" where
  "json_char c =
     (case short_escape (ord c) of
        Some e \<Rightarrow> CHR 0x5C # e
      | None \<Rightarrow>
          if 32 \<le> ord c \<and> ord c \<le> 126 then [c]
          else CHR 0x5C # ''u00'' @ [hex_digit (ord c div 16), hex_digit (ord c mod 16)])"

definition json_str :: "string \<Rightarrow> string" where
  "json_str s = [quotechar] @ concat (map json_char s) @ [quotechar]"

fun json_dumps :: "(rat \<Rightarrow> string) \<Rightarrow> jval \<Rightarrow> string" where
  "json_dumps float_repr (VInt n) = py_str n"
| "json_dumps float_repr (VFloat x) = float_repr x"
| "json_dumps float_repr (VBool b) = (if b then ''true'' else ''false'')"
| "json_dumps float_repr (VStr s) = json_str s"
| "json_dumps float_repr (VList vs) = ''['' @ join '', '' (map (json_dumps float_repr) vs) @ '']''"
| "json_dumps float_repr (VDict kvs) =
     ''{'' @ join '', '' (map (\<lambda>(k, v). json_str k @ '': '' @ json_dumps float_repr v) kvs) @ ''}''"

section \<open>The page\<close>

definition GEOM :: jval where
  "GEOM = VDict [(''W'', VInt WIDTH), (''H'', VInt HEIGHT), (''M'' @ ''L'', VInt M_LEFT), (''MR'', VInt M_RIGHT),
                 (''MT'', VInt M_TOP), (''MB'', VInt M_BOTTOM)]"

definition points_val :: "points \<Rightarrow> jval" where
  "points_val pts = VList (map (\<lambda>(c, v). VList [VInt c, VFloat v]) pts)"

definition chart_val :: "chart \<Rightarrow> jval" where
  "chart_val ch =
     VDict [(''field'', VStr (c_field ch)), (''title'', VStr (c_title ch)), (''ylabel'', VStr (c_ylabel ch)),
            (''spec'', VDict [(''d'', VInt (int (fst (c_spec ch)))), (''c'', VBool (snd (c_spec ch)))])]"

definition page_cfg :: "data \<Rightarrow> string list \<Rightarrow> int list \<Rightarrow> jval" where
  "page_cfg d servers all_conns =
     VDict
      [(''geom'', GEOM),
       (''conns'', VList (map VInt all_conns)),
       (''servers'', VList (map VStr servers)),
       (''slot'', VDict (dict_of (map (\<lambda>s. (s, VInt (slot_of s))) servers))),
       (''series'', VDict (map_vals (\<lambda>by_server. VDict (map_vals points_val by_server)) (series_json d servers all_conns))),
       (''charts'', VList (map chart_val CHARTS))]"

definition cfg_mark :: string where
  "cfg_mark = ''__CFG__''"

definition build_html ::
  "(rat \<Rightarrow> string) \<Rightarrow> data \<Rightarrow> string list \<Rightarrow> int list \<Rightarrow> string \<Rightarrow> timeline option \<Rightarrow> string option \<Rightarrow> string py" where
  \<open>build_html float_repr d servers all_conns src tl_data tl_src =
     (let js = str_replace cfg_mark (json_dumps float_repr (page_cfg d servers all_conns)) JS;
          sat = saturation_body d servers all_conns src
      in bindE (timeline_body tl_data (case tl_src of Some (c # p) \<Rightarrow> c # p | _ \<Rightarrow> src)) (\<lambda>tld.
      Inr (join [LF]
        [''<!doctype html><html lang="en"><head><meta charset="utf-8">'',
         ''<meta name="viewport" content="width=device-width,initial-scale=1">'',
         ''<title>game-bench '' @ em_dash @ '' report</title><style>'' @ CSS @ ''</style></head>'',
         ''<body><div class="wrap">'',
         ''<h1>game-bench</h1>'',
         ''<div class="tabs" role="tablist" aria-label="Views">'',
         ''<button class="tab" role="tab" id="tab-sat" aria-controls="panel-sat" aria-selected="true">Saturation curves</button>'',
         ''<button class="tab" role="tab" id="tab-tl" aria-controls="panel-tl" aria-selected="false">Latency over time</button>'',
         ''</div>'',
         ''<section id="panel-sat" role="tabpanel" aria-labelledby="tab-sat">'' @ sat @ ''</section>'',
         ''<section id="panel-tl" role="tabpanel" aria-labelledby="tab-tl" hidden>'' @ tld @ ''</section>'',
         ''</div>'',
         ''<script>'' @ js @ ''</script>'',
         ''<script>'' @ TAB_JS @ ''</script>'',
         ''</body></html>''])))\<close>

section \<open>The program\<close>

record file_system =
  cwd :: string
  fs_read :: "string \<Rightarrow> string py"
  fs_exists :: "string \<Rightarrow> bool"
  fs_makedirs :: "string \<Rightarrow> unit py"
  fs_write :: "string \<Rightarrow> unit py"

datatype effect = MadeDir string | Wrote string string

definition default_csv :: "string \<Rightarrow> string" where
  "default_csv base = path_join (path_join base ''results'') ''results.csv''"

definition default_out :: "string \<Rightarrow> string" where
  "default_out base = path_join (path_join base ''results'') ''report.html''"

definition timeline_path :: "string \<Rightarrow> string \<Rightarrow> string" where
  "timeline_path dir csv = path_join (dirname (abspath dir csv)) ''timeline.csv''"

text \<open>Reading: everything before the first effect on the file system.\<close>

definition report_read :: "file_system \<Rightarrow> string \<Rightarrow> (data \<times> string list \<times> int list \<times> timeline option) py" where
  "report_read fs csv =
     bindE (bindE (fs_read fs csv) load) (\<lambda>(d, servers, all_conns).
     if servers = [] \<or> all_conns = [] then Inl (SystemExit 1)
     else
       let tl_csv = timeline_path (cwd fs) csv
       in if fs_exists fs tl_csv
          then bindE (bindE (fs_read fs tl_csv) load_timeline) (\<lambda>tld. Inr (d, servers, all_conns, Some tld))
          else Inr (d, servers, all_conns, None))"

text \<open>The result on success is what the last line prints: servers, load levels, timelines.\<close>

definition report_main ::
  "(rat \<Rightarrow> string) \<Rightarrow> file_system \<Rightarrow> string \<Rightarrow> string \<Rightarrow> (nat \<times> nat \<times> nat) py \<times> effect list" where
  "report_main float_repr fs csv out =
     (case bindE (report_read fs csv) (\<lambda>(d, servers, all_conns, tl_data).
             bindE (build_html float_repr d servers all_conns csv tl_data (Some (timeline_path (cwd fs) csv))) (\<lambda>html.
             Inr (html, length servers, length all_conns, case tl_data of Some tld \<Rightarrow> length tld | None \<Rightarrow> 0))) of
        Inl e \<Rightarrow> (Inl e, [])
      | Inr (html, counts) \<Rightarrow>
          if dirname out = [] then (Inl FileNotFoundError, [])
          else
            (case fs_makedirs fs (dirname out) of
               Inl e \<Rightarrow> (Inl e, [])
             | Inr _ \<Rightarrow>
                 (case fs_write fs out of
                    Inl e \<Rightarrow> (Inl e, [MadeDir (dirname out)])
                  | Inr _ \<Rightarrow> (Inr counts, [MadeDir (dirname out), Wrote out html]))))"

section \<open>Where the data goes\<close>

abbreviation no_underscore :: "string \<Rightarrow> bool" where
  "no_underscore \<equiv> list_all (\<lambda>c. c \<noteq> CHR ''_'')"

lemma no_underscore_join: "no_underscore sep \<Longrightarrow> list_all no_underscore ss \<Longrightarrow> no_underscore (join sep ss)"
  by (induction sep ss rule: join.induct) auto

lemma replace_free: "no_underscore s \<Longrightarrow> str_replace cfg_mark new s = s"
  by (induction s) (auto simp: startswith_def cfg_mark_def)

lemma replace_once:
  "no_underscore a \<Longrightarrow> no_underscore b \<Longrightarrow> str_replace cfg_mark new (a @ cfg_mark @ b) = a @ new @ b"
proof (induction a)
  case Nil
  then show ?case using replace_free [of b new] by (simp add: cfg_mark_def startswith_def)
next
  case (Cons c a)
  then show ?case by (auto simp: startswith_def cfg_mark_def)
qed

text \<open>The script up to the data and from there on.\<close>

definition js_before :: string where
  "js_before = [LF] @ ''(function(){'' @ [LF] @ ''  var CFG = ''"

definition js_after :: string where
  "js_after = '';'' @ [LF] @ join [LF] (drop 3 JS_lines)"

lemma JS_split: "JS = js_before @ cfg_mark @ js_after"
proof -
  have three: "take 3 JS_lines = [[], ''(function(){'', ''  var CFG = '' @ cfg_mark @ '';'']"
    by (simp add: JS_lines_def cfg_mark_def)
  have "length JS_lines = 126" by (simp add: JS_lines_def)
  then obtain l ls where rest: "drop 3 JS_lines = l # ls" by (cases "drop 3 JS_lines") auto
  have "JS_lines = take 3 JS_lines @ drop 3 JS_lines" by simp
  then have "JS = join [LF] ([] # ''(function(){'' # (''  var CFG = '' @ cfg_mark @ '';'') # l # ls)"
    unfolding JS_def three rest by simp
  then show ?thesis by (simp add: js_before_def js_after_def rest)
qed

lemma no_underscore_after: "no_underscore js_after"
proof -
  have "list_all no_underscore (drop 3 JS_lines)" by (simp add: JS_lines_def)
  then show ?thesis by (simp add: js_after_def no_underscore_join)
qed

lemma page_script: "str_replace cfg_mark new JS = js_before @ new @ js_after"
  unfolding JS_split using no_underscore_after by (intro replace_once) (simp_all add: js_before_def)

section \<open>Which errors are left\<close>

lemma mapE_Inl: "mapE f xs = Inl e \<Longrightarrow> \<exists>x \<in> set xs. f x = Inl e"
  by (induction xs) (auto simp: bindE_eq_Inl)

lemma foldE_Inl: "foldE f xs s = Inl e \<Longrightarrow> \<exists>x \<in> set xs. \<exists>t. f x t = Inl e"
  by (induction xs arbitrary: s) (auto simp: bindE_eq_Inl)

lemma col_float_errors: "col_float r field = Inl e \<Longrightarrow> e \<in> {KeyError, TypeError, ValueError, OutOfModel}"
  by (auto simp: col_float_def row_get_def cell_float_def py_float_def Let_def bindE_eq_Inl
      split: option.splits if_splits prod.splits)

lemma caught_errors: "caught (col_float r field) = Inl e \<Longrightarrow> e \<in> {TypeError, OutOfModel}"
  using col_float_errors [of r field e] by (auto simp: caught_def split: sum.splits if_splits)

text \<open>An error of a chart is an uncaught error of \<open>float(r[field])\<close> in one of its rows.\<close>

lemma timeline_svg_error_row:
  assumes "timeline_svg server conns rs = Inl e" and "\<forall>r \<in> set rs. col_int r ''t_s'' = Inr (t_of r)"
  shows "\<exists>r \<in> set rs. \<exists>field \<in> fst ` set TL_SERIES. caught (col_float r field) = Inl e"
proof -
  have "mapE (\<lambda>r. col_int r ''t_s'') rs = Inr (map t_of rs)" using assms(2) by (intro mapE_Inr) auto
  then have "max_t rs \<noteq> Inl e" by (simp add: max_t_def)
  then consider "max_v rs = Inl e" | field where "field \<in> fst ` set TL_SERIES" "tl_points rs field = Inl e"
    using assms(1) by (force simp: timeline_svg_def Let_def bindE_eq_Inl dest!: mapE_Inl)
  then show ?thesis
  proof cases
    case 1
    then show ?thesis unfolding max_v_def by (force simp: bindE_eq_Inl dest!: foldE_Inl)
  next
    case 2
    then obtain r where r: "r \<in> set rs" "caught (bindE (col_float r field) (\<lambda>v. Inr (t_of r, v))) = Inl e"
      using assms(2) by (auto simp: tl_points_def bindE_eq_Inl dest!: mapE_Inl)
    then have "caught (col_float r field) = Inl e" by (cases "col_float r field") (auto simp: caught_def split: if_splits)
    then show ?thesis using r(1) 2(1) by blast
  qed
qed

lemma timeline_body_error_row:
  assumes "timeline_body (Some tld) name = Inl e" and "load_timeline src = Inr tld"
  shows "\<exists>r \<in> set (dict_reader (universal_newlines src)). \<exists>field \<in> fst ` set TL_SERIES. caught (col_float r field) = Inl e"
proof -
  have err: "mapE (tl_card tld) (tl_keys tld) = Inl e"
    using assms(1) by (auto simp: timeline_body_def bindE_eq_Inl split: list.splits)
  have wf: "timeline_wf tld" using load_timeline_rows [OF assms(2)] by blast
  obtain key where key: "key \<in> set (keys tld)" "tl_card tld key = Inl e"
    using mapE_Inl [OF err] tl_keys_sorted(2) [OF wf] by blast
  obtain tr where "tl_card tld key = bindE (timeline_svg (fst key) (snd key) (rows_at tld key tr)) (\<lambda>svg. Inr (card_html tr svg))"
    using tl_card_shows [OF wf key(1)] by blast
  then have svg: "timeline_svg (fst key) (snd key) (rows_at tld key tr) = Inl e" using key(2)
    by (cases "timeline_svg (fst key) (snd key) (rows_at tld key tr)") simp_all
  have "set (rows_at tld key tr) \<subseteq> set (dict_reader (universal_newlines src))"
    using load_timeline_rows [OF assms(2), of key tr] by (simp add: filter_is_subset)
  moreover have "\<exists>r \<in> set (rows_at tld key tr). \<exists>field \<in> fst ` set TL_SERIES. caught (col_float r field) = Inl e"
    by (rule timeline_svg_error_row [OF svg]) (use load_timeline_seconds [OF assms(2), of _ key tr] in blast)
  ultimately show ?thesis by blast
qed

lemma timeline_body_errors:
  assumes "timeline_body tl_data name = Inl e" and "\<And>tld. tl_data = Some tld \<Longrightarrow> \<exists>text. load_timeline text = Inr tld"
  shows "e \<in> {TypeError, OutOfModel}"
proof -
  obtain tld where "tl_data = Some tld" using assms(1) by (cases tl_data) (auto simp: timeline_body_def)
  then show ?thesis using assms timeline_body_error_row caught_errors by blast
qed


text \<open>An output path without a directory part never works: \<open>os.makedirs\<close> refuses the empty name.\<close>

lemma dirname_bare: "CHR ''/'' \<notin> set out \<Longrightarrow> dirname out = []"
  by (simp add: dirname_def rfind_def)

lemma bare_output_fails:
  assumes "CHR ''/'' \<notin> set out"
  shows "snd (report_main float_repr fs csv out) = [] \<and> (\<exists>e. fst (report_main float_repr fs csv out) = Inl e)"
  using dirname_bare [OF assms] by (auto simp: report_main_def split: sum.splits prod.splits)

text \<open>The text of a server name goes into the script as it is, the end tag of the script included.\<close>

lemma json_keeps_end_tag: "json_str ''</script>'' = [quotechar] @ ''</script>'' @ [quotechar]"
  by (simp add: json_str_def json_char_def short_escape_def)

end
