(* ===== verification/Report_Client.thy ===== *)
theory Report_Client
  imports Report_Page
begin

text \<open>
  The client-side renderer that \<open>runner/plot.py\<close> embeds in the page: number formats, the
  horizontal and vertical scale, \<open>render\<close>, and the legend that hides and shows servers. The
  script's variables are the record \<open>client\<close> (the data, fixed) and the set \<open>hidden\<close>; what
  it changes in the document is the record \<open>view\<close>. \<open>Number.toString\<close> for values from
  \<open>10 ^ 21\<close> on is the argument \<open>num_str\<close>. Server names that are members of JavaScript's
  \<open>Object.prototype\<close> are not considered.
\<close>

section \<open>Definitions\<close>

record client =
  cl_conns :: "int list"
  cl_servers :: "string list"
  cl_slot :: "(string, int) dict"
  cl_series :: "(string, (string, points) dict) dict"
  cl_charts :: "chart list"

definition client_of :: "data \<Rightarrow> string list \<Rightarrow> int list \<Rightarrow> client" where
  "client_of d servers all_conns =
     \<lparr>cl_conns = all_conns, cl_servers = servers, cl_slot = dict_of (map (\<lambda>s. (s, slot_of s)) servers),
      cl_series = series_json d servers all_conns, cl_charts = CHARTS\<rparr>"

definition js_esc :: "string \<Rightarrow> string" where
  "js_esc s = str_replace ''>'' ''&gt;'' (str_replace ''<'' ''&lt;'' (str_replace ''&'' ''&amp;'' s))"

definition niceMax :: "rat \<Rightarrow> rat" where
  "niceMax v =
     (if v \<le> 0 then 1
      else
        (let e = floor_log10 v;
             f = v / pow10 e;
             nf = (if f \<le> 1 then 1 else if f \<le> 2 then 2 else if f \<le> 5 then 5 else 10)
         in nf * pow10 e))"

definition xpos :: "nat \<Rightarrow> nat \<Rightarrow> rat" where
  "xpos i n = (if n \<le> 1 then of_int X0 else of_int X0 + of_int ((X1 - X0) * int i) / of_int (int n - 1))"

definition xi :: "int list \<Rightarrow> (int, nat) dict" where
  "xi conns = dict_of (zip conns [0 ..< length conns])"

text \<open>Every point of a series is at one of \<open>conns\<close>, so the lookup never fails (lemma \<open>series_in_conns\<close>).\<close>

definition js_X :: "int list \<Rightarrow> int \<Rightarrow> rat" where
  "js_X conns c = (case dict_get (xi conns) c of Some i \<Rightarrow> xpos i (length conns) | None \<Rightarrow> of_int X0)"

definition pts_of :: "client \<Rightarrow> string \<Rightarrow> string \<Rightarrow> points" where
  "pts_of cl field s = series_at (cl_series cl) field s"

definition visible :: "client \<Rightarrow> string set \<Rightarrow> string \<Rightarrow> string list" where
  "visible cl hidden field = filter (\<lambda>s. s \<notin> hidden \<and> pts_of cl field s \<noteq> []) (cl_servers cl)"

definition vmax_of :: "client \<Rightarrow> string set \<Rightarrow> string \<Rightarrow> rat" where
  "vmax_of cl hidden field =
     fold (\<lambda>s m. fold (\<lambda>p m. if snd p > m then snd p else m) (pts_of cl field s) m) (visible cl hidden field) 0"

definition ymax_of :: "client \<Rightarrow> string set \<Rightarrow> string \<Rightarrow> rat" where
  "ymax_of cl hidden field = (let vmax = vmax_of cl hidden field in if vmax > 0 then niceMax vmax else 1)"

definition js_slot :: "client \<Rightarrow> string \<Rightarrow> int" where
  "js_slot cl s = (case dict_get (cl_slot cl) s of Some k \<Rightarrow> if k = 0 then 1 else k | None \<Rightarrow> 1)"

definition js_grid :: "(rat \<Rightarrow> string) \<Rightarrow> nat \<times> bool \<Rightarrow> rat \<Rightarrow> nat \<Rightarrow> string" where
  \<open>js_grid num_str spec ymax k =
     (let v = ymax * of_nat k / 5; y = axis_Y ymax v
      in concat
        [''<line x1="'', py_str X0, ''" y1="'', to_fixed num_str 1 y, ''" x2="'', py_str X1, ''" y2="'', to_fixed num_str 1 y,
         ''" class="grid"/>'',
         ''<text x="'', py_str (X0 - 10), ''" y="'', to_fixed num_str 1 (y + 4), ''" class="tick tick-y">'',
         js_fmt num_str spec v, ''</text>''])\<close>

definition js_tick :: "(rat \<Rightarrow> string) \<Rightarrow> int list \<Rightarrow> int \<Rightarrow> string" where
  \<open>js_tick num_str conns c =
     concat [''<text x="'', to_fixed num_str 1 (js_X conns c), ''" y="'', py_str (Y0 + 22), ''" class="tick tick-x">'',
             js_fmt num_str (0, True) (of_int c), ''</text>'']\<close>

definition js_path :: "(rat \<Rightarrow> string) \<Rightarrow> (rat \<times> rat) list \<Rightarrow> string" where
  "js_path num_str xys =
     join '' '' (map (\<lambda>(i, x, y). (if i = 0 then ''M'' else ''L'') @ to_fixed num_str 1 x @ '','' @ to_fixed num_str 1 y)
                  (zip [0 ..< length xys] xys))"

definition js_marker :: "(rat \<Rightarrow> string) \<Rightarrow> client \<Rightarrow> chart \<Rightarrow> rat \<Rightarrow> string \<Rightarrow> string \<Rightarrow> int \<times> rat \<Rightarrow> string" where
  \<open>js_marker num_str cl ch ymax col s p =
     concat
       [''<circle cx="'', to_fixed num_str 1 (js_X (cl_conns cl) (fst p)), ''" cy="'', to_fixed num_str 1 (axis_Y ymax (snd p)),
        ''" r="4" fill="'', col, ''" stroke="var(--surface-1)" stroke-width="1.5"><title>'', js_esc s, '' @ '',
        js_fmt num_str (0, True) (of_int (fst p)), '' conns: '', js_fmt num_str (c_spec ch) (snd p), '' '',
        js_esc (c_ylabel ch), ''</title></circle>'']\<close>

definition js_curve :: "(rat \<Rightarrow> string) \<Rightarrow> client \<Rightarrow> chart \<Rightarrow> rat \<Rightarrow> string \<Rightarrow> string" where
  \<open>js_curve num_str cl ch ymax s =
     (let col = ''var(--series-'' @ py_str (js_slot cl s) @ '')'';
          pts = pts_of cl (c_field ch) s;
          ly = axis_Y ymax (snd (last pts))
      in concat
        [''<path d="'', js_path num_str (map (\<lambda>p. (js_X (cl_conns cl) (fst p), axis_Y ymax (snd p))) pts),
         ''" fill="none" stroke="'', col, ''" stroke-width="2" stroke-linejoin="round" stroke-linecap="round"/>'',
         concat (map (js_marker num_str cl ch ymax col s) pts),
         ''<circle cx="'', py_str (X1 + 14), ''" cy="'', to_fixed num_str 1 ly, ''" r="4" fill="'', col, ''"/>'',
         ''<text x="'', py_str (X1 + 24), ''" y="'', to_fixed num_str 1 (ly + 4), ''" class="direct-label">'', js_esc s, ''</text>''])\<close>

text \<open>\<open>(Y0+Y1)/2\<close> and \<open>(X0+X1)/2\<close> are whole numbers and print without a decimal point.\<close>

definition render :: "(rat \<Rightarrow> string) \<Rightarrow> client \<Rightarrow> string set \<Rightarrow> chart \<Rightarrow> string" where
  \<open>render num_str cl hidden ch =
     (let ymax = ymax_of cl hidden (c_field ch)
      in concat
        [''<svg viewBox="0 0 '', py_str WIDTH, '' '', py_str HEIGHT, ''" class="chart" role="img" aria-label="'',
         js_esc (c_title ch), ''" preserveAspectRatio="xMidYMid meet">'',
         ''<text x="'', py_str M_LEFT, ''" y="24" class="c-title">'', js_esc (c_title ch), ''</text>'',
         concat (map (js_grid num_str (c_spec ch) ymax) [0 ..< 6]),
         ''<text class="axis-label" transform="translate(18,'', py_str ((Y0 + Y1) div 2), '') rotate(-90)">'',
         js_esc (c_ylabel ch), ''</text>'',
         concat (map (js_tick num_str (cl_conns cl)) (cl_conns cl)),
         ''<text x="'', py_str ((X0 + X1) div 2), ''" y="'', py_str (HEIGHT - 8),
         ''" class="axis-label">connections (offered load)</text>'',
         ''<line x1="'', py_str X0, ''" y1="'', py_str Y0, ''" x2="'', py_str X1, ''" y2="'', py_str Y0, ''" class="baseline"/>'',
         concat (map (js_curve num_str cl ch ymax) (visible cl hidden (c_field ch))),
         ''</svg>''])\<close>

text \<open>The parts of the document the script writes: charts, legend buttons, rows of the table.\<close>

record view =
  v_charts :: "string list"
  v_pressed :: "(string \<times> bool) list"
  v_all_hidden :: bool
  v_dim :: "(string \<times> bool) list"

definition renderAll :: "(rat \<Rightarrow> string) \<Rightarrow> client \<Rightarrow> string set \<Rightarrow> view \<Rightarrow> view" where
  "renderAll num_str cl hidden v = v\<lparr>v_charts := map (render num_str cl hidden) (cl_charts cl)\<rparr>"

definition syncTable :: "string set \<Rightarrow> view \<Rightarrow> view" where
  "syncTable hidden v = v\<lparr>v_dim := map (\<lambda>(s, _). (s, s \<in> hidden)) (v_dim v)\<rparr>"

definition refresh :: "(rat \<Rightarrow> string) \<Rightarrow> client \<Rightarrow> string set \<Rightarrow> view \<Rightarrow> view" where
  "refresh num_str cl hidden v =
     syncTable hidden (renderAll num_str cl hidden
       (v\<lparr>v_pressed := map (\<lambda>(s, _). (s, s \<notin> hidden)) (v_pressed v), v_all_hidden := (hidden = {})\<rparr>))"

text \<open>A click on the legend: the button for all, a server's button, or beside the buttons.\<close>

datatype click = ClickShowAll | ClickServer string | ClickBeside

fun on_click :: "(rat \<Rightarrow> string) \<Rightarrow> client \<Rightarrow> click \<Rightarrow> string set \<times> view \<Rightarrow> string set \<times> view" where
  "on_click num_str cl ClickShowAll (hidden, v) = ({}, refresh num_str cl {} v)"
| "on_click num_str cl (ClickServer s) (hidden, v) =
     (if s = [] then (hidden, v)
      else
        (let hidden' = (if s \<in> hidden then hidden - {s} else insert s hidden)
         in (hidden', refresh num_str cl hidden' v)))"
| "on_click num_str cl ClickBeside (hidden, v) = (hidden, v)"

text \<open>The document as \<open>build_html\<close> made it, and after the first \<open>renderAll\<close>.\<close>

definition static_view :: "data \<Rightarrow> string list \<Rightarrow> int list \<Rightarrow> view" where
  "static_view d servers all_conns =
     \<lparr>v_charts = map (\<lambda>_. []) CHARTS, v_pressed = map (\<lambda>s. (s, True)) servers, v_all_hidden = True,
      v_dim = concat (map (\<lambda>s. concat (map (\<lambda>c. map (\<lambda>_. (s, False)) (table_row d s c)) all_conns)) servers)\<rparr>"

definition start_page :: "(rat \<Rightarrow> string) \<Rightarrow> data \<Rightarrow> string list \<Rightarrow> int list \<Rightarrow> string set \<times> view" where
  "start_page num_str d servers all_conns =
     ({}, renderAll num_str (client_of d servers all_conns) {} (static_view d servers all_conns))"

text \<open>The tab switcher: a click on a tab selects it and shows its panel only.\<close>

record tab =
  tab_id :: string
  aria_selected :: bool
  panel_hidden :: bool

definition sel :: "string \<Rightarrow> tab list \<Rightarrow> tab list" where
  "sel i tabs = map (\<lambda>t. t\<lparr>aria_selected := (tab_id t = i), panel_hidden := (tab_id t \<noteq> i)\<rparr>) tabs"

definition page_tabs :: "tab list" where
  "page_tabs = [\<lparr>tab_id = ''tab-sat'', aria_selected = True, panel_hidden = False\<rparr>,
                \<lparr>tab_id = ''tab-tl'', aria_selected = False, panel_hidden = True\<rparr>]"

text \<open>However the reader switches, exactly the selected tab has its panel shown, and there is one.\<close>

lemma sel_fold: "fold sel (clicks @ [i]) tabs = sel i tabs"
proof (induction clicks arbitrary: tabs)
  case (Cons j clicks)
  then show ?case by (simp add: sel_def comp_def)
qed simp

lemma one_panel_shown:
  assumes "set clicks \<subseteq> tab_id ` set page_tabs"
  shows "map tab_id (filter (\<lambda>t. \<not> panel_hidden t) (fold sel clicks page_tabs)) = [last (''tab-sat'' # clicks)]"
    and "list_all (\<lambda>t. aria_selected t = (\<not> panel_hidden t)) (fold sel clicks page_tabs)"
proof -
  have "map tab_id (filter (\<lambda>t. \<not> panel_hidden t) (fold sel clicks page_tabs)) = [last (''tab-sat'' # clicks)] \<and>
      list_all (\<lambda>t. aria_selected t = (\<not> panel_hidden t)) (fold sel clicks page_tabs)"
  proof (cases clicks rule: rev_cases)
    case Nil
    then show ?thesis by (simp add: page_tabs_def)
  next
    case (snoc js i)
    then have "i = ''tab-sat'' \<or> i = ''tab-tl''" using assms by (auto simp: page_tabs_def)
    then show ?thesis unfolding snoc sel_fold by (auto simp: sel_def page_tabs_def)
  qed
  then show "map tab_id (filter (\<lambda>t. \<not> panel_hidden t) (fold sel clicks page_tabs)) = [last (''tab-sat'' # clicks)]"
    and "list_all (\<lambda>t. aria_selected t = (\<not> panel_hidden t)) (fold sel clicks page_tabs)" by auto
qed

section \<open>The view follows the clicks\<close>

text \<open>What the document should show when the servers in \<open>hidden\<close> are hidden.\<close>

definition page_view :: "(rat \<Rightarrow> string) \<Rightarrow> data \<Rightarrow> string list \<Rightarrow> int list \<Rightarrow> string set \<Rightarrow> view" where
  "page_view num_str d servers all_conns hidden =
     \<lparr>v_charts = map (render num_str (client_of d servers all_conns) hidden) CHARTS,
      v_pressed = map (\<lambda>s. (s, s \<notin> hidden)) servers,
      v_all_hidden = (hidden = {}),
      v_dim = concat (map (\<lambda>s. concat (map (\<lambda>c. map (\<lambda>_. (s, s \<in> hidden)) (table_row d s c)) all_conns)) servers)\<rparr>"

text \<open>Hidden are the servers clicked an odd number of times since everything was last shown.\<close>

definition toggled :: "click list \<Rightarrow> string set" where
  "toggled evs = {s. s \<noteq> [] \<and> odd (count_list (takeWhile (\<lambda>e. e \<noteq> ClickShowAll) (rev evs)) (ClickServer s))}"

lemma toggled_snoc:
  "toggled [] = {}"
  "toggled (evs @ [ClickShowAll]) = {}"
  "toggled (evs @ [ClickBeside]) = toggled evs"
  "toggled (evs @ [ClickServer s]) =
    (if s = [] then toggled evs else if s \<in> toggled evs then toggled evs - {s} else insert s (toggled evs))"
  by (auto simp: toggled_def)

lemma refresh_page_view:
  "refresh num_str (client_of d servers conns) hidden' (page_view num_str d servers conns hidden) =
    page_view num_str d servers conns hidden'"
  by (simp add: refresh_def syncTable_def renderAll_def page_view_def client_of_def map_concat comp_def)

lemma start_page_view: "start_page num_str d servers conns = ({}, page_view num_str d servers conns {})"
  by (simp add: start_page_def renderAll_def static_view_def page_view_def client_of_def)


section \<open>The scale of the charts\<close>

lemma niceMax_nice_max: "niceMax v = nice_max v"
  by (simp add: niceMax_def nice_max_def)

interpretation script_axis: value_axis niceMax
  unfolding niceMax_nice_max [abs_def] by (rule page_axis.value_axis_axioms)

lemma fold_max_points:
  fixes ps :: points and m :: rat
  defines "m' \<equiv> fold (\<lambda>p m. if snd p > m then snd p else m) ps m"
  shows "m \<le> m' \<and> (\<forall>p \<in> set ps. snd p \<le> m') \<and> (m' = m \<or> m' \<in> snd ` set ps)"
  unfolding m'_def
proof (induction ps arbitrary: m)
  case (Cons p ps)
  show ?case using Cons [of "if snd p > m then snd p else m"] by (auto split: if_splits)
qed simp

lemma fold_max_servers:
  fixes pts :: "string \<Rightarrow> points"
  defines "f \<equiv> \<lambda>s m. fold (\<lambda>p m. if snd p > m then snd p else m) (pts s) m"
  shows "m \<le> fold f ss m \<and> (\<forall>s \<in> set ss. \<forall>p \<in> set (pts s). snd p \<le> fold f ss m) \<and>
    (fold f ss m = m \<or> (\<exists>s \<in> set ss. fold f ss m \<in> snd ` set (pts s)))"
proof (induction ss arbitrary: m)
  case (Cons s ss)
  have "m \<le> f s m \<and> (\<forall>p \<in> set (pts s). snd p \<le> f s m) \<and> (f s m = m \<or> f s m \<in> snd ` set (pts s))"
    unfolding f_def by (rule fold_max_points)
  note one = this
  define w where "w = fold f ss (f s m)"
  have all: "f s m \<le> w" "\<forall>s \<in> set ss. \<forall>p \<in> set (pts s). snd p \<le> w"
    "w = f s m \<or> (\<exists>s \<in> set ss. w \<in> snd ` set (pts s))"
    using Cons [of "f s m"] unfolding w_def by blast+
  have "m \<le> w" "\<forall>p \<in> set (pts s). snd p \<le> w" using one all(1) by (meson order_trans)+
  moreover have "w = m \<or> (\<exists>s' \<in> set (s # ss). w \<in> snd ` set (pts s'))" using one all(3) by auto
  moreover have "fold f (s # ss) m = w" by (simp add: w_def)
  ultimately show ?case using all(2) by simp
qed simp

lemma vmax_props:
  "s \<in> set (visible cl hidden field) \<Longrightarrow> p \<in> set (pts_of cl field s) \<Longrightarrow> snd p \<le> vmax_of cl hidden field"
  "0 < vmax_of cl hidden field \<Longrightarrow> \<exists>s \<in> set (visible cl hidden field). vmax_of cl hidden field \<in> snd ` set (pts_of cl field s)"
  using fold_max_servers [of 0 "pts_of cl field" "visible cl hidden field"] by (auto simp: vmax_of_def)

lemma xpos_range: "i < n \<Longrightarrow> of_int X0 \<le> xpos i n \<and> xpos i n \<le> of_int X1"
proof (cases "n \<le> 1")
  case False
  assume "i < n"
  define q :: rat where "q = of_nat i / of_nat (n - 1)"
  have "0 \<le> q" "q \<le> 1" using False \<open>i < n\<close> by (auto simp: q_def divide_le_eq_1)
  moreover have "xpos i n = 72 + 700 * q" using False by (simp add: xpos_def geometry q_def of_nat_diff)
  moreover have "(of_int X0 :: rat) = 72" "(of_int X1 :: rat) = 772" by (simp_all add: geometry)
  ultimately show ?thesis by linarith
qed (simp add: xpos_def geometry)

lemma js_X_index: "distinct conns \<Longrightarrow> i < length conns \<Longrightarrow> js_X conns (conns ! i) = xpos i (length conns)"
  using map_of_zip_nth [of conns "[0 ..< length conns]" i]
  by (simp add: js_X_def xi_def get_dict_of)

lemma js_X_range: "distinct conns \<Longrightarrow> c \<in> set conns \<Longrightarrow> of_int X0 \<le> js_X conns c \<and> js_X conns c \<le> of_int X1"
  using js_X_index xpos_range by (metis in_set_conv_nth)

lemma series_in_conns:
  assumes "distinct servers" and "field \<in> set (map c_field CHARTS)" and "p \<in> set (pts_of (client_of d servers conns) field s)"
  shows "fst p \<in> set conns"
  using assms(3) by (auto simp: pts_of_def client_of_def series_at_json [OF assms(1,2)] set_series_points split: if_splits)



section \<open>The numbers of the charts and of the table\<close>

lemma chart_formats: "ch \<in> set CHARTS \<Longrightarrow> c_fmt ch = fmt_fixed (snd (c_spec ch)) (fst (c_spec ch))"
  by (auto simp: CHARTS_def)

text \<open>C32: A chart prints a value the way the data table does, except on an exact tie above an
  even last digit, where Python rounds to even and JavaScript rounds up.\<close>

theorem charts_and_table_agree:
  assumes "ch \<in> set CHARTS" and "\<bar>v\<bar> < 10 ^ 21" and "x = \<bar>v\<bar> * 10 ^ fst (c_spec ch)"
  shows "(js_fmt num_str (c_spec ch) v = c_fmt ch v) = (\<not> (x = of_int \<lfloor>x\<rfloor> + 1 / 2 \<and> even \<lfloor>x\<rfloor>))"
  using js_fmt_eq_fmt_fixed [OF assms(2), of num_str "fst (c_spec ch)" "snd (c_spec ch)"] chart_formats [OF assms(1)] assms(3)
  by simp

theorem charts_and_table_agree_witness:
  "js_fmt (\<lambda>_. []) (0, True) (5 / 2) \<noteq> fmt_fixed True 0 (5 / 2) \<and> js_fmt (\<lambda>_. []) (0, True) (7 / 2) = fmt_fixed True 0 (7 / 2)"
proof -
  have ch: "hd CHARTS \<in> set CHARTS" "c_spec (hd CHARTS) = (0, True)" "c_fmt (hd CHARTS) = fmt_fixed True 0"
    by (simp_all add: CHARTS_def)
  moreover have "\<lfloor>5 / 2 :: rat\<rfloor> = 2" by (simp add: floor_eq_iff)
  ultimately show ?thesis
    using charts_and_table_agree [OF ch(1), of "5 / 2" "5 / 2" "\<lambda>_. []"] charts_and_table_agree [OF ch(1), of "7 / 2" "7 / 2" "\<lambda>_. []"]
    by simp
qed

end
