(* ===== verification/Pipeline.thy ===== *)
theory Pipeline
  imports Bench Report_Client
begin

text \<open>
  From the rows the runner records (\<open>runner/run.py\<close>) through the two CSV files to the report
  (\<open>runner/plot.py\<close>). A cell is written as \<open>str\<close> gives it. For a float that is the shortest
  decimal that reads back as the same binary number; for a value rounded to at most three
  decimals and below \<open>10 ^ 12\<close> (fifteen digits, which binary64 always keeps) it is the value
  itself with at least one decimal, and for other values the text is outside the model. The
  three columns copied from the load generator's JSON without rounding are not read by the
  report; their text is the argument \<open>json_text\<close>.
\<close>

section \<open>Definitions\<close>

definition is_whole :: "rat \<Rightarrow> bool" where
  "is_whole q \<longleftrightarrow> of_int \<lfloor>q\<rfloor> = q"

definition float_str :: "rat \<Rightarrow> string py" where
  "float_str q =
     (if \<bar>q\<bar> \<ge> 10 ^ 12 then Inl OutOfModel
      else if is_whole (q * 10) then Inr (fmt_fixed False 1 q)
      else if is_whole (q * 100) then Inr (fmt_fixed False 2 q)
      else if is_whole (q * 1000) then Inr (fmt_fixed False 3 q)
      else Inl OutOfModel)"

definition cell_text :: "(json \<Rightarrow> string) \<Rightarrow> cell \<Rightarrow> string py" where
  "cell_text json_text c =
     (case c of CStr s \<Rightarrow> Inr s | CInt n \<Rightarrow> Inr (py_str n) | CNum q \<Rightarrow> float_str q | CJson j \<Rightarrow> Inr (json_text j))"

type_synonym result_row = "(string \<times> cell) list"

text \<open>The file \<open>DictWriter\<close> makes of a header and complete rows.\<close>

definition file_text :: "(json \<Rightarrow> string) \<Rightarrow> string list \<Rightarrow> result_row list \<Rightarrow> string py" where
  "file_text json_text header rs =
     bindE (mapE (\<lambda>row. mapE (cell_text json_text) (vals row)) rs) (\<lambda>ts. Inr (csv_text (header # ts)))"

text \<open>A row whose cells have a text, in ASCII and without a carriage return.\<close>

definition plain_text :: "string \<Rightarrow> bool" where
  "plain_text t \<longleftrightarrow> is_ascii t \<and> CR \<notin> set t"

definition clean_row :: "(json \<Rightarrow> string) \<Rightarrow> result_row \<Rightarrow> bool" where
  "clean_row json_text row \<longleftrightarrow>
     list_all (\<lambda>c. case cell_text json_text c of Inr t \<Rightarrow> plain_text t | Inl _ \<Rightarrow> False) (vals row)"

section \<open>Writing and reading a table\<close>

lemma ascii_append: "is_ascii (a @ b) \<longleftrightarrow> is_ascii a \<and> is_ascii b"
  by (simp add: is_ascii_def)

lemma ascii_join: "is_ascii sep \<Longrightarrow> list_all is_ascii ss \<Longrightarrow> is_ascii (join sep ss)"
  by (induction sep ss rule: join.induct) (auto simp: is_ascii_def)

lemma ascii_csv_cell: "is_ascii s \<Longrightarrow> is_ascii (csv_cell s)"
  by (auto simp: is_ascii_def csv_cell_def list_all_iff)

lemma ascii_csv_text: "list_all (list_all is_ascii) rs \<Longrightarrow> is_ascii (csv_text rs)"
proof (induction rs)
  case (Cons r rs)
  have "is_ascii (csv_line r)" if "list_all is_ascii r" for r
  proof -
    have "is_ascii (join [delimiter] (map csv_cell r))"
      using that ascii_csv_cell by (intro ascii_join) (simp add: is_ascii_def, simp add: list.pred_map list_all_iff)
    then show ?thesis by (auto simp: csv_line_def is_ascii_def)
  qed
  then show ?case using Cons by (simp add: csv_text_def ascii_append)
qed (simp add: csv_text_def is_ascii_def)

lemma get_zip_vals: "dict_get (zip (keys row) (map g (vals row))) f = map_option g (dict_get row f)"
  by (induction row) auto

abbreviation cell_str :: "(json \<Rightarrow> string) \<Rightarrow> cell \<Rightarrow> string" where
  "cell_str json_text c \<equiv> projr (cell_text json_text c)"

lemma clean_cells:
  assumes "clean_row json_text row"
  shows "mapE (cell_text json_text) (vals row) = Inr (map (cell_str json_text) (vals row))"
    and "\<forall>c \<in> set (vals row). plain_text (cell_str json_text c) \<and> cell_text json_text c = Inr (cell_str json_text c)"
proof -
  show *: "\<forall>c \<in> set (vals row). plain_text (cell_str json_text c) \<and> cell_text json_text c = Inr (cell_str json_text c)"
  proof
    fix c
    assume "c \<in> set (vals row)"
    then have "case cell_text json_text c of Inr t \<Rightarrow> plain_text t | Inl _ \<Rightarrow> False"
      using assms by (simp only: clean_row_def list_all_iff)
    then show "plain_text (cell_str json_text c) \<and> cell_text json_text c = Inr (cell_str json_text c)"
      by (cases "cell_text json_text c") simp_all
  qed
  show "mapE (cell_text json_text) (vals row) = Inr (map (cell_str json_text) (vals row))"
    using * by (intro mapE_Inr) blast
qed

text \<open>What the reader sees of a row the writer was given.\<close>

definition read_back :: "(json \<Rightarrow> string) \<Rightarrow> result_row \<Rightarrow> csv_row" where
  "read_back json_text row = map_vals (\<lambda>c. Some (cell_str json_text c)) row"

lemma file_round_trip:
  assumes "\<forall>row \<in> set rs. keys row = header \<and> clean_row json_text row"
    and "distinct header" and "header \<noteq> []" and "list_all plain_text header"
  obtains out where "file_text json_text header rs = Inr out" and "is_ascii out"
    and "dict_reader (universal_newlines out) = map (read_back json_text) rs"
proof -
  define ts where "ts = map (\<lambda>row. map (cell_str json_text) (vals row)) rs"
  have "mapE (\<lambda>row. mapE (cell_text json_text) (vals row)) rs = Inr ts" unfolding ts_def
    by (rule mapE_Inr) (use assms(1) clean_cells(1) in simp)
  then have out: "file_text json_text header rs = Inr (csv_text (header # ts))" by (simp add: file_text_def)
  have plain: "\<forall>cells \<in> set (header # ts). \<forall>s \<in> set cells. plain_text s"
  proof (intro ballI)
    fix cells s
    assume "cells \<in> set (header # ts)" and s: "s \<in> set cells"
    then consider "cells = header" | row where "row \<in> set rs" "cells = map (cell_str json_text) (vals row)"
      by (auto simp: ts_def)
    then show "plain_text s"
    proof cases
      case 1
      then show ?thesis using s assms(4) by (simp add: list_all_iff)
    next
      case 2
      then obtain c where "c \<in> set (vals row)" "s = cell_str json_text c" using s by auto
      then show ?thesis using clean_cells(2) [of json_text row] assms(1) 2(1) by blast
    qed
  qed
  have "dict_reader (universal_newlines (csv_text (header # ts))) = map (\<lambda>r. zip header (map Some r)) ts"
    using plain assms(1-3) by (intro read_table) (auto simp: plain_text_def ts_def)
  also have "\<dots> = map (read_back json_text) rs"
  proof -
    have "zip header (map Some (map (cell_str json_text) (vals row))) = read_back json_text row" if "row \<in> set rs" for row
    proof -
      have "header = keys row" using that assms(1) by simp
      then show ?thesis unfolding read_back_def map_vals_def by (simp add: zip_map_map split_def zip_same_conv_map)
    qed
    then show ?thesis by (simp add: ts_def)
  qed
  moreover have "is_ascii (csv_text (header # ts))" using plain
    by (intro ascii_csv_text) (auto simp: list_all_iff plain_text_def)
  ultimately show thesis using that out by simp
qed

lemma col_read_back:
  "row_get (read_back json_text row) k =
    (case dict_get row k of Some c \<Rightarrow> Inr (Some (cell_str json_text c)) | None \<Rightarrow> Inl KeyError)"
  by (auto simp: row_get_def read_back_def split: option.splits)

lemma col_int_read_back: "dict_get row k = Some (CInt n) \<Longrightarrow> col_int (read_back json_text row) k = Inr n"
  by (simp add: col_int_def col_read_back cell_text_def cell_int_def int_of_str)

section \<open>Numbers survive the file\<close>

lemma whole_round_nd: "is_whole (q * 10 ^ d) \<Longrightarrow> round_nd q d = q"
proof -
  assume "is_whole (q * 10 ^ d)"
  then have "of_int (round_even (q * 10 ^ d)) = q * 10 ^ d" unfolding is_whole_def by (metis round_even_int)
  then show ?thesis by (simp add: round_nd_def)
qed

lemma float_of_str: "float_str q = Inr t \<Longrightarrow> py_float t = Inr q"
proof -
  assume t: "float_str q = Inr t"
  then obtain d where d: "is_whole (q * 10 ^ d)" "t = fmt_fixed False d q" and lim: "\<bar>q\<bar> < 10 ^ 12"
    by (auto simp: float_str_def split: if_splits intro: that [of 1] that [of 2] that [of 3])
  have "(10 :: rat) ^ 12 < float_limit" by (simp add: float_limit_def)
  then show ?thesis using float_of_fmt [of q d] whole_round_nd [OF d(1)] d(2) lim by simp
qed

lemma col_float_read_back:
  "dict_get row k = Some (CNum q) \<Longrightarrow> clean_row json_text row \<Longrightarrow> col_float (read_back json_text row) k = Inr q"
proof -
  assume k: "dict_get row k = Some (CNum q)" and "clean_row json_text row"
  then have "cell_text json_text (CNum q) = Inr (cell_str json_text (CNum q))"
    using clean_cells(2) by (metis (no_types, lifting) map_of_SomeD image_eqI set_map snd_conv)
  then show ?thesis using k float_of_str by (simp add: col_float_def col_read_back cell_text_def cell_float_def)
qed

section \<open>The rows of the runner\<close>

lemma build_dict_get:
  "build_dict items = Inr row \<Longrightarrow> dict_get items k = Some m \<Longrightarrow> \<exists>c. m = Inr c \<and> dict_get row k = Some c"
proof (induction items arbitrary: row)
  case (Cons a items)
  then obtain k' m' c' row' where "a = (k', m')" "m' = Inr c'" "build_dict items = Inr row'" "row = (k', c') # row'"
    by (cases a) (auto simp: build_dict_def bindE_eq_Inr)
  then show ?case using Cons by (auto split: if_splits)
qed (simp add: build_dict_def)

lemma rounded_num: "rounded m d = Inr c \<Longrightarrow> \<exists>q. c = CNum q"
  by (auto simp: rounded_def bindE_eq_Inr)

definition is_number :: "cell py \<Rightarrow> bool" where
  "is_number m \<longleftrightarrow> (case m of Inr c \<Rightarrow> \<exists>q. c = CNum q | Inl _ \<Rightarrow> True)"

lemma is_number [simp]: "is_number (rounded m d)" "is_number (Inr (CNum q))"
  by (auto simp: is_number_def dest: rounded_num split: sum.splits)

lemma row_number:
  assumes "build_dict items = Inr row" and "case dict_get items k of Some m \<Rightarrow> is_number m | None \<Rightarrow> False"
  shows "\<exists>q. dict_get row k = Some (CNum q)"
proof -
  obtain m where m: "dict_get items k = Some m" "is_number m" using assms(2) by (cases "dict_get items k") auto
  then show ?thesis using build_dict_get [OF assms(1) m(1)] by (auto simp: is_number_def)
qed

lemma make_row_number:
  assumes "make_row h a name conns trial res sm = Inr row" and "field \<in> set (map c_field CHARTS)"
  shows "\<exists>q. dict_get row field = Some (CNum q)"
proof -
  obtain cpu where i: "build_dict (row_items name conns trial res sm cpu) = Inr row"
    using assms(1) by (auto simp: make_row_def bindE_eq_Inr)
  have "list_all (\<lambda>field. case dict_get (row_items name conns trial res sm cpu) field of Some m \<Rightarrow> is_number m | None \<Rightarrow> False)
      (map c_field CHARTS)"
    by (simp add: CHARTS_def row_items_def)
  then show ?thesis using assms(2) by (intro row_number [OF i]) (auto simp: list_all_iff)
qed

lemma make_row_cell:
  assumes "make_row h a name conns trial res sm = Inr row"
  shows "dict_get row ''server'' = Some (CStr name)" and "dict_get row ''conns'' = Some (CInt conns)"
proof -
  obtain cpu where i: "build_dict (row_items name conns trial res sm cpu) = Inr row"
    using assms(1) by (auto simp: make_row_def bindE_eq_Inr)
  show "dict_get row ''server'' = Some (CStr name)" "dict_get row ''conns'' = Some (CInt conns)"
    using build_dict_get [OF i, of "''server''"] build_dict_get [OF i, of "''conns''"] by (simp_all add: row_items_def)
qed

text \<open>A result row of the runner that has a text, and the same for a row of the timeline.\<close>

definition result_of :: "(json \<Rightarrow> string) \<Rightarrow> string \<times> int \<times> int \<Rightarrow> result_row \<Rightarrow> bool" where
  "result_of json_text key row \<longleftrightarrow> clean_row json_text row \<and>
     (\<exists>h a res sm. make_row h a (fst key) (fst (snd key)) (snd (snd key)) res sm = Inr row)"

lemma result_read_back:
  assumes "result_of json_text (name, n, trial) row"
  shows "row_ok (read_back json_text row)" and "in_cell s c (read_back json_text row) \<longleftrightarrow> s = name \<and> c = n"
    and "field \<in> set (map c_field CHARTS) \<Longrightarrow> number_in (read_back json_text row) field = [cell_num (dict_get row field)]"
    and "keys row = csv_fields" and "clean_row json_text row"
proof -
  obtain h a res sm where row: "make_row h a name n trial res sm = Inr row" and clean: "clean_row json_text row"
    using assms by (auto simp: result_of_def)
  note cells = make_row_cell [OF row]
  have conns: "col_int (read_back json_text row) ''conns'' = Inr n" using cells(2) by (rule col_int_read_back)
  have server: "row_get (read_back json_text row) ''server'' = Inr (Some name)"
    by (simp add: col_read_back cells(1) cell_text_def)
  have num: "col_float (read_back json_text row) f = Inr (cell_num (dict_get row f))" if f: "f \<in> set (map c_field CHARTS)" for f
  proof -
    obtain q where q: "dict_get row f = Some (CNum q)" using make_row_number [OF row f] by blast
    then show ?thesis using col_float_read_back [OF q clean] by (simp add: cell_num_def)
  qed
  show "row_ok (read_back json_text row)"
    using num by (auto simp: row_ok_def server conns bad_number_def list_ex_iff)
  show "in_cell s c (read_back json_text row) \<longleftrightarrow> s = name \<and> c = n" by (auto simp: in_cell_def server conns)
  show "field \<in> set (map c_field CHARTS) \<Longrightarrow> number_in (read_back json_text row) field = [cell_num (dict_get row field)]"
    using num by (simp add: number_in_def)
  show "keys row = csv_fields" by (rule make_row_shape(1) [OF row])
  show "clean_row json_text row" by (rule clean)
qed

lemma plain_headers: "list_all plain_text csv_fields" "list_all plain_text tl_fields"
  by (simp_all add: csv_fields_def tl_fields_def plain_text_def is_ascii_def)

lemma values_read_back:
  assumes "list_all2 (result_of json_text) ks rs" and "field \<in> set (map c_field CHARTS)"
  shows "trial_values (map (read_back json_text) rs) field s c =
    map (\<lambda>(k, row). cell_num (dict_get row field)) (filter (\<lambda>(k, row). fst k = s \<and> fst (snd k) = c) (zip ks rs))"
  using assms(1)
proof (induction ks rs rule: list_all2_induct)
  case (Cons k ks row rs)
  obtain name n trial where k: "k = (name, n, trial)" by (cases k) auto
  have r: "result_of json_text (name, n, trial) row" using Cons(1) k by simp
  show ?case using Cons(3) result_read_back(2) [OF r, of s c] result_read_back(3) [OF r assms(2)]
    by (auto simp: trial_values_def k)
qed (simp add: trial_values_def)

lemma load_run:
  assumes "list_all2 (result_of json_text) ks rs"
  obtains out d servers conns where "file_text json_text csv_fields rs = Inr out" and "load out = Inr (d, servers, conns)"
    and "dict_reader (universal_newlines out) = map (read_back json_text) rs"
proof -
  have res: "\<exists>key. result_of json_text key row" if "row \<in> set rs" for row
    using assms that unfolding list_all2_conv_all_nth in_set_conv_nth by metis
  then have rows: "\<forall>row \<in> set rs. keys row = csv_fields \<and> clean_row json_text row"
    using result_read_back(4,5) by (metis prod.collapse)
  obtain out where out: "file_text json_text csv_fields rs = Inr out" "is_ascii out"
    "dict_reader (universal_newlines out) = map (read_back json_text) rs"
    by (rule file_round_trip [OF rows distinct_fields(1) _ plain_headers(1)]) (simp_all add: csv_fields_def)
  have "list_all row_ok (map (read_back json_text) rs)"
    using res result_read_back(1) by (auto simp: list_all_iff) (metis prod.collapse)
  then obtain d S C where "foldE load_row (map (read_back json_text) rs) ([], {}, {}) = Inr (d, S, C)"
    using load_rows_ok by (metis prod_cases3)
  then have "load out = Inr (d, ordered_servers S, sorted_list_of_set C)" using out by (simp add: load_def)
  then show thesis using that out by blast
qed

lemma cells_read_back:
  assumes "list_all2 (result_of json_text) ks rs"
  shows "{s. \<exists>c. \<exists>row \<in> set (map (read_back json_text) rs). in_cell s c row} = fst ` set ks"
    and "{c. \<exists>s. \<exists>row \<in> set (map (read_back json_text) rs). in_cell s c row} = (fst \<circ> snd) ` set ks"
  using assms
proof (induction ks rs rule: list_all2_induct)
  case (Cons k ks row rs)
  have cell: "in_cell s c (read_back json_text row) \<longleftrightarrow> s = fst k \<and> c = fst (snd k)" for s c
    using result_read_back(2) Cons(1) by (metis prod.collapse)
  have "{s. \<exists>c. \<exists>row \<in> set (map (read_back json_text) (row # rs)). in_cell s c row} =
      insert (fst k) {s. \<exists>c. \<exists>row \<in> set (map (read_back json_text) rs). in_cell s c row}"
    and "{c. \<exists>s. \<exists>row \<in> set (map (read_back json_text) (row # rs)). in_cell s c row} =
      insert (fst (snd k)) {c. \<exists>s. \<exists>row \<in> set (map (read_back json_text) rs). in_cell s c row}"
    using cell by auto
  then show "{s. \<exists>c. \<exists>row \<in> set (map (read_back json_text) (row # rs)). in_cell s c row} = fst ` set (k # ks)"
    and "{c. \<exists>s. \<exists>row \<in> set (map (read_back json_text) (row # rs)). in_cell s c row} = (fst \<circ> snd) ` set (k # ks)"
    using Cons(3,4) by simp_all
qed simp_all

lemma load_run_axes:
  assumes "list_all2 (result_of json_text) ks rs" and "load out = Inr (d, servers, conns)"
    and "dict_reader (universal_newlines out) = map (read_back json_text) rs"
  shows "distinct servers" and "set servers = fst ` set ks" and "distinct conns" and "set conns = (fst \<circ> snd) ` set ks"
  using load_cases(2,3) [OF assms(2) refl] finite_cells [of "map (read_back json_text) rs"] cells_read_back [OF assms(1)]
  unfolding assms(3) by (simp_all add: distinct_ordered_servers set_ordered_servers)

text \<open>C4: The report shows what the runner measured. The result file of any list of rows the
  runner made is read back completely: for every chart field, server and connection count
  the report has exactly the recorded values of those trials, in the order they were run,
  and its servers and load levels are those of the rows.\<close>

theorem report_reads_the_runner:
  assumes "list_all2 (result_of json_text) ks rs" and "field \<in> set (map c_field CHARTS)"
  shows "\<exists>out d servers conns. file_text json_text csv_fields rs = Inr out \<and> load out = Inr (d, servers, conns) \<and>
    set servers = fst ` set ks \<and> set conns = (fst \<circ> snd) ` set ks \<and>
    vals_at d field s c =
      map (\<lambda>(k, row). cell_num (dict_get row field)) (filter (\<lambda>(k, row). fst k = s \<and> fst (snd k) = c) (zip ks rs))"
proof -
  obtain out d servers conns where out: "file_text json_text csv_fields rs = Inr out" "load out = Inr (d, servers, conns)"
    "dict_reader (universal_newlines out) = map (read_back json_text) rs" using load_run [OF assms(1)] .
  note axes = load_run_axes [OF assms(1) out(2,3)]
  have "vals_at d field s c = trial_values (map (read_back json_text) rs) field s c"
    using load_cases(1) [OF out(2) refl assms(2)] out(3) by simp
  then show ?thesis using out(1,2) axes values_read_back [OF assms] by auto
qed

section \<open>The timeline of the runner\<close>

definition timeline_of :: "(json \<Rightarrow> string) \<Rightarrow> string \<times> int \<times> int \<Rightarrow> result_row \<Rightarrow> bool" where
  "timeline_of json_text key row \<longleftrightarrow> clean_row json_text row \<and>
     (\<exists>w. timeline_row (fst key) (fst (snd key)) (snd (snd key)) w = Inr row)"

lemma timeline_read_back:
  assumes "timeline_of json_text (name, n, trial) row"
  defines "r \<equiv> read_back json_text row"
  shows "in_trial key tr r \<longleftrightarrow> key = (name, n) \<and> tr = trial" and "col_int r ''t_s'' = Inr (t_of r)"
    and "field \<in> fst ` set TL_SERIES \<Longrightarrow> \<exists>q. col_float r field = Inr q"
    and "keys row = tl_fields" and "clean_row json_text row"
proof -
  obtain w where row: "timeline_row name n trial w = Inr row" and clean: "clean_row json_text row"
    using assms(1) by (auto simp: timeline_of_def)
  then obtain t p50 p90 p99 p999 mx where i: "build_dict
       [(''server'', Inr (CStr name)), (''conns'', Inr (CInt n)), (''trial'', Inr (CInt trial)),
         (''t_s'', bindE (json_int t) (\<lambda>n. Inr (CInt n))),
         (''p50_ms'', rounded (Inr p50) 2), (''p90_ms'', rounded (Inr p90) 2),
         (''p99_ms'', rounded (Inr p99) 2), (''p999_ms'', rounded (Inr p999) 2),
         (''max_ms'', rounded (Inr mx) 2)] = Inr row"
    by (auto simp: timeline_row_def bindE_eq_Inr)
  note get = build_dict_get [OF i]
  have "dict_get row ''server'' = Some (CStr name)" using get [of "''server''"] by simp
  moreover have "dict_get row ''conns'' = Some (CInt n)" using get [of "''conns''"] by simp
  moreover have "dict_get row ''trial'' = Some (CInt trial)" using get [of "''trial''"] by simp
  ultimately show "in_trial key tr r \<longleftrightarrow> key = (name, n) \<and> tr = trial"
    by (cases key) (auto simp: in_trial_def in_cell_def r_def col_int_read_back col_read_back cell_text_def)
  obtain s where "dict_get row ''t_s'' = Some (CInt s)" using get [of "''t_s''"] by (auto simp: bindE_eq_Inr)
  then show "col_int r ''t_s'' = Inr (t_of r)" by (simp add: r_def col_int_read_back t_of_def)
  show "\<exists>q. col_float r field = Inr q" if "field \<in> fst ` set TL_SERIES"
  proof -
    have "\<exists>q. dict_get row field = Some (CNum q)"
      using that by (intro row_number [OF i]) (auto simp: TL_SERIES_def)
    then show ?thesis using clean by (auto simp: r_def col_float_read_back)
  qed
  show "keys row = tl_fields" by (rule timeline_row_shape [OF row])
  show "clean_row json_text row" by (rule clean)
qed

lemma mapE_ok: "\<forall>x \<in> set xs. \<exists>y. f x = Inr y \<Longrightarrow> \<exists>ys. mapE f xs = Inr ys"
  by (induction xs) auto

lemma timeline_add_ok: "in_trial key tr row \<Longrightarrow> \<exists>d'. timeline_add row d = Inr d'"
  by (cases key) (auto simp: timeline_add_def in_trial_def in_cell_def)

lemma timeline_adds_ok: "\<forall>row \<in> set rs. \<exists>key tr. in_trial key tr row \<Longrightarrow> \<exists>d'. foldE timeline_add rs d = Inr d'"
proof (induction rs arbitrary: d)
  case (Cons row rs)
  then obtain d1 where "timeline_add row d = Inr d1" using timeline_add_ok by (metis list.set_intros(1))
  then show ?case using Cons by simp
qed auto

lemma load_timeline_ok:
  assumes "is_ascii src" and "rs = dict_reader (universal_newlines src)"
    and "\<forall>row \<in> set rs. (\<exists>key tr. in_trial key tr row) \<and> col_int row ''t_s'' = Inr (t_of row)"
  shows "\<exists>tld. load_timeline src = Inr tld"
proof -
  obtain d where d: "foldE timeline_add rs [] = Inr d" using timeline_adds_ok assms(3) by blast
  have "timeline_wf []" by (simp add: timeline_wf_def)
  note t = timeline_rows [OF d this]
  have "\<exists>w. sort_rows ts = Inr w" if key: "(key, dt) \<in> set d" and tr: "(tr, ts) \<in> set dt" for key dt tr ts
  proof -
    have wf: "timeline_wf d" using t by blast
    then have "distinct (keys d)" "distinct (keys dt)" using key by (auto simp: timeline_wf_def list_all_iff)
    then have "rows_at d key tr = ts" using key tr by (simp add: rows_at_def)
    then have "ts = filter (in_trial key tr) rs" using t [of key tr] by (simp add: rows_at_def)
    then have "mapE (\<lambda>r. col_int r ''t_s'') ts = Inr (map t_of ts)" using assms(3) by (intro mapE_Inr) auto
    then show ?thesis by (simp add: sort_rows_def)
  qed
  then have "\<exists>w. mapE_vals sort_rows dt = Inr w" if "(key, dt) \<in> set d" for key dt
    using that unfolding mapE_vals_def by (intro mapE_ok) fastforce
  then have "\<exists>w. mapE_vals (mapE_vals sort_rows) d = Inr w"
    unfolding mapE_vals_def [of "mapE_vals sort_rows"] by (intro mapE_ok) fastforce
  then show ?thesis using d assms(1,2) by (simp add: load_timeline_def)
qed

lemma load_run_timeline:
  assumes "list_all2 (timeline_of json_text) ks rs"
  obtains src tld where "file_text json_text tl_fields rs = Inr src" and "load_timeline src = Inr tld"
    and "length tld = card ((\<lambda>(s, c, tr). (s, c)) ` set ks)"
    and "\<And>name. \<exists>page. timeline_body (Some tld) name = Inr page"
proof -
  have res: "\<exists>key. timeline_of json_text key row" if "row \<in> set rs" for row
    using assms that unfolding list_all2_conv_all_nth in_set_conv_nth by metis
  then have rows: "\<forall>row \<in> set rs. keys row = tl_fields \<and> clean_row json_text row"
    using timeline_read_back(4,5) by (metis prod.collapse)
  obtain src where src: "file_text json_text tl_fields rs = Inr src" "is_ascii src"
    "dict_reader (universal_newlines src) = map (read_back json_text) rs"
    by (rule file_round_trip [OF rows distinct_fields(2) _ plain_headers(2)]) (simp_all add: tl_fields_def)
  have ok: "\<forall>row \<in> set (map (read_back json_text) rs). (\<exists>key tr. in_trial key tr row) \<and> col_int row ''t_s'' = Inr (t_of row)"
    using res timeline_read_back(1,2) by fastforce
  obtain tld where tld: "load_timeline src = Inr tld" using load_timeline_ok [OF src(2) refl] ok src(3) by auto
  have "set (keys tld) = {key. \<exists>tr. \<exists>row \<in> set (map (read_back json_text) rs). in_trial key tr row}"
    using tl_keys_in_file [OF tld] src(3) by simp
  also have "\<dots> = (\<lambda>(s, c, tr). (s, c)) ` set ks"
    using assms
  proof (induction ks rs rule: list_all2_induct)
    case (Cons k ks row rs)
    obtain name n trial where k: "k = (name, n, trial)" by (cases k) auto
    have "in_trial key tr (read_back json_text row) \<longleftrightarrow> key = (name, n) \<and> tr = trial" for key tr
      using timeline_read_back(1) Cons(1) k by blast
    then have "{key. \<exists>tr. \<exists>row \<in> set (map (read_back json_text) (row # rs)). in_trial key tr row} =
        insert (name, n) {key. \<exists>tr. \<exists>row \<in> set (map (read_back json_text) rs). in_trial key tr row}"
      by auto
    then show ?case using Cons(3) k by simp
  qed simp
  finally have keys: "set (keys tld) = (\<lambda>(s, c, tr). (s, c)) ` set ks" .
  have "distinct (keys tld)" using load_timeline_rows [OF tld] by (auto simp: timeline_wf_def)
  then have len: "length tld = card ((\<lambda>(s, c, tr). (s, c)) ` set ks)" using distinct_card keys by (metis length_map)
  have "\<exists>page. timeline_body (Some tld) name = Inr page" for name
  proof (cases "timeline_body (Some tld) name")
    case (Inl e)
    then obtain row field where "row \<in> set rs" "field \<in> fst ` set TL_SERIES"
      "caught (col_float (read_back json_text row) field) = Inl e"
      using timeline_body_error_row [OF Inl tld] src(3) by auto
    moreover obtain key where "timeline_of json_text key row" using res calculation(1) by blast
    ultimately show ?thesis using timeline_read_back(3) by (metis (no_types, lifting) Inr_Inl_False caught_Some prod.collapse)
  qed blast
  then show thesis using that src(1) tld len by blast
qed

lemma build_html_ok: "\<exists>page. timeline_body tl_data (case tl_src of Some (c # p) \<Rightarrow> c # p | _ \<Rightarrow> src) = Inr page \<Longrightarrow>
    \<exists>html. build_html float_repr d servers conns src tl_data tl_src = Inr html"
  by (auto simp: build_html_def Let_def)

text \<open>C8: On the files of a benchmark run the report never fails. If the result file and the
  timeline beside it are what the runner wrote for at least one trial, and the file system
  takes the output, the program ends normally, writes the page, and counts the servers, the
  load levels and the timelines of the run.\<close>

theorem report_of_a_run:
  assumes "list_all2 (result_of json_text) ks rs" and "ks \<noteq> []" and "list_all2 (timeline_of json_text) tks trs"
    and "fs_read fs csv = file_text json_text csv_fields rs"
    and "fs_read fs (timeline_path (cwd fs) csv) = file_text json_text tl_fields trs"
    and "fs_exists fs (timeline_path (cwd fs) csv)"
    and "dirname out \<noteq> []" and "fs_makedirs fs (dirname out) = Inr ()" and "fs_write fs out = Inr ()"
  shows "\<exists>html. report_main float_repr fs csv out =
    (Inr (card (fst ` set ks), card ((fst \<circ> snd) ` set ks), card ((\<lambda>(s, c, tr). (s, c)) ` set tks)),
     [MadeDir (dirname out), Wrote out html])"
proof -
  obtain src d servers conns where l: "file_text json_text csv_fields rs = Inr src" "load src = Inr (d, servers, conns)"
    "dict_reader (universal_newlines src) = map (read_back json_text) rs" using load_run [OF assms(1)] .
  note axes = load_run_axes [OF assms(1) l(2,3)]
  have ne: "servers \<noteq> []" "conns \<noteq> []" using axes(2,4) assms(2) by auto
  have len: "length servers = card (fst ` set ks)" "length conns = card ((fst \<circ> snd) ` set ks)"
    using axes by (metis distinct_card)+
  obtain tsrc tld where t: "file_text json_text tl_fields trs = Inr tsrc" "load_timeline tsrc = Inr tld"
    "length tld = card ((\<lambda>(s, c, tr). (s, c)) ` set tks)" "\<And>name. \<exists>page. timeline_body (Some tld) name = Inr page"
    using load_run_timeline [OF assms(3)] by metis
  have "report_read fs csv = Inr (d, servers, conns, Some tld)"
    using assms(4-6) l(1,2) t(1,2) ne by (simp add: report_read_def Let_def)
  moreover obtain html where "build_html float_repr d servers conns csv (Some tld) (Some (timeline_path (cwd fs) csv)) = Inr html"
    using build_html_ok [OF t(4)] by blast
  ultimately show ?thesis using assms(7-9) len t(3) by (simp add: report_main_def)
qed

section \<open>Witnesses\<close>

lemma plain_fmt: "plain_text (fmt_fixed False d v)"
proof -
  have "plain_text (fixed_digits False d n)" for n
    using fixed_digits_chars(1) [of d n] by (auto simp: plain_text_def is_ascii_def list_all_iff is_decimal_def)
  then show ?thesis by (auto simp: fmt_fixed_def sign_def plain_text_def is_ascii_def)
qed

lemma demo_float: "float_str 0 = Inr (fmt_fixed False 1 0)" "float_str 1 = Inr (fmt_fixed False 1 1)"
  by (simp_all add: float_str_def is_whole_def)

lemma round_nd_01: "round_nd 0 d = 0" "round_nd 1 d = 1"
proof -
  have "round_even 0 = 0" using round_even_int [of 0] by simp
  moreover have "round_even (10 ^ d) = 10 ^ d" using round_even_int [of "10 ^ d"] by simp
  ultimately show "round_nd 0 d = 0" "round_nd 1 d = 1" by (simp_all add: round_nd_def)
qed

lemma demo_result:
  "\<exists>row. result_of (\<lambda>_. ''1'') (''go'', 10, 1) row \<and> dict_get row ''p99_ms'' = Some (CNum 1)"
proof -
  define row where "row = projr (make_row demo_host demo_args ''go'' 10 1 demo_json (new_sampler []))"
  note eval = make_row_def row_items_def build_dict_def cpu_cores_of_def new_sampler_def demo_json_def csv_fields_def
    as_is_def rounded_def json_item_def json_get_def json_num_def round_nd_01
  have row: "make_row demo_host demo_args ''go'' 10 1 demo_json (new_sampler []) = Inr row"
    and "dict_get row ''p99_ms'' = Some (CNum 1)" by (simp_all add: row_def eval)
  moreover have "clean_row (\<lambda>_. ''1'') row"
    by (simp add: row_def eval clean_row_def cell_text_def demo_float plain_fmt) (simp add: plain_text_def is_ascii_def str_eval)
  ultimately have "result_of (\<lambda>_. ''1'') (''go'', 10, 1) row" unfolding result_of_def by auto
  then show ?thesis using \<open>dict_get row ''p99_ms'' = Some (CNum 1)\<close> by blast
qed

lemma demo_timeline_row: "\<exists>row. timeline_of (\<lambda>_. ''1'') (''go'', 10, 1) row"
proof -
  define row where "row = projr (timeline_row ''go'' 10 1 (JArr (replicate 6 (JNum 1))))"
  note eval = timeline_row_def json_list_def unpack6_def build_dict_def rounded_def json_num_def json_int_def round_nd_01
  have "timeline_row ''go'' 10 1 (JArr (replicate 6 (JNum 1))) = Inr row" by (simp add: row_def eval)
  moreover have "clean_row (\<lambda>_. ''1'') row"
    by (simp add: row_def eval clean_row_def cell_text_def demo_float plain_fmt) (simp add: plain_text_def is_ascii_def str_eval)
  ultimately have "timeline_of (\<lambda>_. ''1'') (''go'', 10, 1) row" unfolding timeline_of_def by auto
  then show ?thesis by blast
qed

theorem report_reads_the_runner_witness:
  "\<exists>row out d servers conns. file_text (\<lambda>_. ''1'') csv_fields [row] = Inr out \<and> load out = Inr (d, servers, conns) \<and>
    vals_at d ''p99_ms'' ''go'' 10 = [1]"
proof -
  obtain row where row: "result_of (\<lambda>_. ''1'') (''go'', 10, 1) row" "dict_get row ''p99_ms'' = Some (CNum 1)"
    using demo_result by blast
  have "list_all2 (result_of (\<lambda>_. ''1'')) [(''go'', 10, 1)] [row]" using row(1) by simp
  moreover have "''p99_ms'' \<in> set (map c_field CHARTS)" by (simp add: CHARTS_def)
  ultimately obtain out d servers conns where "file_text (\<lambda>_. ''1'') csv_fields [row] = Inr out" "load out = Inr (d, servers, conns)"
    "vals_at d ''p99_ms'' ''go'' 10 = map (\<lambda>(k, row). cell_num (dict_get row ''p99_ms''))
      (filter (\<lambda>(k, row). fst k = ''go'' \<and> fst (snd k) = (10 :: int)) (zip [(''go'', 10, 1 :: int)] [row]))"
    using report_reads_the_runner [of "\<lambda>_. ''1''" "[(''go'', 10, 1)]" "[row]" "''p99_ms''" "''go''" 10] by blast
  moreover from this(3) have "vals_at d ''p99_ms'' ''go'' 10 = [1]" using row(2) by (simp add: cell_num_def)
  ultimately show ?thesis by blast
qed

theorem report_of_a_run_witness:
  "\<exists>fs html. report_main (\<lambda>_. ''1.0'') fs ''/b/results.csv'' ''/b/report.html'' =
    (Inr (1, 1, 1), [MadeDir ''/b'', Wrote ''/b/report.html'' html])"
proof -
  obtain row trow where row: "list_all2 (result_of (\<lambda>_. ''1'')) [(''go'', 10, 1)] [row]"
    and trow: "list_all2 (timeline_of (\<lambda>_. ''1'')) [(''go'', 10, 1)] [trow]"
    using demo_result demo_timeline_row by auto
  define fs where "fs = \<lparr>cwd = ''/'', fs_read = (\<lambda>p. if p = ''/b/results.csv'' then file_text (\<lambda>_. ''1'') csv_fields [row]
      else file_text (\<lambda>_. ''1'') tl_fields [trow]), fs_exists = (\<lambda>_. True), fs_makedirs = (\<lambda>_. Inr ()), fs_write = (\<lambda>_. Inr ())\<rparr>"
  have path: "timeline_path ''/'' ''/b/results.csv'' = ''/b/timeline.csv''"
    by (simp add: timeline_path_def abspath_def path_join_def startswith_def normpath_def norm_step_def dirname_def rfind_def)
  have dir: "dirname ''/b/report.html'' = ''/b''" by (simp add: dirname_def rfind_def)
  show ?thesis
    using report_of_a_run [OF row _ trow, of fs "''/b/results.csv''" "''/b/report.html''" "\<lambda>_. ''1.0''"] path dir
    by (auto simp: fs_def)
qed

end
