(* ===== verification/Json.thy ===== *)
theory Json
  imports Lifecycle Report_Page
begin

text \<open>
  JSON texts: \<open>json.loads\<close> as the runner uses it (\<open>runner/run.py\<close>) and that it reads back
  what is printed, for the spacing of Python's \<open>json.dumps\<close> and of Go's \<open>json.Marshal\<close>. A
  number is an exact rational. A text that is no JSON is a \<open>ValueError\<close>; the words \<open>NaN\<close> and
  \<open>Infinity\<close>, a number above the range of a float and a character outside Latin-1 are
  \<open>OutOfModel\<close>. The limit on nesting is not modelled.
\<close>

section \<open>Definitions\<close>

definition is_json_ws :: "char \<Rightarrow> bool" where
  "is_json_ws c \<longleftrightarrow> ord c \<in> {9, 10, 13, 32}"

definition json_ws :: "string \<Rightarrow> string" where
  "json_ws s = dropWhile is_json_ws s"

definition hex_val :: "char \<Rightarrow> nat option" where
  "hex_val c =
     (let n = ord c
      in if 48 \<le> n \<and> n \<le> 57 then Some (n - 48)
         else if 97 \<le> n \<and> n \<le> 102 then Some (n - 87)
         else if 65 \<le> n \<and> n \<le> 70 then Some (n - 55)
         else None)"

definition escape_val :: "char \<Rightarrow> char option" where
  "escape_val c =
     map_of [(34, CHR 0x22), (92, CHR 0x5C), (47, CHR 0x2F), (98, CHR 0x08), (102, CHR 0x0C),
             (110, CHR 0x0A), (114, CHR 0x0D), (116, CHR 0x09)] (ord c)"

definition cons_char :: "char py \<Rightarrow> (string \<times> string) py \<Rightarrow> (string \<times> string) py" where
  "cons_char m k = bindE m (\<lambda>c. bindE k (\<lambda>(s, r). Inr (c # s, r)))"

definition unicode_char :: "char \<Rightarrow> char \<Rightarrow> char \<Rightarrow> char \<Rightarrow> char py" where
  "unicode_char a b c d =
     (case (hex_val a, hex_val b, hex_val c, hex_val d) of
        (Some i, Some j, Some k, Some l) \<Rightarrow>
          if i = 0 \<and> j = 0 then Inr (char_of (16 * k + l)) else Inl OutOfModel
      | _ \<Rightarrow> Inl ValueError)"

text \<open>A string, after its opening quote: the characters and what follows the closing one.\<close>

fun json_string :: "string \<Rightarrow> (string \<times> string) py" where
  "json_string [] = Inl ValueError"
| "json_string (c # r) =
     (if c = quotechar then Inr ([], r)
      else if c = CHR 0x5C then
        (case r of
           [] \<Rightarrow> Inl ValueError
         | e # r2 \<Rightarrow>
             if e = CHR ''u'' then
               (case r2 of
                  a # b # k # l # r3 \<Rightarrow> cons_char (unicode_char a b k l) (json_string r3)
                | _ \<Rightarrow> Inl ValueError)
             else (case escape_val e of
                     None \<Rightarrow> Inl ValueError
                   | Some x \<Rightarrow> cons_char (Inr x) (json_string r2)))
      else if ord c < 32 then Inl ValueError
      else cons_char (Inr c) (json_string r))"

text \<open>The longest number at the start of the text: integer part, fraction, exponent.\<close>

definition json_digits :: "string \<Rightarrow> string \<times> string" where
  "json_digits s = (takeWhile is_decimal s, dropWhile is_decimal s)"

definition json_fraction :: "string \<Rightarrow> string \<times> string" where
  "json_fraction r = (case r of c # t \<Rightarrow> if c = CHR ''.'' \<and> fst (json_digits t) \<noteq> [] then json_digits t else ([], r) | [] \<Rightarrow> ([], []))"

definition json_exponent :: "string \<Rightarrow> int option \<times> string" where
  "json_exponent r =
     (case r of
        [] \<Rightarrow> (None, [])
      | c # t \<Rightarrow>
          let (neg, u) = (case t of x # v \<Rightarrow> if x = CHR ''-'' then (True, v) else if x = CHR ''+'' then (False, v) else (False, t) | [] \<Rightarrow> (False, []));
              (ds, rest) = json_digits u
          in if is_exp_mark c \<and> ds \<noteq> []
             then (Some (if neg then - decimal_val ds else decimal_val ds), rest)
             else (None, r))"

definition json_unsigned :: "string \<Rightarrow> (rat \<times> bool \<times> string) option" where
  "json_unsigned s =
     (let (ds, r) = json_digits s;
          (ip, r1) = (if ds \<noteq> [] \<and> hd ds = CHR ''0'' then (''0'', drop 1 s) else (ds, r));
          (fp, r2) = json_fraction r1;
          (ex, r3) = json_exponent r2;
          mant = of_int (decimal_val (ip @ fp)) / 10 ^ length fp
      in if ds = [] then None
         else Some (case ex of None \<Rightarrow> mant | Some e \<Rightarrow> mant * pow10 e, fp = [] \<and> ex = None, r3))"

definition json_number :: "string \<Rightarrow> (rat \<times> string) py" where
  "json_number s =
     (let (neg, u) = (case s of c # r \<Rightarrow> if c = CHR ''-'' then (True, r) else (False, s) | [] \<Rightarrow> (False, []))
      in if startswith u ''Infinity'' \<or> startswith s ''NaN'' then Inl OutOfModel
         else case json_unsigned u of
                None \<Rightarrow> Inl ValueError
              | Some (q, whole, r) \<Rightarrow>
                  if \<not> whole \<and> q \<ge> float_limit then Inl OutOfModel else Inr (if neg then - q else q, r))"

lemma json_ws_length: "length (json_ws s) \<le> length s"
  by (simp add: json_ws_def length_dropWhile_le)

text \<open>
  A value at the start of the text, the elements of an array and the members of an object,
  each with what is left. The comparisons of lengths are always true
  (\<open>parse_shorter\<close>); they make the recursion visibly end.
\<close>

function (sequential) parse_value :: "string \<Rightarrow> (json \<times> string) py"
  and parse_elems :: "string \<Rightarrow> (json list \<times> string) py"
  and parse_members :: "string \<Rightarrow> ((string \<times> json) list \<times> string) py" where
  "parse_value s =
     (case s of
        [] \<Rightarrow> Inl ValueError
      | c # r \<Rightarrow>
          if c = quotechar then bindE (json_string r) (\<lambda>(t, r'). Inr (JStr t, r'))
          else if c = CHR ''{'' then
            (if json_ws r \<noteq> [] \<and> hd (json_ws r) = CHR ''}'' then Inr (JObj [], tl (json_ws r))
             else (case parse_members (json_ws r) of Inl e \<Rightarrow> Inl e | Inr (kvs, r') \<Rightarrow> Inr (JObj (dict_of kvs), r')))
          else if c = CHR ''['' then
            (if json_ws r \<noteq> [] \<and> hd (json_ws r) = CHR '']'' then Inr (JArr [], tl (json_ws r))
             else (case parse_elems (json_ws r) of Inl e \<Rightarrow> Inl e | Inr (vs, r') \<Rightarrow> Inr (JArr vs, r')))
          else if startswith s ''null'' then Inr (JNull, drop 4 s)
          else if startswith s ''true'' then Inr (JBool True, drop 4 s)
          else if startswith s ''false'' then Inr (JBool False, drop 5 s)
          else bindE (json_number s) (\<lambda>(q, r'). Inr (JNum q, r')))"
| "parse_elems s =
     (case parse_value s of
        Inl e \<Rightarrow> Inl e
      | Inr (v, r) \<Rightarrow>
          (case json_ws r of
             [] \<Rightarrow> Inl ValueError
           | c # t \<Rightarrow>
               if c = CHR '']'' then Inr ([v], t)
               else if c = CHR '','' \<and> length (json_ws t) < length s then
                 (case parse_elems (json_ws t) of Inl e \<Rightarrow> Inl e | Inr (vs, r') \<Rightarrow> Inr (v # vs, r'))
               else Inl ValueError))"
| "parse_members s =
     (case s of
        [] \<Rightarrow> Inl ValueError
      | q # s1 \<Rightarrow>
          if q \<noteq> quotechar then Inl ValueError
          else
            (case json_string s1 of
               Inl e \<Rightarrow> Inl e
             | Inr (k, s2) \<Rightarrow>
                 (case json_ws s2 of
                    [] \<Rightarrow> Inl ValueError
                  | c # s3 \<Rightarrow>
                      if c = CHR '':'' \<and> length (json_ws s3) < length s then
                        (case parse_value (json_ws s3) of
                           Inl e \<Rightarrow> Inl e
                         | Inr (v, r) \<Rightarrow>
                             (case json_ws r of
                                [] \<Rightarrow> Inl ValueError
                              | d # t \<Rightarrow>
                                  if d = CHR ''}'' then Inr ([(k, v)], t)
                                  else if d = CHR '','' \<and> length (json_ws t) < length s then
                                    (case parse_members (json_ws t) of Inl e \<Rightarrow> Inl e | Inr (kvs, r') \<Rightarrow> Inr ((k, v) # kvs, r'))
                                  else Inl ValueError))
                      else Inl ValueError)))"
  by pat_completeness auto

termination
proof (relation "measure (\<lambda>x. case x of Inl s \<Rightarrow> 2 * length s | Inr (Inl s) \<Rightarrow> 2 * length s + 1 | Inr (Inr s) \<Rightarrow> 2 * length s + 1)")
qed (use json_ws_length in \<open>auto simp: le_imp_less_Suc mult_le_mono2\<close>)

declare parse_value.simps [simp del] parse_elems.simps [simp del] parse_members.simps [simp del]

definition json_loads :: "string \<Rightarrow> json py" where
  "json_loads s =
     bindE (parse_value (json_ws s)) (\<lambda>(v, r). if json_ws r = [] then Inr v else Inl ValueError)"

text \<open>Printing with white space after separators, and the value a text stands for.\<close>

fun json_print :: "string \<Rightarrow> (rat \<Rightarrow> string) \<Rightarrow> jval \<Rightarrow> string" where
  "json_print w float_repr (VInt n) = py_str n"
| "json_print w float_repr (VFloat x) = float_repr x"
| "json_print w float_repr (VBool b) = (if b then ''true'' else ''false'')"
| "json_print w float_repr (VStr s) = json_str s"
| "json_print w float_repr (VList vs) = ''['' @ join ('','' @ w) (map (json_print w float_repr) vs) @ '']''"
| "json_print w float_repr (VDict kvs) =
     ''{'' @ join ('','' @ w) (map (\<lambda>(k, v). json_str k @ '':'' @ w @ json_print w float_repr v) kvs) @ ''}''"

fun json_of :: "jval \<Rightarrow> json" where
  "json_of (VInt n) = JNum (of_int n)"
| "json_of (VFloat x) = JNum x"
| "json_of (VBool b) = JBool b"
| "json_of (VStr s) = JStr s"
| "json_of (VList vs) = JArr (map json_of vs)"
| "json_of (VDict kvs) = JObj (dict_of (map (\<lambda>(k, v). (k, json_of v)) kvs))"

fun floats_of :: "jval \<Rightarrow> rat list" where
  "floats_of (VFloat x) = [x]"
| "floats_of (VList vs) = concat (map floats_of vs)"
| "floats_of (VDict kvs) = concat (map (\<lambda>(k, v). floats_of v) kvs)"
| "floats_of v = []"

text \<open>A text that reads as the number \<open>q\<close>, before anything that cannot continue a number.\<close>

definition number_char :: "char \<Rightarrow> bool" where
  "number_char c \<longleftrightarrow> is_decimal c \<or> c = CHR ''.'' \<or> is_exp_mark c"

definition number_text :: "string \<Rightarrow> rat \<Rightarrow> bool" where
  "number_text t q \<longleftrightarrow> t \<noteq> [] \<and> (hd t = CHR ''-'' \<or> is_decimal (hd t)) \<and>
     list_all (\<lambda>c. number_char c \<or> c = CHR ''-'' \<or> c = CHR ''+'') t \<and>
     (\<forall>r. r = [] \<or> \<not> number_char (hd r) \<longrightarrow> json_number (t @ r) = Inr (q, r))"

section \<open>Numbers and strings\<close>

lemma nat_digits_hd: "hd (nat_digits n) = CHR ''0'' \<Longrightarrow> nat_digits n = ''0''"
proof (induction n rule: nat_digits.induct)
  case (1 n)
  show ?case
  proof (cases "n < 10")
    case True
    then have e: "nat_digits n = [digit_char n]" by (subst nat_digits.simps) simp
    then show ?thesis using 1(2) by simp
  next
    case False
    then have e: "nat_digits n = nat_digits (n div 10) @ [digit_char (n mod 10)]" by (subst nat_digits.simps) simp
    then have "hd (nat_digits (n div 10)) = CHR ''0''" using 1(2) nat_digits_decimal [of "n div 10"] by simp
    then have "nat_digits (n div 10) = ''0''" using 1(1) False by simp
    then have "int (n div 10) = 0" using foldl_nat_digits [of "n div 10"] by (simp add: digit_val_def)
    then show ?thesis using False by simp
  qed
qed

lemma digits_take:
  assumes "list_all is_decimal ds" and "r = [] \<or> \<not> is_decimal (hd r)"
  shows "json_digits (ds @ r) = (ds, r)"
  using assms by (cases r) (auto simp: json_digits_def list_all_iff takeWhile_append dropWhile_append)

lemma no_more_number: "r = [] \<or> \<not> number_char (hd r) \<Longrightarrow> json_fraction r = ([], r) \<and> json_exponent r = (None, r)"
  by (cases r) (auto simp: json_fraction_def json_exponent_def number_char_def split_def)

lemma json_unsigned_digits:
  assumes "r = [] \<or> \<not> number_char (hd r)"
  shows "json_unsigned (nat_digits n @ r) = Some (of_nat n, True, r)"
proof -
  have d: "json_digits (nat_digits n @ r) = (nat_digits n, r)"
    using assms nat_digits_decimal [of n] by (intro digits_take) (auto simp: number_char_def)
  have z: "(if nat_digits n \<noteq> [] \<and> hd (nat_digits n) = CHR ''0'' then (''0'', drop 1 (nat_digits n @ r)) else (nat_digits n, r)) =
      (nat_digits n, r)" using nat_digits_hd [of n] by auto
  show ?thesis unfolding json_unsigned_def d Let_def prod.case z
    using no_more_number [OF assms] nat_digits_decimal [of n] by simp
qed

lemma decimal_not_word: "is_decimal c \<Longrightarrow> \<not> startswith (c # s) ''Infinity'' \<and> \<not> startswith (c # s) ''NaN''"
  by (auto simp: startswith_def is_decimal_def)

lemma int_number_text: "number_text (py_str n) (of_int n)"
  unfolding number_text_def
proof (intro conjI allI impI)
  let ?u = "nat_digits (nat \<bar>n\<bar>)"
  obtain c ds where c: "?u = c # ds" "is_decimal c" using nat_digits_decimal [of "nat \<bar>n\<bar>"] by (cases ?u) auto
  then show "py_str n \<noteq> []" "hd (py_str n) = CHR ''-'' \<or> is_decimal (hd (py_str n))" by (auto simp: py_str_def abs_if split: if_splits)
  show "list_all (\<lambda>c. number_char c \<or> c = CHR ''-'' \<or> c = CHR ''+'') (py_str n)"
    using nat_digits_decimal by (auto simp: py_str_def list_all_iff number_char_def)
  fix r :: string
  assume r: "r = [] \<or> \<not> number_char (hd r)"
  have u: "json_unsigned (?u @ r) = Some (of_nat (nat \<bar>n\<bar>), True, r)" by (rule json_unsigned_digits [OF r])
  show "json_number (py_str n @ r) = Inr (of_int n, r)"
  proof (cases "n < 0")
    case True
    then have "py_str n @ r = CHR ''-'' # ?u @ r" by (simp add: py_str_def)
    then show ?thesis using True u c decimal_not_word [of c "ds @ r"] by (simp add: json_number_def startswith_def)
  next
    case False
    then have "py_str n @ r = ?u @ r" by (simp add: py_str_def)
    then show ?thesis using False u c decimal_not_word [of c "ds @ r"] decimal_plain [of c] by (simp add: json_number_def)
  qed
qed

lemma hex_digit_val: "d < 16 \<Longrightarrow> hex_val (hex_digit d) = Some d"
  by (simp add: hex_val_def hex_digit_def)

lemma json_string_char: "json_string (json_char c @ r) = cons_char (Inr c) (json_string r)"
proof (cases "short_escape (ord c)")
  case None
  show ?thesis
  proof (cases "32 \<le> ord c \<and> ord c \<le> 126")
    case True
    then have "c \<noteq> quotechar" "c \<noteq> CHR 0x5C" using None by (auto simp: short_escape_def)
    then show ?thesis using None True by (simp add: json_char_def)
  next
    case False
    have n: "ord c div 16 < 16" "ord c mod 16 < 16" using nat_of_char_less_256 [of c] by (auto simp: less_mult_imp_div_less)
    have z: "hex_val (CHR ''0'') = Some 0" by (simp add: hex_val_def)
    have "unicode_char (CHR ''0'') (CHR ''0'') (hex_digit (ord c div 16)) (hex_digit (ord c mod 16)) = Inr c"
      using hex_digit_val [OF n(1)] hex_digit_val [OF n(2)] z by (simp add: unicode_char_def)
    moreover have "json_char c = CHR 0x5C # ''u00'' @ [hex_digit (ord c div 16), hex_digit (ord c mod 16)]"
      unfolding json_char_def None option.case using False by (simp only: if_False)
    ultimately show ?thesis by simp
  qed
next
  case (Some e)
  have k: "ord c = n \<Longrightarrow> c = char_of n" for n by (metis char_of_char)
  from Some show ?thesis
    by (auto simp: json_char_def short_escape_def escape_val_def split: if_splits dest!: k) (simp_all add: char_of_def bit_0)
qed

lemma json_string_text: "json_string (concat (map json_char s) @ quotechar # r) = Inr (s, r)"
  by (induction s) (simp_all add: json_string_char cons_char_def)

section \<open>Reading what was printed\<close>

abbreviation ends_number :: "string \<Rightarrow> bool" where
  "ends_number r \<equiv> r = [] \<or> \<not> number_char (hd r)"

lemma json_ws_skip: "list_all is_json_ws w \<Longrightarrow> json_ws (w @ t) = json_ws t"
  by (simp add: json_ws_def list_all_iff dropWhile_append)

lemma json_ws_none: "\<not> is_json_ws c \<Longrightarrow> json_ws (c # t) = c # t"
  by (simp add: json_ws_def)

lemma marks_not_ws: "\<not> is_json_ws (CHR '','')" "\<not> is_json_ws (CHR '']'')" "\<not> is_json_ws (CHR ''}'')" "\<not> is_json_ws (CHR '':'')"
    "\<not> is_json_ws quotechar" "\<not> number_char (CHR '','')" "\<not> number_char (CHR '']'')" "\<not> number_char (CHR ''}'')"
  by (simp_all add: is_json_ws_def number_char_def is_decimal_def is_exp_mark_def)

definition starts_value :: "string \<Rightarrow> bool" where
  "starts_value t \<longleftrightarrow> t \<noteq> [] \<and> \<not> is_json_ws (hd t) \<and> hd t \<noteq> CHR '']''"

lemma starts_ws: "starts_value t \<Longrightarrow> json_ws (t @ r) = t @ r"
  by (cases t) (simp_all add: starts_value_def json_ws_none)

lemma number_first:
  assumes "c = CHR ''-'' \<or> is_decimal c"
  shows "c \<noteq> quotechar \<and> c \<noteq> CHR ''{'' \<and> c \<noteq> CHR ''['' \<and> c \<noteq> CHR ''n'' \<and> c \<noteq> CHR ''t'' \<and> c \<noteq> CHR ''f'' \<and>
    \<not> is_json_ws c \<and> c \<noteq> CHR '']''"
  using assms by (auto simp: is_decimal_def is_json_ws_def)

lemma parse_number:
  assumes "number_text t q" and "ends_number r"
  shows "parse_value (t @ r) = Inr (JNum q, r)"
proof -
  obtain c u where t: "t = c # u" "c = CHR ''-'' \<or> is_decimal c" using assms(1) by (cases t) (auto simp: number_text_def)
  have "json_number (t @ r) = Inr (q, r)" using assms unfolding number_text_def by blast
  then show ?thesis using number_first [OF t(2)] t(1) by (subst parse_value.simps) (simp add: startswith_def)
qed

lemma parse_elems_text:
  assumes "list_all is_json_ws w" and "vs \<noteq> []" and "\<forall>v \<in> set vs. starts_value (pr v)"
    and "\<forall>v \<in> set vs. \<forall>r. ends_number r \<longrightarrow> parse_value (pr v @ r) = Inr (f v, r)"
  shows "parse_elems (join ('','' @ w) (map pr vs) @ '']'' @ r) = Inr (map f vs, r)"
  using assms(2-)
proof (induction vs rule: list_nonempty_induct)
  case (single v)
  then show ?case by (subst parse_elems.simps) (simp add: json_ws_none marks_not_ws)
next
  case (cons v vs)
  let ?X = "join ('','' @ w) (map pr vs) @ '']'' @ r"
  obtain v' vs' where vs: "vs = v' # vs'" using cons.hyps by (cases vs) auto
  have X: "json_ws ?X = ?X" using starts_ws [of "pr v'"] cons.prems(1) by (cases vs') (simp_all add: vs)
  have s: "join ('','' @ w) (map pr (v # vs)) @ '']'' @ r = pr v @ '','' @ w @ ?X" by (simp add: vs)
  have "parse_value (pr v @ '','' @ w @ ?X) = Inr (f v, '','' @ w @ ?X)"
    using cons.prems(2) by (simp add: marks_not_ws)
  moreover have "parse_elems ?X = Inr (map f vs, r)" using cons.IH cons.prems by simp
  ultimately show ?case unfolding s using X
    by (subst parse_elems.simps) (simp add: json_ws_none marks_not_ws json_ws_skip [OF assms(1)])
qed

lemma parse_members_text:
  assumes "list_all is_json_ws w" and "kvs \<noteq> []" and "\<forall>(k, v) \<in> set kvs. starts_value (pr v)"
    and "\<forall>(k, v) \<in> set kvs. \<forall>r. ends_number r \<longrightarrow> parse_value (pr v @ r) = Inr (f v, r)"
  shows "parse_members (join ('','' @ w) (map (\<lambda>(k, v). json_str k @ '':'' @ w @ pr v) kvs) @ ''}'' @ r) =
    Inr (map (\<lambda>(k, v). (k, f v)) kvs, r)"
  using assms(2-)
proof (induction kvs rule: list_nonempty_induct)
  case (single kv)
  obtain k v where kv: "kv = (k, v)" by fastforce
  have k: "json_string (concat (map json_char k) @ quotechar # '':'' @ w @ pr v @ ''}'' @ r) = Inr (k, '':'' @ w @ pr v @ ''}'' @ r)"
    by (rule json_string_text)
  have "json_ws (w @ pr v @ ''}'' @ r) = pr v @ ''}'' @ r" using starts_ws single kv by (simp add: json_ws_skip [OF assms(1)])
  then show ?case using single k kv
    by (subst parse_members.simps) (simp add: json_str_def json_ws_none marks_not_ws)
next
  case (cons kv kvs)
  obtain k v where kv: "kv = (k, v)" by fastforce
  let ?m = "\<lambda>(k, v). json_str k @ '':'' @ w @ pr v"
  let ?X = "join ('','' @ w) (map ?m kvs) @ ''}'' @ r"
  obtain k' v' kvs' where kvs: "kvs = (k', v') # kvs'" using cons.hyps by (cases kvs) auto
  have X: "json_ws ?X = ?X" by (cases kvs') (simp_all add: kvs json_str_def json_ws_none marks_not_ws)
  have s: "join ('','' @ w) (map ?m (kv # kvs)) @ ''}'' @ r =
      quotechar # concat (map json_char k) @ quotechar # '':'' @ w @ pr v @ '','' @ w @ ?X" by (simp add: kvs kv json_str_def)
  have k: "json_string (concat (map json_char k) @ quotechar # '':'' @ w @ pr v @ '','' @ w @ ?X) = Inr (k, '':'' @ w @ pr v @ '','' @ w @ ?X)"
    by (rule json_string_text)
  have "json_ws (w @ pr v @ '','' @ w @ ?X) = pr v @ '','' @ w @ ?X" using starts_ws cons.prems(1) kv by (simp add: json_ws_skip [OF assms(1)])
  moreover have "parse_value (pr v @ '','' @ w @ ?X) = Inr (f v, '','' @ w @ ?X)" using cons.prems(2) kv by (simp add: marks_not_ws)
  moreover have "parse_members ?X = Inr (map (\<lambda>(k, v). (k, f v)) kvs, r)" using cons.IH cons.prems by simp
  ultimately show ?case unfolding s using X k kv
    by (subst parse_members.simps) (simp add: json_ws_none marks_not_ws json_ws_skip [OF assms(1)])
qed

lemma print_starts:
  "\<forall>q \<in> set (floats_of v). number_text (fr q) q \<Longrightarrow> starts_value (json_print w fr v)"
  using number_first [of "hd (fr x)" for x] number_first [of "hd (py_str n)" for n] int_number_text
  by (cases v) (auto simp: starts_value_def number_text_def json_str_def is_json_ws_def)

lemma parse_printed:
  assumes "list_all is_json_ws w" and "\<forall>q \<in> set (floats_of v). number_text (fr q) q" and "ends_number r"
  shows "parse_value (json_print w fr v @ r) = Inr (json_of v, r)"
  using assms(2,3)
proof (induction v arbitrary: r)
  case (VInt n)
  then show ?case using parse_number [OF int_number_text] by simp
next
  case (VFloat x)
  then show ?case using parse_number by simp
next
  case (VBool b)
  then show ?case by (subst parse_value.simps) (simp add: startswith_def)
next
  case (VStr t)
  then show ?case using json_string_text [of t r] by (subst parse_value.simps) (simp add: json_str_def)
next
  case (VList vs)
  show ?case
  proof (cases "vs = []")
    case True
    then show ?thesis by (subst parse_value.simps) (simp add: json_ws_none marks_not_ws)
  next
    case False
    let ?X = "join ('','' @ w) (map (json_print w fr) vs) @ '']'' @ r"
    have st: "\<forall>v \<in> set vs. starts_value (json_print w fr v)" using VList.prems(1) by (auto intro!: print_starts)
    have "\<forall>v \<in> set vs. \<forall>r. ends_number r \<longrightarrow> parse_value (json_print w fr v @ r) = Inr (json_of v, r)"
      using VList by auto
    then have p: "parse_elems ?X = Inr (map json_of vs, r)" using parse_elems_text [OF assms(1) False st] by blast
    obtain v' vs' where vs: "vs = v' # vs'" using False by (cases vs) auto
    have "json_ws ?X = ?X" "hd ?X \<noteq> CHR '']''"
      using st starts_ws [of "json_print w fr v'"] by (cases vs'; auto simp: vs starts_value_def)+
    then show ?thesis using p by (subst parse_value.simps) simp
  qed
next
  case (VDict kvs)
  show ?case
  proof (cases "kvs = []")
    case True
    then show ?thesis by (subst parse_value.simps) (simp add: json_ws_none marks_not_ws dict_of_def)
  next
    case False
    let ?m = "\<lambda>(k, v). json_str k @ '':'' @ w @ json_print w fr v"
    let ?X = "join ('','' @ w) (map ?m kvs) @ ''}'' @ r"
    have st: "\<forall>(k, v) \<in> set kvs. starts_value (json_print w fr v)" using VDict.prems(1) by (auto intro!: print_starts)
    have "\<forall>(k, v) \<in> set kvs. \<forall>r. ends_number r \<longrightarrow> parse_value (json_print w fr v @ r) = Inr (json_of v, r)"
      using VDict by fastforce
    then have p: "parse_members ?X = Inr (map (\<lambda>(k, v). (k, json_of v)) kvs, r)" using parse_members_text [OF assms(1) False st] by blast
    obtain k' v' kvs' where kvs: "kvs = (k', v') # kvs'" using False by (cases kvs) auto
    have "json_ws ?X = ?X" "hd ?X \<noteq> CHR ''}''"
      by (cases kvs'; simp add: kvs json_str_def json_ws_none marks_not_ws)+
    then show ?thesis using p by (subst parse_value.simps) simp
  qed
qed

lemma loads_printed:
  assumes "list_all is_json_ws w" and "\<forall>q \<in> set (floats_of v). number_text (fr q) q"
    and "list_all is_json_ws pre" and "list_all is_json_ws post"
  shows "json_loads (pre @ json_print w fr v @ post) = Inr (json_of v)"
proof -
  have ws: "json_ws (pre @ json_print w fr v @ post) = json_print w fr v @ post"
    using json_ws_skip [OF assms(3)] starts_ws [OF print_starts [OF assms(2)]] by simp
  have "ends_number post" using assms(4) by (cases post) (auto simp: number_char_def is_json_ws_def is_decimal_def is_exp_mark_def)
  moreover have "json_ws post = []" using json_ws_skip [OF assms(4), of "[]"] by (simp add: json_ws_def)
  ultimately show ?thesis using parse_printed [OF assms(1,2)] by (simp add: json_loads_def ws)
qed

lemma json_dumps_print: "json_dumps fr v = json_print '' '' fr v"
  by (induction v) (auto simp: map_idI intro!: arg_cong [where f = "join _"])

text \<open>
  What a program that writes JSON promises to \<open>json.loads\<close>, and what follows: different
  values never have the same text. Python's \<open>json.dumps\<close>, which writes the configuration of
  the report's script, keeps the promise.
\<close>

locale json_writer =
  fixes pr :: "(rat \<Rightarrow> string) \<Rightarrow> jval \<Rightarrow> string"
  assumes reads_back: "\<forall>q \<in> set (floats_of v). number_text (fr q) q \<Longrightarrow> json_loads (pr fr v) = Inr (json_of v)"
begin

lemma texts_differ:
  "\<forall>q \<in> set (floats_of v). number_text (fr q) q \<Longrightarrow> \<forall>q \<in> set (floats_of v'). number_text (fr q) q \<Longrightarrow>
   pr fr v = pr fr v' \<Longrightarrow> json_of v = json_of v'"
  using reads_back [of v fr] reads_back [of v' fr] by simp

end

interpretation dumps: json_writer json_dumps
  by unfold_locales (use loads_printed [of "'' ''" _ _ "[]" "[]"] in \<open>simp add: json_dumps_print is_json_ws_def\<close>)

section \<open>Every value takes text\<close>

lemma json_string_shorter: "json_string s = Inr (t, r) \<Longrightarrow> length r < length s"
proof (induction s arbitrary: t rule: json_string.induct)
  case (2 c s)
  then show ?case
    by (auto simp: cons_char_def bindE_eq_Inr split: if_splits list.splits option.splits) force+
qed simp

lemma json_unsigned_shorter: "json_unsigned s = Some (q, b, r) \<Longrightarrow> length r < length s"
proof -
  assume a: "json_unsigned s = Some (q, b, r)"
  define ds where "ds = takeWhile is_decimal s"
  define r1 where "r1 = (if ds \<noteq> [] \<and> hd ds = CHR ''0'' then drop 1 s else dropWhile is_decimal s)"
  have ne: "ds \<noteq> []" and r: "r = snd (json_exponent (snd (json_fraction r1)))"
    using a by (auto simp: json_unsigned_def json_digits_def ds_def r1_def Let_def split_def split: if_splits)
  have "length ds + length (dropWhile is_decimal s) = length s" unfolding ds_def by (metis length_append takeWhile_dropWhile_id)
  moreover have "0 < length ds" using ne by blast
  ultimately have "length (dropWhile is_decimal s) < length s" "0 < length s" by linarith+
  then have "length r1 < length s" by (auto simp: r1_def)
  moreover have "length (snd (json_fraction x)) \<le> length x" for x
    using length_dropWhile_le [of is_decimal "tl x"] by (auto simp: json_fraction_def json_digits_def split: list.split)
  moreover have "length (snd (json_exponent x)) \<le> length x" for x
    using length_dropWhile_le [of is_decimal "tl x"] length_dropWhile_le [of is_decimal "tl (tl x)"]
    by (auto simp: json_exponent_def json_digits_def Let_def split: list.split)
  ultimately show ?thesis unfolding r by (meson le_less_trans)
qed

lemma json_number_shorter: "json_number s = Inr (q, r) \<Longrightarrow> length r < length s"
  by (auto simp: json_number_def Let_def split: list.splits if_splits option.splits prod.splits dest!: json_unsigned_shorter)

lemma parse_shorter:
  "\<forall>v r. parse_value s = Inr (v, r) \<longrightarrow> length r < length s"
  "\<forall>vs r. parse_elems s = Inr (vs, r) \<longrightarrow> length r < length s"
  "\<forall>kvs r. parse_members s = Inr (kvs, r) \<longrightarrow> length r < length s"
proof (induction s and s and s rule: parse_value_parse_elems_parse_members.induct)
  case (1 s)
  show ?case
  proof (intro allI impI)
    fix v r
    assume p: "parse_value s = Inr (v, r)"
    then obtain c s1 where s: "s = c # s1" by (cases s) (auto simp: parse_value.simps)
    have ws: "length (json_ws s1) \<le> length s1" "length (tl (json_ws s1)) \<le> length s1" using json_ws_length [of s1] by auto
    show "length r < length s"
      using p 1(1) [OF s] 1(2) [OF s] ws unfolding parse_value.simps [of s]
      by (auto simp: s bindE_eq_Inr split: if_splits sum.splits dest!: json_string_shorter json_number_shorter)
  qed
next
  case (2 s)
  show ?case
  proof (intro allI impI)
    fix vs r
    assume p: "parse_elems s = Inr (vs, r)"
    then obtain v r1 c t where v: "parse_value s = Inr (v, r1)" "json_ws r1 = c # t"
      unfolding parse_elems.simps [of s] by (auto split: sum.splits list.splits)
    have "length r1 < length s" using 2(1) v(1) by blast
    then have t: "length t < length s" using json_ws_length [of r1] v(2) by simp
    then show "length r < length s"
      using p 2(2) [OF v(1) refl v(2)] json_ws_length [of t] unfolding parse_elems.simps [of s]
      by (auto simp: v split: if_splits sum.splits)
  qed
next
  case (3 s)
  show ?case
  proof (intro allI impI)
    fix kvs r
    assume p: "parse_members s = Inr (kvs, r)"
    obtain s1 where s: "s = quotechar # s1" using p by (cases s) (auto simp: parse_members.simps split: if_splits)
    obtain k s2 s3 where k: "json_string s1 = Inr (k, s2)" "json_ws s2 = CHR '':'' # s3"
      using p unfolding parse_members.simps [of s] by (auto simp: s split: sum.splits list.splits if_splits)
    have len: "length (json_ws s3) < length s"
      using json_string_shorter [OF k(1)] json_ws_length [of s2] json_ws_length [of s3] k(2) by (simp add: s)
    obtain v r1 c t where v: "parse_value (json_ws s3) = Inr (v, r1)" "json_ws r1 = c # t"
      using p k len unfolding parse_members.simps [of s] by (auto simp: s split: sum.splits list.splits)
    have "length r1 < length (json_ws s3)" using 3(1) [OF s _ k(1) refl k(2)] len v(1) by blast
    then have t: "length t < length s" using json_ws_length [of r1] v(2) len by simp
    then show "length r < length s"
      using p k len v 3(2) [OF s _ k(1) refl k(2) _ v(1) refl v(2)] json_ws_length [of t] unfolding parse_members.simps [of s]
      by (auto simp: s split: if_splits sum.splits)
  qed
qed

section \<open>One line\<close>

lemma json_char_plain: "c \<in> set (json_char x) \<Longrightarrow> 32 \<le> ord c \<and> ord c \<le> 126"
proof -
  assume c: "c \<in> set (json_char x)"
  have "32 \<le> ord (hex_digit d) \<and> ord (hex_digit d) \<le> 126" if "d < 16" for d using that by (simp add: hex_digit_def)
  from this [of "ord x div 16"] this [of "ord x mod 16"] c show ?thesis
    using nat_of_char_less_256 [of x] unfolding json_char_def short_escape_def
    by (auto simp: less_mult_imp_div_less split: if_splits option.splits)
qed

definition visible_char :: "char \<Rightarrow> bool" where
  "visible_char c \<longleftrightarrow> 32 \<le> ord c \<and> ord c \<le> 126"

lemma marks_visible: "visible_char (CHR ''['')" "visible_char (CHR '']'')" "visible_char (CHR ''{'')" "visible_char (CHR ''}'')"
    "visible_char (CHR '','')" "visible_char (CHR '':'')"
  by (simp_all add: visible_char_def)

lemma visible_join: "list_all visible_char sep \<Longrightarrow> list_all (list_all visible_char) ts \<Longrightarrow> list_all visible_char (join sep ts)"
  by (induction sep ts rule: join.induct) auto

lemma visible_number: "number_text t q \<Longrightarrow> list_all visible_char t"
  by (auto simp: number_text_def list_all_iff visible_char_def number_char_def is_decimal_def is_exp_mark_def)

lemma visible_str: "list_all visible_char (json_str s)"
  using json_char_plain by (auto simp: json_str_def list_all_iff visible_char_def)

lemma printed_visible:
  assumes "list_all visible_char w" and "\<forall>q \<in> set (floats_of v). number_text (fr q) q"
  shows "list_all visible_char (json_print w fr v)"
  using assms(2)
proof (induction v)
  case (VInt n)
  then show ?case using visible_number [OF int_number_text] by simp
next
  case (VFloat x)
  then show ?case using visible_number by simp
next
  case (VList vs)
  have "list_all visible_char (join ('','' @ w) (map (json_print w fr) vs))"
    using VList assms(1) by (intro visible_join) (auto simp: list_all_iff marks_visible)
  then show ?case by (simp add: marks_visible)
next
  case (VDict kvs)
  have "list_all visible_char (json_str k @ '':'' @ w @ json_print w fr v)" if "(k, v) \<in> set kvs" for k v
    using VDict.IH [of "(k, v)" v] VDict.prems that assms(1) visible_str [of k] by (force simp: marks_visible)
  then have "list_all visible_char (join ('','' @ w) (map (\<lambda>(k, v). json_str k @ '':'' @ w @ json_print w fr v) kvs))"
    using assms(1) by (intro visible_join) (auto simp: list_all_iff marks_visible)
  then show ?case by (simp add: marks_visible)
qed (simp_all add: visible_str visible_char_def)

lemma splitlines_one: "s \<noteq> [] \<Longrightarrow> list_all visible_char s \<Longrightarrow> splitlines s = [s]"
proof (induction s rule: splitlines.induct)
  case (3 c d s)
  then have "\<not> is_linebreak c" "ord c \<noteq> 13" by (auto simp: is_linebreak_def visible_char_def)
  then show ?case using 3 by simp
qed (auto simp: is_linebreak_def visible_char_def)

text \<open>The last line of an output that is one line of JSON without a space at its ends.\<close>

lemma last_line_one:
  assumes "list_all visible_char s" and "s \<noteq> []" and "\<not> is_space (hd s)" and "\<not> is_space (last s)"
  shows "last_line (s @ [LF]) = s"
proof -
  have "dropWhile is_space (s @ [LF]) = s @ [LF]" using assms(2,3) by (cases s) auto
  moreover have "dropWhile is_space (rev (s @ [LF])) = rev s" using assms(2,4) by (cases s rule: rev_cases) (auto simp: is_space_def)
  ultimately have "strip (s @ [LF]) = s" by (simp add: strip_def)
  then show ?thesis using splitlines_one [OF assms(2,1)] assms(2) by (simp add: last_line_def)
qed

end
