(* ===== verification/Loadgen_Out.thy ===== *)
theory Loadgen_Out
  imports Loadgen_Shared Pipeline Json
begin

text \<open>
  What the load generator reports at the end (\<open>main\<close> of \<open>loadgen/main.go\<close>): the percentiles,
  the timeline of the non-empty windows, the stability of the windows, its own CPU use and
  the share of the scheduled moves it sent, as one JSON object, and what the runner
  (\<open>runner/run.py\<close>) records of it. Values are real numbers until they are printed; the
  rounding of a result to a 64-bit float is the argument \<open>f64\<close>, its text \<open>ftxt\<close>. \<open>json.Marshal\<close> orders the
  keys of a map and refuses infinities and not-a-number, which only a run of no time gives.
\<close>

section \<open>Definitions\<close>

record lg_opts =
  lo_addr :: string
  lo_conns :: int
  lo_room_size :: int
  lo_rate :: int
  lo_dur :: int
  lo_warm :: int
  lo_json :: bool

definition pct_ms :: "hist \<Rightarrow> rat \<Rightarrow> real" where
  "pct_ms h p = percentile h p / 1000"

text \<open>The windows that saw a latency, with their number.\<close>

definition busy_windows :: "hist list \<Rightarrow> (nat \<times> hist) list" where
  "busy_windows ws = filter (\<lambda>(i, h). hist_total h \<noteq> 0) (enumerate 0 ws)"

definition window_row :: "nat \<times> hist \<Rightarrow> real list" where
  "window_row = (\<lambda>(i, h). [of_nat i, pct_ms h (1 / 2), pct_ms h (9 / 10), pct_ms h (99 / 100), pct_ms h (999 / 1000), pct_ms h 1])"

definition p99_windows :: "hist list \<Rightarrow> real list" where
  "p99_windows ws = map (\<lambda>(i, h). pct_ms h (99 / 100)) (busy_windows ws)"

definition send_rate :: "lg_opts \<Rightarrow> lg_globals \<Rightarrow> real" where
  "send_rate lo g =
     (let target = of_int (lo_conns lo) * of_int (lo_rate lo) * (of_int (lo_dur lo) / 10 ^ 9)
      in if target > 0 then 100 * of_nat (unat (movesMeasured g)) / target else 100)"

text \<open>The object; \<open>secs\<close> is the time since the start, \<open>usage\<close> the answer of \<open>getrusage\<close>.\<close>

definition lg_object :: "(real \<Rightarrow> rat) \<Rightarrow> lg_opts \<Rightarrow> rat \<Rightarrow> (rat \<times> rat) option \<Rightarrow> lg_globals \<Rightarrow> jval option" where
  "lg_object f64 lo secs usage g =
     (if secs = 0 then None
      else
        let num = (\<lambda>x. VFloat (f64 x));
            p = pct_ms (lg_hist g);
            (p99Worst, p99CV) = stabilityStats (p99_windows (windows g))
        in Some (VDict
          [(''client_cpu_cores'', num (selfCPUCores (of_rat secs) usage)),
           (''conns'', VInt (lo_conns lo)),
           (''max_ms'', num (p 1)),
           (''measured'', VInt (uint (measured g))),
           (''moves_per_s'', num (of_int (uint (movesSent g)) / of_rat secs)),
           (''moves_sent'', VInt (uint (movesSent g))),
           (''p50_ms'', num (p (1 / 2))),
           (''p90_ms'', num (p (9 / 10))),
           (''p999_ms'', num (p (999 / 1000))),
           (''p99_cv'', num p99CV),
           (''p99_ms'', num (p (99 / 100))),
           (''p99_worst_1s_ms'', num p99Worst),
           (''send_rate_pct'', num (send_rate lo g)),
           (''snaps_per_s'', num (of_int (uint (snapsRecv g)) / of_rat secs)),
           (''snaps_recv'', VInt (uint (snapsRecv g))),
           (''timeline'', VList (map (\<lambda>r. VList (map num r)) (map window_row (busy_windows (windows g)))))]))"

text \<open>The text: no white space, keys that need no escape, floats in the format \<open>ftxt\<close>, and a newline.\<close>

definition go_println :: "(rat \<Rightarrow> string) \<Rightarrow> jval \<Rightarrow> string" where
  "go_println ftxt v = json_print [] ftxt v @ [LF]"

section \<open>What the runner records of it\<close>

lemma busy_windows_nth:
  "map fst (busy_windows ws) = filter (\<lambda>i. hist_total (ws ! i) \<noteq> 0) [0..<length ws]"
proof -
  have e: "enumerate 0 ws = map (\<lambda>i. (i, ws ! i)) [0..<length ws]" by (rule nth_equalityI) (simp_all add: nth_enumerate_eq)
  have "filter (\<lambda>(i, h). hist_total h \<noteq> 0) (enumerate 0 ws) = map (\<lambda>i. (i, ws ! i)) (filter (\<lambda>i. hist_total (ws ! i) \<noteq> 0) [0..<length ws])"
    by (subst e) (simp add: filter_map comp_def)
  then show ?thesis by (simp add: busy_windows_def comp_def)
qed

definition latency_columns :: "(string \<times> rat) list" where
  "latency_columns = [(''p50_ms'', 1 / 2), (''p90_ms'', 9 / 10), (''p99_ms'', 99 / 100), (''p999_ms'', 999 / 1000), (''max_ms'', 1)]"

lemma lg_object_row:
  assumes "lg_object f64 lo secs usage g = Some v" and "cpu_cores_of h (a_warmup a + a_dur a) sm = Inr c"
  shows "\<exists>row. make_row h a name n trial (json_of v) sm = Inr row
    \<and> list_all (\<lambda>(f, p). dict_get row f = Some (CNum (round_nd (f64 (pct_ms (lg_hist g) p)) 2))) latency_columns
    \<and> dict_get row ''measured'' = Some (CJson (JNum (of_int (uint (measured g)))))
    \<and> dict_get row ''send_rate_pct'' = Some (CNum (round_nd (f64 (send_rate lo g)) 1))"
  using assms
  by (auto simp: lg_object_def Let_def split_def dict_of_distinct make_row_def row_items_def build_dict_def as_is_def rounded_def
      json_item_def json_get_def json_num_def latency_columns_def split: if_splits)

lemma lg_object_timeline:
  "lg_object f64 lo secs usage g = Some v \<Longrightarrow>
   bindE (json_get (json_of v) ''timeline'' (JArr [])) json_list =
     Inr (map (\<lambda>iw. JArr (map (\<lambda>x. JNum (f64 x)) (window_row iw))) (busy_windows (windows g)))"
  by (auto simp: lg_object_def Let_def split_def dict_of_distinct json_get_def json_list_def comp_def split: if_splits)

interpretation go_json: json_writer go_println
  by unfold_locales (use loads_printed [of "[]" _ _ "[]" "[LF]"] in \<open>simp add: go_println_def is_json_ws_def\<close>)

text \<open>The runner reads the printed line back as the object.\<close>

lemma loads_go_println:
  assumes "lg_object f64 lo secs usage g = Some v" and "\<forall>q \<in> set (floats_of v). number_text (ftxt q) q"
  shows "json_loads (last_line (go_println ftxt v)) = Inr (json_of v)"
proof -
  obtain kvs where v: "v = VDict kvs" using assms(1) by (auto simp: lg_object_def Let_def split_def split: if_splits)
  let ?s = "json_print [] ftxt v"
  have "list_all visible_char ?s" using printed_visible [OF _ assms(2), of "[]"] by simp
  moreover have "?s \<noteq> []" "\<not> is_space (hd ?s)" "\<not> is_space (last ?s)" by (simp_all add: v is_space_def)
  ultimately have "last_line (go_println ftxt v) = ?s" unfolding go_println_def by (rule last_line_one)
  then show ?thesis using loads_printed [OF _ assms(2), of "[]" "[]" "[]"] by simp
qed

lemma window_timeline_row:
  assumes "f64 (of_nat (fst iw)) = of_nat (fst iw)"
  shows "\<exists>row. timeline_row name n trial (JArr (map (\<lambda>x. JNum (f64 x)) (window_row iw))) = Inr row
    \<and> dict_get row ''t_s'' = Some (CInt (int (fst iw)))
    \<and> list_all (\<lambda>(f, p). dict_get row f = Some (CNum (round_nd (f64 (pct_ms (snd iw) p)) 2))) latency_columns"
  using assms
  by (cases iw) (auto simp: window_row_def timeline_row_def json_list_def unpack6_def build_dict_def rounded_def json_num_def json_int_def
      latency_columns_def)

lemma bind_put_log: "bindIO (put_log x) f w = f () (w\<lparr>log := log w @ [x]\<rparr>)"
  by (simp add: bindIO_def put_log_def)

lemma write_timeline:
  assumes "\<forall>x \<in> set xs. \<exists>row. timeline_row name n trial (f x) = Inr row \<and> P x row"
  shows "\<exists>trs. list_all2 P xs trs \<and>
    (\<forall>w. forIO (\<lambda>v. bindIO (pureIO (timeline_row name n trial v)) (writerow tl_fields ATimeline)) (map f xs) w =
      (Inr (), w\<lparr>log := log w @ map ATimeline trs\<rparr>))"
  using assms
proof (induction xs)
  case (Cons x xs)
  have "\<forall>x \<in> set xs. \<exists>row. timeline_row name n trial (f x) = Inr row \<and> P x row" using Cons.prems by simp
  from Cons.IH [OF this] obtain trs where trs: "list_all2 P xs trs"
    "\<And>w. forIO (\<lambda>v. bindIO (pureIO (timeline_row name n trial v)) (writerow tl_fields ATimeline)) (map f xs) w =
      (Inr (), w\<lparr>log := log w @ map ATimeline trs\<rparr>)" by blast
  obtain row where row: "timeline_row name n trial (f x) = Inr row" "P x row" using Cons.prems by auto
  have "bindIO (pureIO (timeline_row name n trial (f x))) (writerow tl_fields ATimeline) = put_log (ATimeline row)"
    using writerow_full [OF timeline_row_shape [OF row(1)] distinct_fields(2), of ATimeline] row(1)
    by (simp add: fun_eq_iff bindIO_def)
  then show ?case using trs row(2) by (intro exI [of _ "row # trs"]) (simp add: bind_put_log del: pureIO_eq)
qed simp

text \<open>What is written of a run: the warnings of \<open>main\<close> about the client.\<close>

definition client_warnings :: "int list \<Rightarrow> int \<Rightarrow> result_row \<Rightarrow> act list" where
  "client_warnings cores n row =
     (if cell_num (dict_get row ''client_cpu_cores'') > 17 / 20 * of_nat (length cores) then [AWarn (ClientSaturated n)] else []) @
     (if cell_num (dict_get row ''send_rate_pct'') < 97 then [AWarn (SenderBehind n)] else [])"

lemma record_result_log:
  assumes "make_row h a name n trial j sm = Inr row" and "bindE (json_get j ''timeline'' (JArr [])) json_list = Inr vs"
    and "\<And>w. forIO (\<lambda>v. bindIO (pureIO (timeline_row name n trial v)) (writerow tl_fields ATimeline)) vs w =
      (Inr (), w\<lparr>log := log w @ tl_log\<rparr>)"
  shows "record_result h a cores name n trial j sm w =
    (Inr (), w\<lparr>log := log w @ ARow row # client_warnings cores n row @ tl_log\<rparr>)"
  using writerow_full [OF make_row_shape(1) [OF assms(1)] distinct_fields(1), of ARow] assms(3)
  by (simp add: record_result_def bindIO_def assms(1,2) put_log_def warn_def client_warnings_def)

text \<open>C6: The load generator's output is what the runner expects. After a run of some time the
  runner reads the line the generator prints, and the object has every field, of the right
  type, that it uses: it records one result row with the percentiles of all latencies, and
  one timeline row for exactly the windows that saw a latency, in order, with the second of
  the window and its percentiles; it warns that the sender is behind exactly when the rounded
  share of the scheduled moves is below 97 percent. The texts of the floats are any JSON
  numbers that read back as the floats, and \<open>loads\<close> agrees with \<open>json_loads\<close>.\<close>

theorem generator_output_is_recorded:
  assumes "cpu_cores_of h (a_warmup a + a_dur a) sm = Inr c"
    and "\<forall>i < length (windows g). f64 (of_nat i) = of_nat i"
    and "lg_object f64 lo secs usage g = Some v" and "\<forall>q \<in> set (floats_of v). number_text (ftxt q) q"
    and "o_run w (now w) = Inr (rc, go_println ftxt v, err)" and "\<forall>s j. json_loads s = Inr j \<longrightarrow> loads s = Some j"
  shows "\<exists>j row trs w'. run_loadgen loads h argv cores w = (Inr (Some j), w')
    \<and> record_result h a cores name n trial j sm w' =
        (Inr (), w'\<lparr>log := log w' @ ARow row # client_warnings cores n row @ map ATimeline trs\<rparr>)
    \<and> list_all (\<lambda>(f, p). dict_get row f = Some (CNum (round_nd (f64 (pct_ms (lg_hist g) p)) 2))) latency_columns
    \<and> (AWarn (SenderBehind n) \<in> set (client_warnings cores n row) \<longleftrightarrow> round_nd (f64 (send_rate lo g)) 1 < 97)
    \<and> map (\<lambda>r. dict_get r ''t_s'') trs =
        map (\<lambda>i. Some (CInt (int i))) (filter (\<lambda>i. hist_total (windows g ! i) \<noteq> 0) [0..<length (windows g)])
    \<and> list_all2 (\<lambda>(i, hw) r. list_all (\<lambda>(f, p). dict_get r f = Some (CNum (round_nd (f64 (pct_ms hw p)) 2))) latency_columns)
        (busy_windows (windows g)) trs"
proof -
  let ?j = "json_of v" and ?w = "elapse 0 [ARun (taskset_wrap h argv (cpuspec cores)) []] w"
  have "loads (last_line (go_println ftxt v)) = Some ?j" using loads_go_println [OF assms(3,4)] assms(6) by blast
  moreover have "?j \<noteq> JNull" by (cases v) simp_all
  ultimately have rd: "run_loadgen loads h argv cores w = (Inr (Some ?j), ?w)"
    using assms(5) by (simp add: run_loadgen_def bindIO_def run_command_def)
  obtain row where row: "make_row h a name n trial ?j sm = Inr row"
    "list_all (\<lambda>(f, p). dict_get row f = Some (CNum (round_nd (f64 (pct_ms (lg_hist g) p)) 2))) latency_columns"
    "dict_get row ''send_rate_pct'' = Some (CNum (round_nd (f64 (send_rate lo g)) 1))"
    using lg_object_row [OF assms(3,1)] by blast
  let ?P = "\<lambda>iw r. dict_get r ''t_s'' = Some (CInt (int (fst iw))) \<and>
    list_all (\<lambda>(f, p). dict_get r f = Some (CNum (round_nd (f64 (pct_ms (snd iw) p)) 2))) latency_columns"
  have "\<forall>iw \<in> set (busy_windows (windows g)). \<exists>r. timeline_row name n trial (JArr (map (\<lambda>x. JNum (f64 x)) (window_row iw))) = Inr r \<and> ?P iw r"
  proof
    fix iw
    assume "iw \<in> set (busy_windows (windows g))"
    then have "fst iw < length (windows g)" by (auto simp: busy_windows_def in_set_enumerate_eq)
    then show "\<exists>r. timeline_row name n trial (JArr (map (\<lambda>x. JNum (f64 x)) (window_row iw))) = Inr r \<and> ?P iw r"
      using assms(2) by (intro window_timeline_row) simp
  qed
  from write_timeline [OF this] obtain trs where trs: "list_all2 ?P (busy_windows (windows g)) trs"
    "\<And>w. forIO (\<lambda>v. bindIO (pureIO (timeline_row name n trial v)) (writerow tl_fields ATimeline))
        (map (\<lambda>iw. JArr (map (\<lambda>x. JNum (f64 x)) (window_row iw))) (busy_windows (windows g))) w =
      (Inr (), w\<lparr>log := log w @ map ATimeline trs\<rparr>)" by blast
  have "map (\<lambda>r. dict_get r ''t_s'') trs = map (\<lambda>iw. Some (CInt (int (fst iw)))) (busy_windows (windows g))"
    using trs(1) by (induction rule: list_all2_induct) simp_all
  also have "\<dots> = map (\<lambda>i. Some (CInt (int i))) (filter (\<lambda>i. hist_total (windows g ! i) \<noteq> 0) [0..<length (windows g)])"
    by (simp add: busy_windows_nth [symmetric])
  finally have t_s: "map (\<lambda>r. dict_get r ''t_s'') trs = \<dots>" .
  have "list_all2 (\<lambda>(i, hw) r. list_all (\<lambda>(f, p). dict_get r f = Some (CNum (round_nd (f64 (pct_ms hw p)) 2))) latency_columns)
        (busy_windows (windows g)) trs"
    using trs(1) by (rule list_all2_mono) auto
  moreover have "AWarn (SenderBehind n) \<in> set (client_warnings cores n row) \<longleftrightarrow> round_nd (f64 (send_rate lo g)) 1 < 97"
    by (simp add: client_warnings_def row(3) cell_num_def)
  ultimately show ?thesis
    using rd row(2) t_s record_result_log [OF row(1) lg_object_timeline [OF assms(3)] trs(2)] by blast
qed

lemma floats_of_object:
  "lg_object f64 lo secs usage g = Some v \<Longrightarrow> set (floats_of v) \<subseteq> range f64"
  by (auto simp: lg_object_def Let_def split_def split: if_splits)

definition demo_f64 :: "real \<Rightarrow> rat" where
  "demo_f64 x = of_int \<lfloor>x\<rfloor>"

definition demo_ftxt :: "rat \<Rightarrow> string" where
  "demo_ftxt q = py_str \<lfloor>q\<rfloor>"

definition demo_loads :: "string \<Rightarrow> json option" where
  "demo_loads s = (case json_loads s of Inr j \<Rightarrow> Some j | Inl _ \<Rightarrow> None)"

definition demo_opts :: lg_opts where
  "demo_opts = \<lparr>lo_addr = ''127.0.0.1:9100'', lo_conns = 1, lo_room_size = 50, lo_rate = 20, lo_dur = 2000000000, lo_warm = 0, lo_json = True\<rparr>"

theorem generator_output_is_recorded_witness:
  "let g = (new_globals 2000000000)\<lparr>lg_hist := hist_record 6 new_hist, windows := [new_hist, hist_record 6 new_hist]\<rparr>;
       v = the (lg_object demo_f64 demo_opts 25 None g);
       w = demo_world\<lparr>o_run := \<lambda>_. Inr (0, go_println demo_ftxt v, [])\<rparr> in
    \<exists>j row tr w'. run_loadgen demo_loads demo_host [''loadgen''] [2, 3] w = (Inr (Some j), w')
    \<and> record_result demo_host demo_args [2, 3] ''go'' 1 1 j (new_sampler []) w' =
        (Inr (), w'\<lparr>log := log w' @ ARow row # client_warnings [2, 3] 1 row @ [ATimeline tr]\<rparr>)
    \<and> dict_get tr ''t_s'' = Some (CInt 1)"
proof -
  let ?g = "(new_globals 2000000000)\<lparr>lg_hist := hist_record 6 new_hist, windows := [new_hist, hist_record 6 new_hist]\<rparr>"
  have f: "\<forall>i < length (windows ?g). demo_f64 (of_nat i) = of_nat i" by (simp add: demo_f64_def)
  have c: "cpu_cores_of demo_host (a_warmup demo_args + a_dur demo_args) (new_sampler []) = Inr 0"
    by (simp add: cpu_cores_of_def new_sampler_def)
  obtain v where v: "lg_object demo_f64 demo_opts 25 None ?g = Some v" by (simp add: lg_object_def Let_def split_def)
  have t: "\<forall>q \<in> set (floats_of v). number_text (demo_ftxt q) q"
    using floats_of_object [OF v] int_number_text by (fastforce simp: demo_f64_def demo_ftxt_def)
  let ?w = "demo_world\<lparr>o_run := \<lambda>_. Inr (0, go_println demo_ftxt v, [])\<rparr>"
  have r: "o_run ?w (now ?w) = Inr (0, go_println demo_ftxt v, [])" by simp
  have l: "\<forall>s j. json_loads s = Inr j \<longrightarrow> demo_loads s = Some j" by (simp add: demo_loads_def)
  have t0: "hist_total new_hist = 0" by (simp add: hist_total_sum new_hist_def sum_list_replicate)
  then have t1: "hist_total (hist_record 6 new_hist) = 1" by (simp add: hist_total_record)
  have u: "filter (\<lambda>i. hist_total (windows ?g ! i) \<noteq> 0) [0..<length (windows ?g)] = [1]"
    using t0 t1 by (simp add: upt_conv_Cons)
  obtain j row trs w' where *: "run_loadgen demo_loads demo_host [''loadgen''] [2, 3] ?w = (Inr (Some j), w')"
    "record_result demo_host demo_args [2, 3] ''go'' 1 1 j (new_sampler []) w' =
        (Inr (), w'\<lparr>log := log w' @ ARow row # client_warnings [2, 3] 1 row @ map ATimeline trs\<rparr>)"
    "map (\<lambda>r. dict_get r ''t_s'') trs = map (\<lambda>i. Some (CInt (int i))) [1]"
    using generator_output_is_recorded [OF c f v t r l, of "[''loadgen'']" "[2, 3]" "''go''" 1 1] unfolding u by (elim exE conjE)
  then obtain tr where "trs = [tr]" "dict_get tr ''t_s'' = Some (CInt 1)" by auto
  with * show ?thesis unfolding Let_def v option.sel by auto
qed

end
