(* ===== verification/Argparse.thy ===== *)
theory Argparse
  imports Bench Report_Page
begin

text \<open>
  The command lines of the runner and the report: what \<open>argparse\<close> makes of the options that
  \<open>main\<close> of \<open>runner/run.py\<close> and \<open>runner/plot.py\<close> declare, and both programs from their
  arguments on. Every string is an option (by its full name, by a unique prefix of a long
  name, with \<open>=value\<close> or, after one dash, with the value attached) or an argument; options
  take one argument each, and are handled from left to right. All complaints end the program
  with status 2, the help option with status 0. Two things depend on the version of Python
  and are \<open>OutOfModel\<close>: the separator of two dashes, and the short help option with more
  characters after it.
\<close>

section \<open>Definitions\<close>

datatype arg_type = TStr | TInt | TFloat | TChoice "string list"

datatype arg_val = AStr string | AInt int | ANum rat

text \<open>The declared options: their names, where the value goes, and its type.\<close>

record arg_option =
  op_names :: "string list"
  op_dest :: string
  op_type :: arg_type

definition opt :: "string \<Rightarrow> string \<Rightarrow> arg_type \<Rightarrow> arg_option" where
  "opt name dest ty = \<lparr>op_names = [name], op_dest = dest, op_type = ty\<rparr>"

definition is_negative_number :: "string \<Rightarrow> bool" where
  "is_negative_number s =
     (case s of
        [] \<Rightarrow> False
      | c # r \<Rightarrow> c = CHR ''-'' \<and>
          (r \<noteq> [] \<and> list_all is_decimal r \<or>
           (let i = takeWhile is_decimal r; f = drop (length i) r
            in f \<noteq> [] \<and> hd f = CHR ''.'' \<and> tl f \<noteq> [] \<and> list_all is_decimal (tl f))))"

datatype arg_kind = KArg | KOpt arg_option "string option" | KHelp "string option" | KUnknown | KAmbiguous | KOther

definition help_names :: "string list" where
  "help_names = [''-h'', ''--help'']"

text \<open>All names, with the option or \<open>None\<close> for help.\<close>

definition all_names :: "arg_option list \<Rightarrow> (string \<times> arg_option option) list" where
  "all_names opts = map (\<lambda>n. (n, None)) help_names @ concat (map (\<lambda>x. map (\<lambda>n. (n, Some x)) (op_names x)) opts)"

fun kind_of :: "arg_option option \<Rightarrow> string option \<Rightarrow> arg_kind" where
  "kind_of None v = KHelp v"
| "kind_of (Some x) v = KOpt x v"

definition before_eq :: "string \<Rightarrow> string" where
  "before_eq s = takeWhile (\<lambda>c. c \<noteq> CHR ''='') s"

definition after_eq :: "string \<Rightarrow> string option" where
  "after_eq s = (if CHR ''='' \<in> set s then Some (drop (Suc (length (before_eq s))) s) else None)"

text \<open>What is left when no name is the whole string or the part before an equals sign.\<close>

definition classify_rest :: "arg_option list \<Rightarrow> string \<Rightarrow> arg_kind" where
  "classify_rest opts s =
     (if s ! 1 = CHR ''-''
      then case filter (\<lambda>(n, _). startswith n (before_eq s)) (all_names opts) of
             [(n, x)] \<Rightarrow> kind_of x (after_eq s)
           | _ # _ # _ \<Rightarrow> KAmbiguous
           | [] \<Rightarrow> if is_negative_number s \<or> CHR '' '' \<in> set s then KArg else KUnknown
      else case dict_get (all_names opts) (take 2 s) of
             Some None \<Rightarrow> KOther
           | Some (Some x) \<Rightarrow> KOpt x (Some (drop 2 s))
           | None \<Rightarrow> if is_negative_number s \<or> CHR '' '' \<in> set s then KArg else KUnknown)"

definition classify :: "arg_option list \<Rightarrow> string \<Rightarrow> arg_kind" where
  "classify opts s =
     (if s = [] \<or> hd s \<noteq> CHR ''-'' then KArg
      else if s = ''--'' then KOther
      else case dict_get (all_names opts) s of
             Some x \<Rightarrow> kind_of x None
           | None \<Rightarrow>
               if length s = 1 then KArg
               else if CHR ''='' \<in> set s \<and> before_eq s = ''-h'' then KOther
               else case (if CHR ''='' \<in> set s then dict_get (all_names opts) (before_eq s) else None) of
                      Some x \<Rightarrow> kind_of x (after_eq s)
                    | None \<Rightarrow> classify_rest opts s)"

text \<open>The type of the option; a value the type refuses ends the program.\<close>

definition convert :: "arg_type \<Rightarrow> string \<Rightarrow> arg_val py" where
  "convert ty s =
     (case ty of
        TStr \<Rightarrow> Inr (AStr s)
      | TInt \<Rightarrow> (case py_int s of Inr n \<Rightarrow> Inr (AInt n) | Inl e \<Rightarrow> Inl (SystemExit 2))
      | TFloat \<Rightarrow> (case py_float s of Inr q \<Rightarrow> Inr (ANum q) | Inl e \<Rightarrow> Inl (if e = OutOfModel then OutOfModel else SystemExit 2))
      | TChoice cs \<Rightarrow> if s \<in> set cs then Inr (AStr s) else Inl (SystemExit 2))"

text \<open>
  What has been found: the values by destination, the positional argument, and whether
  something was left over. \<open>pos\<close> says whether the program declares a positional argument.
\<close>

record found =
  f_vals :: "(string \<times> arg_val) list"
  f_pos :: "string option"
  f_extra :: bool

definition nothing_found :: found where
  "nothing_found = \<lparr>f_vals = [], f_pos = None, f_extra = False\<rparr>"

definition store :: "arg_option \<Rightarrow> string \<Rightarrow> found \<Rightarrow> found py" where
  "store x v st = bindE (convert (op_type x) v) (\<lambda>r. Inr (st\<lparr>f_vals := dict_set (op_dest x) r (f_vals st)\<rparr>))"

fun consume :: "arg_option list \<Rightarrow> bool \<Rightarrow> string list \<Rightarrow> found \<Rightarrow> found py" where
  "consume opts pos [] st = (if f_extra st then Inl (SystemExit 2) else Inr st)"
| "consume opts pos (s # rest) st =
     (case classify opts s of
        KArg \<Rightarrow>
          if pos \<and> f_pos st = None then consume opts pos rest (st\<lparr>f_pos := Some s\<rparr>)
          else consume opts pos rest (st\<lparr>f_extra := True\<rparr>)
      | KUnknown \<Rightarrow> consume opts pos rest (st\<lparr>f_extra := True\<rparr>)
      | KAmbiguous \<Rightarrow> Inl (SystemExit 2)
      | KOther \<Rightarrow> Inl OutOfModel
      | KHelp None \<Rightarrow> Inl (SystemExit 0)
      | KHelp (Some _) \<Rightarrow> Inl (SystemExit 2)
      | KOpt x (Some v) \<Rightarrow> bindE (store x v st) (consume opts pos rest)
      | KOpt x None \<Rightarrow>
          (case rest of
             [] \<Rightarrow> Inl (SystemExit 2)
           | v # rest' \<Rightarrow>
               (case classify opts v of
                  KArg \<Rightarrow> bindE (store x v st) (consume opts pos rest')
                | KOther \<Rightarrow> Inl OutOfModel
                | _ \<Rightarrow> Inl (SystemExit 2))))"

section \<open>The two programs\<close>

definition run_options :: "arg_option list" where
  "run_options =
     [opt ''--servers'' ''servers'' TStr, opt ''--conns'' ''conns'' TStr, opt ''--trials'' ''trials'' TInt,
      opt ''--room-size'' ''room_size'' TInt, opt ''--rate'' ''rate'' TInt, opt ''--tick'' ''tick'' TInt,
      opt ''--warmup'' ''warmup'' TInt, opt ''--dur'' ''dur'' TInt,
      opt ''--server-cores'' ''server_cores'' TStr, opt ''--client-cores'' ''client_cores'' TStr,
      opt ''--out'' ''out'' TStr, opt ''--cooldown'' ''cooldown'' TFloat,
      opt ''--loadgen'' ''loadgen'' (TChoice [''odin'', ''go''])]"

definition val_str :: "found \<Rightarrow> string \<Rightarrow> string \<Rightarrow> string" where
  "val_str st k d = (case dict_get (f_vals st) k of Some (AStr s) \<Rightarrow> s | _ \<Rightarrow> d)"

definition val_int :: "found \<Rightarrow> string \<Rightarrow> int \<Rightarrow> int" where
  "val_int st k d = (case dict_get (f_vals st) k of Some (AInt n) \<Rightarrow> n | _ \<Rightarrow> d)"

definition val_num :: "found \<Rightarrow> string \<Rightarrow> rat \<Rightarrow> rat" where
  "val_num st k d = (case dict_get (f_vals st) k of Some (ANum q) \<Rightarrow> q | _ \<Rightarrow> d)"

definition args_of :: "host \<Rightarrow> found \<Rightarrow> args" where
  "args_of h st = \<lparr>
     a_servers = val_str st ''servers'' ''go,rust,ocaml,odin,elixir,python'',
     a_conns = val_str st ''conns'' ''500,1000,2000,5000,10000'',
     a_trials = val_int st ''trials'' 3, a_room_size = val_int st ''room_size'' 50,
     a_rate = val_int st ''rate'' 20, a_tick = val_int st ''tick'' 30,
     a_warmup = val_int st ''warmup'' 5, a_dur = val_int st ''dur'' 20,
     a_server_cores = val_str st ''server_cores'' [], a_client_cores = val_str st ''client_cores'' [],
     a_out = val_str st ''out'' (path_join (path_join (h_root h) ''results'') ''results.csv''),
     a_cooldown = val_num st ''cooldown'' 1, a_loadgen = val_str st ''loadgen'' ''odin''\<rparr>"

definition run_args :: "host \<Rightarrow> string list \<Rightarrow> args py" where
  "run_args h argv = bindE (consume run_options False (drop 1 argv) nothing_found) (\<lambda>st. Inr (args_of h st))"

definition run_program :: "(string \<Rightarrow> json option) \<Rightarrow> host \<Rightarrow> string list \<Rightarrow> unit io" where
  "run_program loads h argv = bindIO (pureIO (run_args h argv)) (bench_main loads h)"

definition plot_options :: "arg_option list" where
  "plot_options = [\<lparr>op_names = [''-o'', ''--out''], op_dest = ''out'', op_type = TStr\<rparr>]"

definition plot_args :: "string \<Rightarrow> string list \<Rightarrow> (string \<times> string) py" where
  "plot_args base argv =
     bindE (consume plot_options True (drop 1 argv) nothing_found) (\<lambda>st.
       Inr (case f_pos st of Some s \<Rightarrow> s | None \<Rightarrow> default_csv base,
            val_str st ''out'' (default_out base)))"

definition plot_program ::
  "(rat \<Rightarrow> string) \<Rightarrow> file_system \<Rightarrow> string \<Rightarrow> string list \<Rightarrow> (nat \<times> nat \<times> nat) py \<times> effect list" where
  "plot_program float_repr fs base argv =
     (case plot_args base argv of
        Inl e \<Rightarrow> (Inl e, [])
      | Inr (csv, out) \<Rightarrow> report_main float_repr fs csv out)"

section \<open>Options with their values\<close>

text \<open>The names can be told apart from each other, from values and from the separator.\<close>

definition names_ok :: "arg_option list \<Rightarrow> bool" where
  "names_ok opts \<longleftrightarrow> distinct (map fst (all_names opts)) \<and>
     list_all (\<lambda>(n, _). CHR ''='' \<notin> set n \<and> n \<noteq> [] \<and> hd n = CHR ''-'' \<and> 2 \<le> length n \<and> n \<noteq> ''--'') (all_names opts) \<and>
     list_all (\<lambda>x. op_names x \<noteq> []) opts"

lemma run_names: "names_ok run_options" "distinct (map op_dest run_options)"
  by (simp_all add: names_ok_def all_names_def run_options_def help_names_def opt_def)

lemma plot_names: "names_ok plot_options"
  by (simp add: names_ok_def all_names_def plot_options_def help_names_def)

lemma lookup_name:
  assumes "names_ok opts" and "x \<in> set opts" and "n \<in> set (op_names x)"
  shows "dict_get (all_names opts) n = Some (Some x)"
    and "CHR ''='' \<notin> set n" and "n \<noteq> []" and "hd n = CHR ''-''" and "2 \<le> length n" and "n \<noteq> ''--''"
proof -
  have mem: "(n, Some x) \<in> set (all_names opts)" using assms(2,3) by (auto simp: all_names_def)
  then show "dict_get (all_names opts) n = Some (Some x)" using assms(1) by (simp add: names_ok_def)
  show "CHR ''='' \<notin> set n" and "n \<noteq> []" and "hd n = CHR ''-''" and "2 \<le> length n" and "n \<noteq> ''--''"
    using assms(1) mem by (auto simp: names_ok_def list_all_iff)
qed

lemma classify_name:
  assumes "names_ok opts" and "x \<in> set opts" and "n \<in> set (op_names x)"
  shows "classify opts n = KOpt x None"
  using lookup_name [OF assms] by (simp add: classify_def)

lemma classify_eq:
  assumes "names_ok opts" and "x \<in> set opts" and "n \<in> set (op_names x)"
  shows "classify opts (n @ ''='' @ v) = KOpt x (Some v)"
proof -
  note n = lookup_name [OF assms]
  let ?s = "n @ ''='' @ v"
  have b: "before_eq ?s = n" "after_eq ?s = Some v"
    using n(2) by (auto simp: before_eq_def after_eq_def takeWhile_append)
  have "\<forall>(m, _) \<in> set (all_names opts). CHR ''='' \<notin> set m" using assms(1) by (auto simp: names_ok_def list_all_iff)
  then have none: "dict_get (all_names opts) ?s = None" by (fastforce simp: map_of_eq_None_iff)
  have "n \<noteq> ''-h''" using assms n(1) by (auto simp: all_names_def help_names_def)
  moreover have "?s \<noteq> ''--''"
  proof -
    have "CHR ''='' \<in> set ?s" "CHR ''='' \<notin> set ''--''" by simp_all
    then show ?thesis by metis
  qed
  ultimately show ?thesis using n b none by (simp add: classify_def)
qed

text \<open>An option on the command line: with an equals sign, or followed by its value.\<close>

definition write_option :: "arg_option \<times> string \<times> bool \<Rightarrow> string list" where
  "write_option = (\<lambda>(x, v, joined). if joined then [hd (op_names x) @ ''='' @ v] else [hd (op_names x), v])"

definition given :: "arg_option list \<Rightarrow> arg_option \<times> string \<times> bool \<Rightarrow> bool" where
  "given opts = (\<lambda>(x, v, joined). x \<in> set opts \<and> convert (op_type x) v \<in> range Inr \<and> (joined \<or> classify opts v = KArg))"

definition item_of :: "arg_option \<times> string \<times> bool \<Rightarrow> string \<times> arg_val" where
  "item_of = (\<lambda>(x, v, joined). (op_dest x, projr (convert (op_type x) v)))"

lemma consume_given:
  assumes "names_ok opts" and "given opts g"
  shows "consume opts pos (write_option g @ rest) st = consume opts pos rest (st\<lparr>f_vals := dict_set (fst (item_of g)) (snd (item_of g)) (f_vals st)\<rparr>)"
proof -
  obtain x v joined where g: "g = (x, v, joined)" by (cases g)
  then obtain r where r: "x \<in> set opts" "convert (op_type x) v = Inr r" "joined \<or> classify opts v = KArg"
    using assms(2) by (auto simp: given_def)
  then have hd: "hd (op_names x) \<in> set (op_names x)" using assms(1) by (auto simp: names_ok_def list_all_iff)
  have st: "store x v st = Inr (st\<lparr>f_vals := dict_set (fst (item_of g)) (snd (item_of g)) (f_vals st)\<rparr>)"
    using r(2) by (simp add: store_def item_of_def g)
  show ?thesis
    using st r(3) classify_eq [OF assms(1) r(1) hd, of v] classify_name [OF assms(1) r(1) hd] by (cases joined) (auto simp: write_option_def g)
qed

lemma consume_all_given:
  assumes "names_ok opts" and "list_all (given opts) gs"
  shows "consume opts pos (concat (map write_option gs) @ rest) st =
    consume opts pos rest (st\<lparr>f_vals := fold (\<lambda>(k, r). dict_set k r) (map item_of gs) (f_vals st)\<rparr>)"
  using assms(2)
proof (induction gs arbitrary: st)
  case (Cons g gs)
  then show ?case using consume_given [OF assms(1), of g pos "concat (map write_option gs) @ rest" st] by (simp add: split_def)
qed simp

lemma consume_given_only:
  assumes "names_ok opts" and "list_all (given opts) gs" and "distinct (map (fst \<circ> item_of) gs)"
  shows "consume opts pos (concat (map write_option gs)) nothing_found = Inr (nothing_found\<lparr>f_vals := map item_of gs\<rparr>)"
  using consume_all_given [OF assms(1,2), of pos "[]" nothing_found] assms(3) fold_dict_set_new [of "map item_of gs" "[]"]
  by (simp add: nothing_found_def)

section \<open>The runner's command line\<close>

text \<open>The texts of the arguments in the order of their declaration; \<open>t\<close> is a text of the cooldown.\<close>

definition arg_texts :: "args \<Rightarrow> string \<Rightarrow> string list" where
  "arg_texts a t =
     [a_servers a, a_conns a, py_str (a_trials a), py_str (a_room_size a), py_str (a_rate a), py_str (a_tick a),
      py_str (a_warmup a), py_str (a_dur a), a_server_cores a, a_client_cores a, a_out a, t, a_loadgen a]"

definition arg_items :: "args \<Rightarrow> (string \<times> arg_val) list" where
  "arg_items a =
     [(''servers'', AStr (a_servers a)), (''conns'', AStr (a_conns a)), (''trials'', AInt (a_trials a)),
      (''room_size'', AInt (a_room_size a)), (''rate'', AInt (a_rate a)), (''tick'', AInt (a_tick a)),
      (''warmup'', AInt (a_warmup a)), (''dur'', AInt (a_dur a)), (''server_cores'', AStr (a_server_cores a)),
      (''client_cores'', AStr (a_client_cores a)), (''out'', AStr (a_out a)), (''cooldown'', ANum (a_cooldown a)),
      (''loadgen'', AStr (a_loadgen a))]"

lemma arg_items_texts:
  assumes "py_float t = Inr (a_cooldown a)" and "a_loadgen a \<in> {''odin'', ''go''}"
  shows "map (\<lambda>(x, v). (op_dest x, convert (op_type x) v)) (zip run_options (arg_texts a t)) = map (\<lambda>(k, r). (k, Inr r)) (arg_items a)"
  using assms by (simp add: run_options_def arg_texts_def arg_items_def opt_def convert_def int_of_str)

lemma args_of_items:
  assumes "map_of (f_vals st) = map_of (arg_items a)"
  shows "args_of h st = a"
  using assms by (simp add: args_of_def val_str_def val_int_def val_num_def arg_items_def)

lemma items_of_texts:
  assumes "py_float t = Inr (a_cooldown a)" and "a_loadgen a \<in> {''odin'', ''go''}"
    and "mset (map (\<lambda>(x, v, j). (x, v)) gs) = mset (zip run_options (arg_texts a t))"
  shows "mset (map item_of gs) = mset (arg_items a)"
    and "(x, v, j) \<in> set gs \<Longrightarrow> x \<in> set run_options \<and> convert (op_type x) v \<in> range Inr"
proof -
  let ?z = "zip run_options (arg_texts a t)" and ?cv = "\<lambda>(x, v). (op_dest x, convert (op_type x) v)"
  note z = arg_items_texts [OF assms(1,2)]
  have "map item_of gs = map (\<lambda>(k, r). (k, projr r)) (map ?cv (map (\<lambda>(x, v, j). (x, v)) gs))"
    by (simp add: item_of_def split_def)
  then have "mset (map item_of gs) = image_mset (\<lambda>(k, r). (k, projr r)) (image_mset ?cv (mset ?z))"
    using assms(3) by (simp only: mset_map)
  also have "\<dots> = mset (map (\<lambda>(k, r). (k, projr r)) (map ?cv ?z))" by (simp only: mset_map)
  also have "\<dots> = mset (arg_items a)" unfolding z by (simp add: split_def comp_def)
  finally show "mset (map item_of gs) = mset (arg_items a)" .
  assume "(x, v, j) \<in> set gs"
  then have "(x, v) \<in> set (map (\<lambda>(x, v, j). (x, v)) gs)" by force
  then have xv: "(x, v) \<in> set ?z" using mset_eq_setD [OF assms(3)] by simp
  then have "?cv (x, v) \<in> set (map (\<lambda>(k, r). (k, Inr r)) (arg_items a))" unfolding z [symmetric] set_map by (rule imageI)
  then show "x \<in> set run_options \<and> convert (op_type x) v \<in> range Inr" using set_zip_leftD [OF xv] by auto
qed

text \<open>C29: Command line of the runner. Whatever values the thirteen arguments have, giving them as
  options in any order, each joined to its value by an equals sign or, when the value does
  not look like an option, followed by it, starts the benchmark with exactly those values.\<close>

theorem command_line_sets_every_argument:
  assumes "py_float t = Inr (a_cooldown a)" and "a_loadgen a \<in> {''odin'', ''go''}"
    and "mset (map (\<lambda>(x, v, joined). (x, v)) gs) = mset (zip run_options (arg_texts a t))"
    and "\<forall>(x, v, joined) \<in> set gs. joined \<or> classify run_options v = KArg"
  shows "run_program loads h (prog # concat (map write_option gs)) = bench_main loads h a"
proof -
  note it = items_of_texts [OF assms(1-3)]
  have d: "distinct (map fst (arg_items a))" by (simp add: arg_items_def)
  have "mset (map fst (map item_of gs)) = mset (map fst (arg_items a))" using it(1) by (metis mset_map)
  then have dg: "distinct (map fst (map item_of gs))" using d mset_eq_imp_distinct_iff by blast
  have "list_all (given run_options) gs" using it(2) assms(4) by (fastforce simp: list_all_iff given_def)
  then have c: "consume run_options False (concat (map write_option gs)) nothing_found = Inr (nothing_found\<lparr>f_vals := map item_of gs\<rparr>)"
    using dg by (intro consume_given_only [OF run_names(1)]) simp_all
  have "set (map item_of gs) = set (arg_items a)" using it(1) by (rule mset_eq_setD)
  then have "map_of (map item_of gs) = map_of (arg_items a)" using map_of_inject_set [OF dg d] by blast
  then have "args_of h (nothing_found\<lparr>f_vals := map item_of gs\<rparr>) = a" by (intro args_of_items) (simp add: nothing_found_def)
  then show ?thesis using c by (simp add: run_program_def run_args_def fun_eq_iff bindIO_def)
qed

theorem command_line_sets_every_argument_witness:
  "\<exists>argv. length argv = 26 \<and> run_program (\<lambda>_. None) demo_host (''run.py'' # argv) = bench_main (\<lambda>_. None) demo_host
     (demo_args\<lparr>a_server_cores := ''0-1'', a_client_cores := ''2-3''\<rparr>)"
proof -
  let ?a = "demo_args\<lparr>a_server_cores := ''0-1'', a_client_cores := ''2-3''\<rparr>" and ?t = "''1''"
  define gs where "gs = rev (map (\<lambda>(x, v). (x, v, False)) (zip run_options (arg_texts ?a ?t)))"
  have t: "py_float ?t = Inr (a_cooldown ?a)"
    by (simp add: demo_args_def float_eval float_limit_def nonfinite_word_def)
  have c: "classify run_options v = KArg" if "v \<in> set (arg_texts ?a ?t)" for v
  proof -
    have "hd v \<noteq> CHR ''-''"
      using that by (auto simp: arg_texts_def demo_args_def str_eval)
    then show ?thesis by (simp add: classify_def)
  qed
  have m: "mset (map (\<lambda>(x, v, joined). (x, v)) gs) = mset (zip run_options (arg_texts ?a ?t))"
    unfolding gs_def rev_map [symmetric] map_map mset_map mset_rev by (simp add: split_def comp_def)
  have k: "\<forall>(x, v, joined) \<in> set gs. joined \<or> classify run_options v = KArg"
    using c by (auto simp: gs_def dest: set_zip_rightD)
  have "a_loadgen ?a \<in> {''odin'', ''go''}" by (simp add: demo_args_def)
  from command_line_sets_every_argument [OF t this m k, of "\<lambda>_. None" demo_host "''run.py''"]
  show ?thesis by (intro exI [of _ "concat (map write_option gs)"]) (simp add: gs_def write_option_def run_options_def arg_texts_def)
qed

section \<open>Refused command lines\<close>

lemma store_errors: "store x v st \<in> range Inr \<union> {Inl (SystemExit 2), Inl OutOfModel}"
  by (auto simp: store_def convert_def split: arg_type.splits sum.splits)

lemma store_extra: "store x v st = Inr st' \<Longrightarrow> f_extra st' = f_extra st"
  by (auto simp: store_def bindE_eq_Inr)

lemma consume_ends:
  "consume opts pos ss st \<in> range Inr \<union> {Inl (SystemExit 0), Inl (SystemExit 2), Inl OutOfModel}
   \<and> (consume opts pos ss st = Inl (SystemExit 0) \<longrightarrow> (\<exists>s \<in> set ss. classify opts s = KHelp None))"
proof (induction opts pos ss st rule: consume.induct)
  case (2 opts pos s rest st)
  have st: "bindE (store x v st) (consume opts pos r) \<in> range Inr \<union> {Inl (SystemExit 0), Inl (SystemExit 2), Inl OutOfModel}
      \<and> (bindE (store x v st) (consume opts pos r) = Inl (SystemExit 0) \<longrightarrow> (\<exists>s \<in> set r. classify opts s = KHelp None))"
    if "\<And>st'. store x v st = Inr st' \<Longrightarrow> consume opts pos r st' \<in> range Inr \<union> {Inl (SystemExit 0), Inl (SystemExit 2), Inl OutOfModel}
      \<and> (consume opts pos r st' = Inl (SystemExit 0) \<longrightarrow> (\<exists>s \<in> set r. classify opts s = KHelp None))" for x v r
    using store_errors [of x v st] that by (cases "store x v st") auto
  show ?case
  proof (cases "classify opts s")
    case (KOpt x w)
    show ?thesis
    proof (cases w)
      case None
      show ?thesis
      proof (cases rest)
        case (Cons v rest')
        then show ?thesis using KOpt None st [of x v rest'] 2(3) by (auto split: arg_kind.splits)
      qed (use KOpt None in simp)
    next
      case (Some v)
      then show ?thesis using KOpt st [of x v rest] 2(4) by auto
    qed
  next
    case (KHelp w)
    then show ?thesis by (cases w) auto
  qed (use 2 in auto)
qed auto

text \<open>A string that is no option and not a value is never ignored.\<close>

lemma consume_refuses:
  assumes "consume opts pos ss st = Inr st'"
  shows "\<not> f_extra st \<and> \<not> f_extra st' \<and> (\<forall>s \<in> set ss. classify opts s = KArg \<or> (\<exists>x v. classify opts s = KOpt x v))"
  using assms
proof (induction opts pos ss st rule: consume.induct)
  case (2 opts pos s rest st)
  then show ?case
    by (auto simp: bindE_eq_Inr split: arg_kind.splits option.splits list.splits if_splits) (metis store_extra)+
qed (auto split: if_splits)

lemma run_args_ends:
  "run_args h argv \<in> range Inr \<union> {Inl (SystemExit 0), Inl (SystemExit 2), Inl OutOfModel}
   \<and> (run_args h argv = Inl (SystemExit 0) \<longrightarrow> (\<exists>s \<in> set (drop 1 argv). classify run_options s = KHelp None))"
  using consume_ends [of run_options False "drop 1 argv" nothing_found] by (auto simp: run_args_def bindE_eq_Inl)

lemma run_args_refuses:
  assumes "s \<in> set (drop 1 argv)" and "classify run_options s \<in> {KUnknown, KAmbiguous}"
  shows "run_args h argv \<notin> range Inr"
proof
  assume "run_args h argv \<in> range Inr"
  then obtain st' where "consume run_options False (drop 1 argv) nothing_found = Inr st'" by (auto simp: run_args_def bindE_eq_Inr)
  from consume_refuses [OF this] assms show False by (metis arg_kind.distinct empty_iff insert_iff)
qed

text \<open>Two prefixes that look harmless are ambiguous.\<close>

lemma ambiguous_prefixes: "classify run_options ''--server'' = KAmbiguous" "classify run_options ''--co'' = KAmbiguous"
  by (simp_all add: classify_def classify_rest_def run_options_def all_names_def help_names_def opt_def before_eq_def startswith_def)

section \<open>The report's command line\<close>

lemma classify_plain: "s = [] \<or> hd s \<noteq> CHR ''-'' \<Longrightarrow> classify opts s = KArg"
  by (simp add: classify_def)

text \<open>The two programs meet in the same files. The report takes its input and its output in
  either order. Without arguments it reads the file the runner writes without arguments, and
  looks for the timeline where the runner puts it.\<close>

theorem runner_and_report_meet:
  assumes "csv = [] \<or> hd csv \<noteq> CHR ''-''" and "out = [] \<or> hd out \<noteq> CHR ''-''"
    and "abspath dir (default_csv (h_root h)) = default_csv (h_root h)"
  shows "plot_args base [prog, csv, ''-o'', out] = Inr (csv, out) \<and> plot_args base [prog, ''--out'', out, csv] = Inr (csv, out)
    \<and> (\<exists>a. run_args h [prog] = Inr a \<and> plot_args (h_root h) [prog] = Inr (a_out a, default_out (h_root h))
        \<and> timeline_path dir (a_out a) = path_join (dirname (a_out a)) ''timeline.csv'')"
proof -
  let ?x = "\<lparr>op_names = [''-o'', ''--out''], op_dest = ''out'', op_type = TStr\<rparr>"
  have o: "classify plot_options ''-o'' = KOpt ?x None" "classify plot_options ''--out'' = KOpt ?x None"
    by (rule classify_name [OF plot_names]; simp add: plot_options_def)+
  have c: "classify plot_options csv = KArg" "classify plot_options out = KArg" using assms(1,2) classify_plain by auto
  have "plot_args base [prog, csv, ''-o'', out] = Inr (csv, out)" "plot_args base [prog, ''--out'', out, csv] = Inr (csv, out)"
    by (simp_all add: plot_args_def o c store_def convert_def nothing_found_def val_str_def)
  moreover have "run_args h [prog] = Inr (args_of h nothing_found)"
    "plot_args (h_root h) [prog] = Inr (default_csv (h_root h), default_out (h_root h))"
    by (simp_all add: run_args_def plot_args_def nothing_found_def val_str_def)
  moreover have "a_out (args_of h nothing_found) = default_csv (h_root h)"
    by (simp add: args_of_def nothing_found_def val_str_def default_csv_def)
  ultimately show ?thesis using assms(3) by (simp add: timeline_path_def)
qed

theorem runner_and_report_meet_witness:
  "plot_args ''/b'' [''plot.py'', ''r.csv'', ''-o'', ''x.html''] = Inr (''r.csv'', ''x.html'')
    \<and> (\<exists>a. run_args demo_host [''run.py''] = Inr a \<and> plot_args ''/b'' [''run.py''] = Inr (a_out a, ''/b/results/report.html''))"
proof -
  have b: "h_root demo_host = ''/b''" by (simp add: demo_host_def)
  have n: "abspath ''/b'' (default_csv (h_root demo_host)) = default_csv (h_root demo_host)"
    by (simp add: b default_csv_def abspath_def normpath_def path_join_def startswith_def norm_step_def)
  have d: "default_out ''/b'' = ''/b/results/report.html''" by (simp add: default_out_def path_join_def startswith_def)
  show ?thesis
    using runner_and_report_meet [OF _ _ n, of "''r.csv''" "''x.html''" "''/b''" "''plot.py''"]
      runner_and_report_meet [OF _ _ n, of "''r.csv''" "''x.html''" "''/b''" "''run.py''"] unfolding b d by auto
qed

end
