(* ===== verification/Loadgen_Flags.thy ===== *)
theory Loadgen_Flags
  imports Loadgen_Out Argparse Json
begin

text \<open>
  The command line of the Go load generator (\<open>main\<close> of \<open>loadgen/main.go\<close>) as Go's package
  \<open>flag\<close> reads it, and that the runner's command line configures it as meant. A flag that is
  not defined or a value that is refused ends the program with status 2. Integers in another
  base or with underscores, and durations with a fraction or outside ASCII, are
  \<open>OutOfModel\<close>.
\<close>

section \<open>Definitions\<close>

definition go_sign :: "string \<Rightarrow> bool \<times> string" where
  "go_sign s = (case s of c # r \<Rightarrow> if c = CHR ''-'' then (True, r) else if c = CHR ''+'' then (False, r) else (False, s) | [] \<Rightarrow> (False, []))"

text \<open>\<open>strconv.ParseInt(s, 0, 64)\<close>.\<close>

definition go_int :: "string \<Rightarrow> int py" where
  "go_int s =
     (let (neg, u) = go_sign s; n = (if neg then - decimal_val u else decimal_val u)
      in if u = [] then Inl ValueError
         else if u \<noteq> ''0'' \<and> hd u = CHR ''0'' \<or> CHR ''_'' \<in> set u then Inl OutOfModel
         else if list_all is_decimal u \<and> - (2 ^ 63) \<le> n \<and> n < 2 ^ 63 then Inr n else Inl ValueError)"

definition duration_units :: "(string \<times> int) list" where
  "duration_units = [(''ns'', 1), (''us'', 1000), (''ms'', 1000000), (''s'', 1000000000), (''m'', 60000000000), (''h'', 3600000000000)]"

text \<open>\<open>time.ParseDuration\<close>, in nanoseconds: numbers with units, one after the other.\<close>

function dur_loop :: "string \<Rightarrow> int \<Rightarrow> int py" where
  "dur_loop s d =
     (if s = [] then Inr d
      else
        let ds = takeWhile is_decimal s; r = dropWhile is_decimal s; v = decimal_val ds;
            unit = takeWhile (\<lambda>c. \<not> is_decimal c) r; rest = dropWhile (\<lambda>c. \<not> is_decimal c) r
        in if ds = [] \<or> v > 2 ^ 63 then Inl ValueError
           else case dict_get duration_units unit of
                  None \<Rightarrow> Inl ValueError
                | Some k \<Rightarrow>
                    if v > 2 ^ 63 div k \<or> d + v * k > 2 ^ 63 then Inl ValueError
                    else dur_loop rest (d + v * k))"
  by auto
termination
proof (relation "measure (length \<circ> fst)")
  fix s ds r unit rest :: string and d v k :: int
  assume s: "ds = takeWhile is_decimal s" "r = dropWhile is_decimal s" "rest = dropWhile (\<lambda>c. \<not> is_decimal c) r"
    and "\<not> (ds = [] \<or> v > 2 ^ 63)"
  then have "length ds + length r = length s" "0 < length ds" using takeWhile_dropWhile_id [of is_decimal s]
    by (metis length_append, simp)
  moreover have "length rest \<le> length r" unfolding s(3) by (rule length_dropWhile_le)
  ultimately show "((rest, d + v * k), s, d) \<in> measure (length \<circ> fst)" by (simp del: length_greater_0_conv)
qed simp

declare dur_loop.simps [simp del]

definition go_duration :: "string \<Rightarrow> int py" where
  "go_duration s =
     (if CHR ''.'' \<in> set s \<or> \<not> is_ascii s then Inl OutOfModel
      else
        let (neg, u) = go_sign s
        in if u = ''0'' then Inr 0
           else if u = [] then Inl ValueError
           else bindE (dur_loop u 0) (\<lambda>d. if neg then Inr (- d) else if d \<ge> 2 ^ 63 then Inl ValueError else Inr d))"

definition go_bool :: "string \<Rightarrow> bool py" where
  "go_bool s =
     (if s \<in> {''1'', ''t'', ''T'', ''TRUE'', ''true'', ''True''} then Inr True
      else if s \<in> {''0'', ''f'', ''F'', ''FALSE'', ''false'', ''False''} then Inr False
      else Inl ValueError)"

definition flag_names :: "string list" where
  "flag_names = [''addr'', ''conns'', ''room-size'', ''rate'', ''dur'', ''warmup'', ''json'']"

definition default_opts :: lg_opts where
  "default_opts = \<lparr>lo_addr = ''127.0.0.1:9000'', lo_conns = 1000, lo_room_size = 50, lo_rate = 20,
     lo_dur = 30 * 1000000000, lo_warm = 5 * 1000000000, lo_json = False\<rparr>"

definition set_flag :: "string \<Rightarrow> string \<Rightarrow> lg_opts \<Rightarrow> lg_opts py" where
  "set_flag name v lo =
     (if name = ''addr'' then Inr (lo\<lparr>lo_addr := v\<rparr>)
      else if name = ''conns'' then bindE (go_int v) (\<lambda>n. Inr (lo\<lparr>lo_conns := n\<rparr>))
      else if name = ''room-size'' then bindE (go_int v) (\<lambda>n. Inr (lo\<lparr>lo_room_size := n\<rparr>))
      else if name = ''rate'' then bindE (go_int v) (\<lambda>n. Inr (lo\<lparr>lo_rate := n\<rparr>))
      else if name = ''dur'' then bindE (go_duration v) (\<lambda>n. Inr (lo\<lparr>lo_dur := n\<rparr>))
      else if name = ''warmup'' then bindE (go_duration v) (\<lambda>n. Inr (lo\<lparr>lo_warm := n\<rparr>))
      else bindE (go_bool v) (\<lambda>b. Inr (lo\<lparr>lo_json := b\<rparr>)))"

text \<open>A refused value ends the program as an undefined flag does.\<close>

definition flag_value :: "string \<Rightarrow> string \<Rightarrow> lg_opts \<Rightarrow> lg_opts py" where
  "flag_value name v lo =
     (case set_flag name v lo of Inr lo' \<Rightarrow> Inr lo' | Inl e \<Rightarrow> Inl (if e = OutOfModel then OutOfModel else SystemExit 2))"

fun go_flags :: "string list \<Rightarrow> lg_opts \<Rightarrow> lg_opts py" where
  "go_flags [] lo = Inr lo"
| "go_flags (s # args) lo =
     (if length s < 2 \<or> hd s \<noteq> CHR ''-'' \<or> s = ''--'' then Inr lo
      else
        let body = (if s ! 1 = CHR ''-'' then drop 2 s else drop 1 s);
            name = before_eq body
        in if body = [] \<or> hd body = CHR ''-'' \<or> hd body = CHR ''='' then Inl (SystemExit 2)
           else if name \<notin> set flag_names then Inl (SystemExit (if name = ''help'' \<or> name = ''h'' then 0 else 2))
           else case after_eq body of
                  Some v \<Rightarrow> bindE (flag_value name v lo) (go_flags args)
                | None \<Rightarrow>
                    if name = ''json'' then bindE (flag_value name ''true'' lo) (go_flags args)
                    else (case args of
                            [] \<Rightarrow> Inl (SystemExit 2)
                          | v # args' \<Rightarrow> bindE (flag_value name v lo) (go_flags args')))"

definition generator_opts :: "string list \<Rightarrow> lg_opts py" where
  "generator_opts argv = go_flags (drop 1 argv) default_opts"

section \<open>Numbers as the runner writes them\<close>

lemma sign_py_str:
  "go_sign (py_str n @ r) = (n < 0, nat_digits (nat \<bar>n\<bar>) @ r)"
proof -
  obtain c ds where c: "nat_digits (nat \<bar>n\<bar>) = c # ds" "is_decimal c" using nat_digits_decimal [of "nat \<bar>n\<bar>"]
    by (cases "nat_digits (nat \<bar>n\<bar>)") auto
  show ?thesis
  proof (cases "n < 0")
    case False
    then show ?thesis using c decimal_plain [of c] by (simp add: py_str_def go_sign_def)
  qed (simp add: py_str_def go_sign_def)
qed

lemma digits_no_underscore: "CHR ''_'' \<notin> set (nat_digits n)" "CHR ''.'' \<notin> set (nat_digits n)" "is_ascii (nat_digits n)"
  using nat_digits_decimal [of n] by (auto simp: list_all_iff is_decimal_def is_ascii_def)

lemma go_int_str:
  assumes "- (2 ^ 63) \<le> n" and "n < 2 ^ 63"
  shows "go_int (py_str n) = Inr n"
proof -
  let ?u = "nat_digits (nat \<bar>n\<bar>)"
  have s: "go_sign (py_str n) = (n < 0, ?u)" using sign_py_str [of n "[]"] by simp
  have u: "?u \<noteq> []" "list_all is_decimal ?u" "CHR ''_'' \<notin> set ?u" "\<not> (?u \<noteq> ''0'' \<and> hd ?u = CHR ''0'')"
    using nat_digits_decimal digits_no_underscore(1) nat_digits_hd by blast+
  have v: "(if n < 0 then - decimal_val ?u else decimal_val ?u) = n" by (simp add: decimal_val_digits)
  show ?thesis unfolding go_int_def s Let_def prod.case v using u assms by simp
qed

lemma go_duration_seconds:
  assumes "- (2 ^ 63) < n * 1000000000" and "n * 1000000000 < 2 ^ 63"
  shows "go_duration (py_str n @ ''s'') = Inr (n * 1000000000)"
proof -
  let ?u = "nat_digits (nat \<bar>n\<bar>)"
  have dec: "\<forall>c \<in> set ?u. is_decimal c" "?u \<noteq> []" using nat_digits_decimal [of "nat \<bar>n\<bar>"] by (auto simp: list_all_iff)
  have ns: "\<not> is_decimal (CHR ''s'')" by (simp add: is_decimal_def)
  have w: "takeWhile is_decimal (?u @ ''s'') = ?u" "dropWhile is_decimal (?u @ ''s'') = ''s''"
    using dec ns by (auto simp: takeWhile_append dropWhile_append)
  have v: "decimal_val ?u = \<bar>n\<bar>" by (simp add: decimal_val_digits)
  have lim: "\<bar>n\<bar> * 1000000000 < 2 ^ 63" using assms by (auto simp: abs_if)
  then have "\<bar>n\<bar> \<le> 2 ^ 63 div 1000000000" by (simp add: zless_imp_add1_zle)
  then have "dur_loop (?u @ ''s'') 0 = Inr (\<bar>n\<bar> * 1000000000)"
    using lim dec(2) w v ns by (subst dur_loop.simps) (simp add: Let_def duration_units_def dur_loop.simps [of "[]"])
  moreover have "?u @ ''s'' \<noteq> ''0''" using dec by (cases ?u) auto
  moreover have "CHR ''.'' \<notin> set (py_str n @ ''s'')" "is_ascii (py_str n @ ''s'')"
    using digits_no_underscore(2,3) [of "nat \<bar>n\<bar>"] by (auto simp: py_str_def is_ascii_def)
  ultimately show ?thesis using sign_py_str [of n "''s''"] lim by (auto simp: go_duration_def)
qed

section \<open>The runner's command line\<close>

lemma flag_body [simp]: "before_eq name = name" "after_eq name = None" if "CHR ''='' \<notin> set name"
  using that by (auto simp: before_eq_def after_eq_def)

text \<open>C22: The runner configures the Go load generator as meant. The command line the runner builds
  for it sets the address, the number of connections, the room size, the rate, the warm-up
  and the duration in seconds, and asks for JSON, for all integers a Go \<open>int\<close> and \<open>Duration\<close>
  can hold; with the extra option the runner keeps for the other load generator it would end
  with status 2.\<close>

theorem runner_configures_generator:
  assumes "choose_loadgen h a cores = (lg, bld, extra)" and "a_loadgen a \<noteq> ''odin''"
    and "\<forall>n \<in> {cn, a_room_size a, a_rate a}. - (2 ^ 63) \<le> n \<and> n < 2 ^ 63"
    and "\<forall>n \<in> {a_warmup a, a_dur a}. - (2 ^ 63) < n * 1000000000 \<and> n * 1000000000 < 2 ^ 63"
  shows "generator_opts (loadgen_argv lg port cn (a_room_size a) (a_rate a) (a_warmup a) (a_dur a) extra) =
      Inr \<lparr>lo_addr = ''127.0.0.1:'' @ py_str port, lo_conns = cn, lo_room_size = a_room_size a, lo_rate = a_rate a,
           lo_dur = a_dur a * 1000000000, lo_warm = a_warmup a * 1000000000, lo_json = True\<rparr>
    \<and> generator_opts (loadgen_argv lg port cn (a_room_size a) (a_rate a) (a_warmup a) (a_dur a) [''-workers'', py_str k]) =
      Inl (SystemExit 2)"
proof -
  have x: "extra = []" using assms(1,2) by (auto simp: choose_loadgen_def)
  have i: "go_int (py_str n) = Inr n" if "n \<in> {cn, a_room_size a, a_rate a}" for n using that assms(3) by (intro go_int_str) auto
  have d: "go_duration (py_str n @ ''s'') = Inr (n * 1000000000)" if "n \<in> {a_warmup a, a_dur a}" for n
    using that assms(4) by (intro go_duration_seconds) auto
  show ?thesis
    by (simp add: x generator_opts_def loadgen_argv_def flag_names_def flag_value_def set_flag_def i d go_bool_def default_opts_def)
qed

theorem runner_configures_generator_witness:
  "generator_opts [''/b/loadgen/loadgen'', ''-addr'', ''127.0.0.1:9100'', ''-conns'', ''10'', ''-room-size'', ''50'', ''-rate'', ''20'',
      ''-warmup'', ''5s'', ''-dur'', ''20s'', ''-json''] =
    Inr \<lparr>lo_addr = ''127.0.0.1:9100'', lo_conns = 10, lo_room_size = 50, lo_rate = 20,
         lo_dur = 20000000000, lo_warm = 5000000000, lo_json = True\<rparr>"
proof -
  let ?a = "demo_args\<lparr>a_loadgen := ''go''\<rparr>"
  have c: "choose_loadgen demo_host ?a [2, 3] =
      (''/b/loadgen/loadgen'', ([''go'', ''build'', ''-o'', ''loadgen'', ''.''], ''loadgen''), [])"
    by (simp add: choose_loadgen_def demo_host_def path_join_def startswith_def)
  from runner_configures_generator [OF c, of 10 9100] show ?thesis
    by (simp add: demo_args_def loadgen_argv_def str_eval)
qed

end
