(* ===== verification/Spec2Isabelle.thy ===== *)
theory Spec2Isabelle
  imports Server_Main Loadgen_Flags
begin

text \<open>
  A verification development for the Python parts of the game-server benchmark and for its
  Go load generator.

  \<^bold>\<open>The program.\<close> The repository compares game servers written in many languages against
  one wire protocol (\<open>PROTOCOL.md\<close>). Its Python code has three parts. \<open>servers/python/server.py\<close>
  is the reference asyncio server: a handler per connection reads length-prefixed frames
  (JOIN, MOVE), rooms keep players and connections, and one coroutine per room ticks at a
  fixed rate and broadcasts SNAPSHOT frames. \<open>runner/run.py\<close> runs the benchmark matrix:
  for each server, connection count and trial it starts the server pinned to its cores,
  waits until the port accepts, runs the load generator pinned to the other cores while a
  thread samples \<open>/proc\<close>, stops the server and writes one CSV row. \<open>runner/plot.py\<close> turns
  the CSV files into one page: a table, charts that an embedded script draws and redraws
  when servers are hidden, and latency-over-time charts. The client that produces the load is
  \<open>loadgen/main.go\<close>: per connection a sender that sends MOVE at a fixed rate and a reader that
  turns the acknowledged sequence numbers into latencies, shared histograms, and one JSON
  object at the end, which the runner reads.

  \<^bold>\<open>Theories, bottom up.\<close>
  \<^item> \<open>Prelude\<close>: Python exceptions as a sum type, dictionaries as insertion-ordered
    association lists behind the locales \<open>py_dict\<close>, \<open>dict_pair\<close> and \<open>stable_op\<close>.
  \<^item> \<open>Struct\<close>: \<open>struct.pack\<close>, \<open>unpack\<close>, \<open>pack_into\<close>, \<open>unpack_from\<close> for the formats used,
    with their round trips (locale \<open>field_codec\<close>).
  \<^item> \<open>Transport\<close>: frames and the \<open>StreamWriter\<close> (locale \<open>transport\<close>). A write is
    appended, dropped (lost or closed connection) or raises (broken transport).
  \<^item> \<open>Room\<close>: \<open>new_pid\<close>, \<open>Player\<close>, \<open>Room\<close> with \<open>join\<close>, \<open>move\<close>, \<open>leave\<close>, \<open>step\<close>; the room
    invariant, the snapshot format, and how long packing coordinates cannot fail.
  \<^item> \<open>Pacing\<close>: \<open>Room.run\<close> as a coroutine resumed with clock readings: no drift, when it
    gives control back, when it starves the process.
  \<^item> \<open>Server\<close>: \<open>get_room\<close>, \<open>handle\<close> and the event loop: the state of the whole process
    (id counter, room table, heap of rooms, one handler state per connection, writers),
    \<open>handle_loop\<close> from one suspension point to the next, and \<open>fire\<close>/\<open>run\<close> on events.
  \<^item> \<open>Handler_Stream\<close>: framing of the byte stream and independence of segmentation.
    \<open>Server_Runs\<close>: invariants of every execution (locale \<open>server_mono\<close> for what no event
    undoes), errors, failed rooms. \<open>Server_Pids\<close>: identity of players, disconnects,
    the leak on a second JOIN and on id 0.
  \<^item> \<open>PyStr\<close>: \<open>split\<close>, \<open>join\<close>, \<open>strip\<close>, \<open>rfind\<close>, \<open>int\<close>, \<open>str\<close>, with round trips.
    \<open>Server_Main\<close>: the server's command line.
  \<^item> \<open>Loadgen\<close>: the wire side of \<open>loadgen/main.go\<close> (\<open>writeFrame\<close>, \<open>joinPayload\<close>, \<open>movePayload\<close>,
    \<open>readFrame\<close>, the loops that look for JOINED and for the own entry of a snapshot), and
    the handshake and the acknowledgement of a MOVE against the server.
  \<^item> \<open>Hist\<close>: the histogram (\<open>idxFor\<close>, \<open>record\<close>, \<open>valFor\<close>, \<open>total\<close>, \<open>percentile\<close>): what a percentile
    is worth. \<open>Loadgen_Run\<close>: waiting for JOINED, the ring of send times, a turn of the sender
    and of the reader as lists of atomic additions, the windows, \<open>stabilityStats\<close>, the rooms;
    end to end, the latency recorded for a MOVE is the time to the snapshot that applied it.
    \<open>Loadgen_Shared\<close>: all goroutines interleaved between their atomic additions, with the
    invariants that tie counters, histogram and windows together (locale \<open>run_invariant\<close>).
  \<^item> \<open>Specs\<close>: \<open>cpuspec\<close>, the fourteen \<open>spec_*\<close> functions, \<open>SERVERS\<close>, \<open>parse_cores\<close>,
    \<open>taskset_wrap\<close>. \<open>Proc\<close>: \<open>pids_in_groups\<close>, \<open>sample_cpu_ticks\<close>, \<open>sample_rss_kb\<close> against the
    file formats of proc(5), and the thread \<open>Sampler\<close> as a state machine.
  \<^item> \<open>World\<close>: the operating system as an arbitrary answering machine with a log, and a small
    calculus (\<open>emits\<close>) for what a computation logs. \<open>Lifecycle\<close>: \<open>start_server\<close>,
    \<open>wait_ready\<close>, \<open>stop_server\<close>, \<open>run_loadgen\<close>, \<open>build\<close>. \<open>Bench\<close>: \<open>main\<close>.
  \<^item> \<open>PyNum\<close>: \<open>round\<close>, \<open>float(s)\<close>, the number formats of Python and of the script, with the
    proof that what is printed is what is read and where the two languages differ. \<open>Csv\<close>:
    \<open>csv.DictWriter\<close>, text mode and the state machine of \<open>csv.DictReader\<close>, with the round trip
    (locale \<open>table_file\<close>).
  \<^item> \<open>Report_Data\<close>: \<open>load\<close>, \<open>statistics.median\<close>, \<open>series_json\<close>, \<open>nice_max\<close>, \<open>load_timeline\<close>:
    when loading succeeds, that the curves are the medians of the trials, that no timeline
    row is lost, that the axis end is the least nice number. \<open>Report_Html\<close>: \<open>esc\<close>,
    \<open>table_html\<close>, \<open>legend_html\<close>, \<open>timeline_svg\<close>, \<open>timeline_body\<close>, \<open>saturation_body\<close>: safe text,
    points inside the plot (locale \<open>value_axis\<close>, which the script's axis shares), the tick
    loop, one card per group. \<open>Report_Assets\<close>: \<open>CSS\<close>, \<open>JS\<close>
    and \<open>TAB_JS\<close> as text. \<open>Report_Page\<close>: \<open>json.dumps\<close>, \<open>build_html\<close>, \<open>main\<close>: the data goes into
    the script at its one place, the page is written whole or not at all. \<open>Report_Client\<close>:
    what the embedded script does, as functions and as a state machine on clicks.
  \<^item> \<open>Pipeline\<close>: from the runner's rows through the files to the report: the values arrive
    unchanged, and on the files of a run the report never fails.
  \<^item> \<open>Json\<close>: \<open>json.loads\<close> as a recursive parser with a termination proof, and that it reads back
    what \<open>json.dumps\<close> and \<open>json.Marshal\<close> print (locale \<open>json_writer\<close>). \<open>Loadgen_Out\<close>: the JSON object of the load generator and what the runner records of it.
    \<open>Argparse\<close>: the command lines of the runner and the report, and both programs from their
    arguments on. \<open>Loadgen_Flags\<close>: Go's \<open>flag.Parse\<close> on the runner's command line.
  This theory holds the property that spans the runner's launch plan and the server.

  \<^bold>\<open>How state corresponds.\<close> Integers of Python are \<open>int\<close>; bytes are 8-bit words; the two
  counters are masked to 32 bits where the code masks them, and the counters of the load
  generator are 64-bit words. Floats (tick period, clock, latencies) are exact rationals; the
  bucket ends of the histogram and the standard deviation are reals. Objects shared by reference (rooms) live in a heap of
  records indexed by address, the table and the handlers hold addresses. Every exception
  the code can raise or catch is a value. The read loop of \<open>handle\<close> and \<open>wait_ready\<close> are
  total functions with termination proofs; no fuel is used. The catch-up loop of
  \<open>Room.run\<close> consumes a finite list of clock readings; when the list is used up the
  coroutine is left running, so nothing is claimed about readings that were not given.
  The report's nested default dictionaries are nested association lists, its tick loop and
  the logarithm of \<open>nice_max\<close> recursive functions with termination proofs; the document the
  script changes is a record. The error value \<open>OutOfModel\<close> marks inputs the model does not
  follow (text outside ASCII, infinities, a row without a server, command lines that depend
  on the version of Python, other number bases in Go); no theorem that gives a result holds
  there.

  \<^bold>\<open>Bounds.\<close> Ids are unique as long as fewer than \<open>9 * 2 ^ 32\<close> bytes have been received,
  because a JOIN takes 9 bytes on the wire; \<open>pid_zero_never_leaves\<close> shows what happens
  after \<open>2 ^ 32\<close> joins. Ticks cannot raise during the first 65536 ticks of a room, and
  \<open>step_fails_at_tick_65537\<close> shows that this is tight. A latency is exact when fewer than 256
  moves follow before the acknowledgement; \<open>late_ack_underestimates\<close> shows what happens
  otherwise. The counters do not wrap below \<open>2 ^ 64\<close> events.

  \<^bold>\<open>Parameters.\<close> What the kernel and other processes answer are arguments:
  the oracles of \<open>world\<close>, the views of \<open>Proc\<close>, the events of \<open>Server\<close>. The laws assumed of
  them are the hypotheses \<open>polite\<close> (signals and waits fail with \<open>OSError\<close> or a timeout only),
  \<open>table_ok\<close> (the documented format of \<open>/proc\<close>), and, built into \<open>World\<close>, that time does not
  run backwards and that a sleep lasts at least as long as asked. The report's file system
  is a record of answers; the shortest text of a binary float in JSON (\<open>float_repr\<close>), of a
  JSON value in a cell the report does not read (\<open>json_text\<close>) and of a number from
  \<open>10 ^ 21\<close> on in JavaScript (\<open>num_str\<close>) are function arguments without assumptions. So is the
  rounding of the load generator's results to 64-bit floats (\<open>f64\<close>), of which only is used
  that it keeps the numbers of the windows; their texts (\<open>ftxt\<close>) are assumed to be JSON
  numbers that read back as the floats (\<open>number_text\<close>). Where the runner's \<open>json.loads\<close> is an
  argument (\<open>loads\<close>), the theorem about the load generator's output assumes that it agrees
  with \<open>json_loads\<close>. The clock readings of the load generator and the
  answer of \<open>getrusage\<close> are arguments.

  \<^bold>\<open>Not modelled.\<close> The second load generator (Odin) and the servers in other languages,
  vendored rocks and shell scripts; \<open>net.Dial\<close> and the pauses between connects; logging and
  \<open>print\<close>, the closing of the CSV files, the choice of event loop at import time.
  A closed transport that still
  has buffered data accepts further writes in asyncio; here it drops them. How a browser
  parses the page is not modelled beyond the three character references of \<open>esc\<close>.
\<close>

section \<open>From the runner's launch plan to the running server\<close>

text \<open>C33: The runner and the Python server agree on the command line. Every process of the
  Python launch plan, given the port and a non-zero tick rate, starts a server that
  listens on that port, with no rooms, no players and period \<open>1 / tick\<close>.\<close>

theorem python_plan_starts_the_server:
  assumes "0 \<le> port" and "tick \<noteq> 0" and "(argv, env, cpu) \<in> set (spec_python h port tick cores)"
  shows "server_main (drop 1 argv) = Inr (port, init_server (1 / of_int tick))"
proof -
  have argv: "drop 1 argv = path_join (h_root h) ''servers/python/server.py'' #
      ''-addr'' # ([] @ '':'' @ py_str port) # ''-tick'' # py_str tick # []"
    using assms(3) by (auto simp: spec_python_def addr_arg_def)
  have "parse_loop (''-addr'' # ([] @ '':'' @ py_str port) # ''-tick'' # py_str tick # []) 9000 30 = Inr (port, tick)"
    using parse_loop_options [of port "[]" tick "[]" 9000 30] assms(1) by simp
  then show ?thesis using assms(2) unfolding argv by (simp add: server_main_def parse_args_def)
qed

theorem python_plan_starts_the_server_witness:
  "server_main (drop 1 [''python3'', ''/b/servers/python/server.py'', ''-addr'', '':9100'', ''-tick'', ''30'']) =
    Inr (9100, init_server (1 / 30))"
proof -
  have "([''python3'', ''/b/servers/python/server.py'', ''-addr'', '':9100'', ''-tick'', ''30''], [], ''0'')
      \<in> set (spec_python demo_host 9100 30 [0, 1])"
    by (simp add: spec_python_def demo_host_def addr_arg_def path_join_def startswith_def str_eval Let_def)
  from python_plan_starts_the_server [OF _ _ this] show ?thesis by simp
qed

end
